(* ===== verification/Prelude.thy ===== *)
theory Prelude
  imports Main "HOL-Library.Word"
begin

unbundle bit_operations_syntax

text \<open>
  Shared vocabulary of the development: the machine types of the 32-bit i386 target, the
  byte-addressed physical memory with its little-endian accessors, the status codes of
  \<^verbatim>\<open>src/src/status.h\<close>, the outcome type of kernel code that may panic, and the generic
  facts on words and memory that the component theories use.
\<close>

section \<open>Machine types\<close>

type_synonym u8 = "8 word"
type_synonym u16 = "16 word"
type_synonym u32 = "32 word"
type_synonym addr = "32 word"
type_synonym memory = "addr \<Rightarrow> u8"

text \<open>Fact collections: memory accessors, allocator facts, paging facts.\<close>

named_theorems mem_simps
named_theorems kheap_simps
named_theorems paging_simps

section \<open>Status codes and outcomes\<close>

definition STATUS_OK :: int where [simp]: "STATUS_OK = 0"
definition STATUS_IO_ERROR :: int where [simp]: "STATUS_IO_ERROR = 1"
definition STATUS_INVALID_ARG :: int where [simp]: "STATUS_INVALID_ARG = 2"
definition STATUS_NOT_ENOUGH_MEM :: int where [simp]: "STATUS_NOT_ENOUGH_MEM = 3"
definition STATUS_GENERIC_ERROR :: int where [simp]: "STATUS_GENERIC_ERROR = 4"
definition STATUS_BAD_FILE_PATH :: int where [simp]: "STATUS_BAD_FILE_PATH = 5"
definition STATUS_NOT_IMPLEMENTED :: int where [simp]: "STATUS_NOT_IMPLEMENTED = 6"
definition STATUS_OUT_OF_PROCS :: int where [simp]: "STATUS_OUT_OF_PROCS = 7"
definition STATUS_INVALID_USER_MEM_ACCESS :: int where [simp]: "STATUS_INVALID_USER_MEM_ACCESS = 9"
definition STATUS_INVALID_EXEC_FORMAT :: int where [simp]: "STATUS_INVALID_EXEC_FORMAT = 10"
definition STATUS_OUT_OF_VMEM_BLOCKS :: int where [simp]: "STATUS_OUT_OF_VMEM_BLOCKS = 12"
definition SYSCALL_NOT_IMPLEMENTED :: int where [simp]: "SYSCALL_NOT_IMPLEMENTED = 13"
definition STATUS_PROC_NOT_ZOMBIE :: int where [simp]: "STATUS_PROC_NOT_ZOMBIE = 14"
definition STATUS_PROC_EXCEPTION :: int where [simp]: "STATUS_PROC_EXCEPTION = 15"

text \<open>
  How a call of kernel code ends: it returns a value; it panics, that is prints its message and
  spins forever (\<^verbatim>\<open>src/src/kernel.c\<close>); it switches to user mode (the \<^verbatim>\<open>iret\<close> of \<^verbatim>\<open>task_return\<close>) and does
  not come back to the caller either; it loops forever; it touches an unmapped user address, which
  raises a page fault; or it dereferences a null pointer.
\<close>

datatype ('s, 'a) outcome =
  Ret 'a 's | Panic string 's | UserMode 's | Diverges | PageFault addr 's | NullDeref 's

primrec bindO :: "('s, 'a) outcome \<Rightarrow> ('a \<Rightarrow> 's \<Rightarrow> ('s, 'b) outcome) \<Rightarrow> ('s, 'b) outcome" where
  "bindO (Ret a s) f = f a s"
| "bindO (Panic e s) f = Panic e s"
| "bindO (UserMode s) f = UserMode s"
| "bindO Diverges f = Diverges"
| "bindO (PageFault a s) f = PageFault a s"
| "bindO (NullDeref s) f = NullDeref s"

text \<open>A call modelled by an option: \<open>None\<close> when it does not come back.\<close>

definition liftO :: "('a \<times> 's) option \<Rightarrow> ('s, 'a) outcome" where
  "liftO r = (case r of None \<Rightarrow> Diverges | Some (a, s) \<Rightarrow> Ret a s)"

lemma liftO_simps [simp]: "liftO None = Diverges" "liftO (Some (a, s)) = Ret a s"
  by (simp_all add: liftO_def)

lemma bindO_Ret_iff:
  "bindO m f = Ret b t \<longleftrightarrow> (\<exists>a s. m = Ret a s \<and> f a s = Ret b t)"
  by (cases m) auto

lemma bindO_assoc: "bindO (bindO m f) g = bindO m (\<lambda>a s. bindO (f a s) g)"
  by (cases m) auto

section \<open>Words\<close>

lemma unat_u32_bound [simp]: "unat (w :: u32) < 4294967296"
  using unsigned_less [of w] by simp

lemma unat_of_nat32: "n < 2 ^ 32 \<Longrightarrow> unat (of_nat n :: u32) = n"
  by (simp add: unat_of_nat)

lemma unat_add_small: "unat (a :: u32) + n < 2 ^ 32 \<Longrightarrow> unat (a + of_nat n) = unat a + n"
  by (simp add: unat_word_ariths unat_of_nat)

lemma of_nat_eq_unat: "n < 2 ^ 32 \<Longrightarrow> of_nat n = (w :: u32) \<longleftrightarrow> unat w = n"
  by (metis unat_of_nat32 word_unat_eq_iff)

lemma word_add_of_nat_inj:
  assumes "(p :: u32) + of_nat i = p + of_nat j" and "i < 2 ^ 32" and "j < 2 ^ 32"
  shows "i = j"
proof -
  from assms(1) have "(of_nat i :: u32) = of_nat j"
    by simp
  then have "unat (of_nat i :: u32) = unat (of_nat j :: u32)"
    by simp
  with assms(2,3) show ?thesis
    by (simp add: unat_of_nat)
qed

lemma unat_le_u32 [simp]: "unat (w :: u32) \<le> 4294967296"
  by (simp add: less_imp_le)

lemma offset_eq_iff:
  assumes "i < 2 ^ 32"
  shows "(a :: u32) = p + of_nat i \<longleftrightarrow> unat (a - p) = i"
proof
  assume "a = p + of_nat i"
  with assms show "unat (a - p) = i" by (simp add: unat_of_nat)
next
  assume "unat (a - p) = i"
  then have "a - p = of_nat i" by auto
  then show "a = p + of_nat i" by (simp add: algebra_simps)
qed

section \<open>Memory accessors\<close>

definition load16 :: "memory \<Rightarrow> addr \<Rightarrow> u16" where
  "load16 m a = ucast (m a) OR push_bit 8 (ucast (m (a + 1)))"

definition load32 :: "memory \<Rightarrow> addr \<Rightarrow> u32" where
  "load32 m a = ucast (m a) OR push_bit 8 (ucast (m (a + 1)))
                OR push_bit 16 (ucast (m (a + 2))) OR push_bit 24 (ucast (m (a + 3)))"

definition store32 :: "memory \<Rightarrow> addr \<Rightarrow> u32 \<Rightarrow> memory" where
  "store32 m a v = m(a := ucast v, a + 1 := ucast (drop_bit 8 v),
                     a + 2 := ucast (drop_bit 16 v), a + 3 := ucast (drop_bit 24 v))"

text \<open>Four-byte aligned words do not overlap: a store is seen by loads of the same word only.\<close>

definition aligned4 :: "addr \<Rightarrow> bool" where
  "aligned4 a \<longleftrightarrow> unat a mod 4 = 0"

lemma bytes_of_word32:
  "(ucast (ucast v :: u8) :: u32) OR push_bit 8 (ucast (ucast (drop_bit 8 v) :: u8))
     OR push_bit 16 (ucast (ucast (drop_bit 16 v) :: u8))
     OR push_bit 24 (ucast (ucast (drop_bit 24 v) :: u8)) = v"
proof (rule bit_word_eqI)
  fix n assume "n < LENGTH(32)"
  then have "n < 32" by simp
  then show "bit ((ucast (ucast v :: u8) :: u32) OR push_bit 8 (ucast (ucast (drop_bit 8 v) :: u8))
     OR push_bit 16 (ucast (ucast (drop_bit 16 v) :: u8))
     OR push_bit 24 (ucast (ucast (drop_bit 24 v) :: u8))) n = bit v n"
    by (cases "n < 8"; cases "n < 16"; cases "n < 24") (auto simp: bit_simps)
qed

lemma load32_store32_same [mem_simps]: "load32 (store32 m a v) a = v"
  by (simp add: load32_def store32_def bytes_of_word32)

lemma unat_aligned4_add:
  assumes "aligned4 a" and "i < 4"
  shows "unat (a + of_nat i) = unat a + i"
proof -
  have "unat a < 4294967296" by simp
  with assms have "unat a + i < 4294967296"
    unfolding aligned4_def by presburger
  then show ?thesis by (intro unat_add_small) simp
qed

lemma aligned4_bytes_neq:
  assumes "aligned4 a" and "aligned4 b" and "a \<noteq> b" and "i < 4" and "j < 4"
  shows "a + of_nat i \<noteq> b + of_nat j"
proof
  assume "a + of_nat i = b + of_nat j"
  with assms have "unat a + i = unat b + j"
    using unat_aligned4_add [of a i] unat_aligned4_add [of b j] by simp
  with assms have "unat a = unat b"
    unfolding aligned4_def by presburger
  with assms(3) show False by (simp add: word_unat_eq_iff)
qed

lemma store32_other_byte:
  assumes "\<And>i. i < 4 \<Longrightarrow> x \<noteq> a + of_nat i"
  shows "store32 m a v x = m x"
  using assms [of 0] assms [of 1] assms [of 2] assms [of 3] by (simp add: store32_def)

lemma load32_cong:
  assumes "\<And>i. i < 4 \<Longrightarrow> m (a + of_nat i) = m' (a + of_nat i)"
  shows "load32 m a = load32 m' a"
  using assms [of 0] assms [of 1] assms [of 2] assms [of 3] by (simp add: load32_def)

lemma load32_store32_other:
  assumes "aligned4 a" and "aligned4 b" and "a \<noteq> b"
  shows "load32 (store32 m a v) b = load32 m b"
  by (rule load32_cong, rule store32_other_byte) (metis aligned4_bytes_neq assms)

lemma load32_zero: "(\<And>i. i < 4 \<Longrightarrow> m (a + of_nat i) = 0) \<Longrightarrow> load32 m a = 0"
  using load32_cong [of m a "\<lambda>_. 0"] by (simp add: load32_def)

end
