(* ===== verification/KMemory.thy ===== *)
theory KMemory
  imports Prelude
begin

text \<open>
  The byte-block primitives of \<^verbatim>\<open>src/src/memory/memory.c\<close>. Each \<^verbatim>\<open>for\<close> loop is a recursive
  function on its index; the closed forms \<open>memset_eq\<close> and \<open>memcpy_eq\<close> say what a whole call
  leaves in memory, and \<open>memcmp_eq_0\<close> when two blocks compare equal.
\<close>

section \<open>Address ranges\<close>

text \<open>\<open>in_block a p n\<close>: the address \<open>a\<close> is one of the \<open>n\<close> bytes at \<open>p\<close>.\<close>

definition in_block :: "addr \<Rightarrow> addr \<Rightarrow> nat \<Rightarrow> bool" where
  "in_block a p n \<longleftrightarrow> unat (a - p) < n"

lemma in_block_iff:
  assumes "n \<le> 2 ^ 32"
  shows "in_block a p n \<longleftrightarrow> (\<exists>k < n. a = p + of_nat k)"
proof
  assume "in_block a p n"
  then have "unat (a - p) < n" by (simp add: in_block_def)
  moreover have "a = p + of_nat (unat (a - p))" by simp
  ultimately show "\<exists>k < n. a = p + of_nat k" by blast
next
  assume "\<exists>k < n. a = p + of_nat k"
  then obtain k where k: "k < n" "a = p + of_nat k" by blast
  with assms have "unat (a - p) = k" by (simp add: unat_of_nat)
  with k show "in_block a p n" by (simp add: in_block_def)
qed

lemma in_block_offset:
  assumes "k < 2 ^ 32"
  shows "in_block (p + of_nat k) p n \<longleftrightarrow> k < n"
  using assms by (simp add: in_block_def unat_of_nat)

lemma unat_offset: "unat (p :: addr) + k < 2 ^ 32 \<Longrightarrow> unat (p + of_nat k) = unat p + k"
  by (simp add: unat_add_lem [THEN iffD1] unat_of_nat)

lemma in_block_range:
  assumes "unat p + n \<le> 2 ^ 32"
  shows "in_block a p n \<longleftrightarrow> unat p \<le> unat a \<and> unat a < unat p + n"
proof
  assume "in_block a p n"
  moreover have "n \<le> 2 ^ 32" using assms by linarith
  ultimately obtain k where k: "k < n" "a = p + of_nat k" using in_block_iff by blast
  then have "unat a = unat p + k" using assms by (simp only: unat_add_small)
  with k show "unat p \<le> unat a \<and> unat a < unat p + n" by simp
next
  assume a: "unat p \<le> unat a \<and> unat a < unat p + n"
  then have "unat (a - p) = unat a - unat p" by (intro unat_sub) (simp add: word_le_nat_alt)
  with a have "unat (a - p) < n" by linarith
  then show "in_block a p n" by (simp add: in_block_def)
qed

section \<open>memset\<close>

function memset_loop :: "memory \<Rightarrow> addr \<Rightarrow> u8 \<Rightarrow> nat \<Rightarrow> nat \<Rightarrow> memory" where
  "memset_loop m p c i num =
     (if i < num then memset_loop (m(p + of_nat i := c)) p c (Suc i) num else m)"
  by pat_completeness auto
termination
  by (relation "measure (\<lambda>(m, p, c, i, num). num - i)") auto

declare memset_loop.simps [simp del]

definition memset :: "memory \<Rightarrow> addr \<Rightarrow> u8 \<Rightarrow> u32 \<Rightarrow> addr \<times> memory" where
  "memset m ptr c num = (ptr, memset_loop m ptr c 0 (unat num))"

lemma memset_loop_eq:
  assumes "num \<le> 2 ^ 32"
  shows "memset_loop m p c i num = (\<lambda>a. if i \<le> unat (a - p) \<and> unat (a - p) < num then c else m a)"
  using assms
proof (induction m p c i num rule: memset_loop.induct)
  case (1 m p c i num)
  show ?case
  proof (cases "i < num")
    case True
    then have i: "unat (p + of_nat i - p) = i"
      using "1.prems" by (simp add: unat_of_nat)
    have at_i: "a = p + of_nat i \<longleftrightarrow> unat (a - p) = i" for a
      by (rule offset_eq_iff) (use True "1.prems" in linarith)
    have IH: "memset_loop (m(p + of_nat i := c)) p c (Suc i) num =
        (\<lambda>a. if Suc i \<le> unat (a - p) \<and> unat (a - p) < num then c else (m(p + of_nat i := c)) a)"
      by (rule "1.IH") (use True "1.prems" in auto)
    have unf: "memset_loop m p c i num = memset_loop (m(p + of_nat i := c)) p c (Suc i) num"
      using True by (simp add: memset_loop.simps [of m p c i num])
    show ?thesis
      unfolding unf IH using True by (auto simp: fun_eq_iff at_i)
  next
    case False
    then show ?thesis
      by (auto simp: fun_eq_iff memset_loop.simps [of m p c i num])
  qed
qed

lemma memset_eq [mem_simps]:
  "memset m p c num = (p, \<lambda>a. if in_block a p (unat num) then c else m a)"
  using memset_loop_eq [of "unat num" m p c 0]
  by (simp add: memset_def in_block_def)

section \<open>memcmp\<close>

text \<open>The bytes are compared as \<^verbatim>\<open>unsigned char\<close>; the result is their difference as an \<^verbatim>\<open>int\<close>.\<close>

function memcmp_loop :: "memory \<Rightarrow> addr \<Rightarrow> addr \<Rightarrow> nat \<Rightarrow> nat \<Rightarrow> int" where
  "memcmp_loop m p1 p2 i num =
     (if i < num
      then if m (p1 + of_nat i) \<noteq> m (p2 + of_nat i)
           then uint (m (p1 + of_nat i)) - uint (m (p2 + of_nat i))
           else memcmp_loop m p1 p2 (Suc i) num
      else 0)"
  by pat_completeness auto
termination
  by (relation "measure (\<lambda>(m, p1, p2, i, num). num - i)") auto

declare memcmp_loop.simps [simp del]

definition memcmp :: "memory \<Rightarrow> addr \<Rightarrow> addr \<Rightarrow> u32 \<Rightarrow> int" where
  "memcmp m ptr1 ptr2 num = memcmp_loop m ptr1 ptr2 0 (unat num)"

lemma memcmp_loop_eq_0:
  "memcmp_loop m p1 p2 i num = 0 \<longleftrightarrow>
     (\<forall>k. i \<le> k \<and> k < num \<longrightarrow> m (p1 + of_nat k) = m (p2 + of_nat k))"
proof (induction m p1 p2 i num rule: memcmp_loop.induct)
  case (1 m p1 p2 i num)
  show ?case
  proof (cases "i < num \<and> m (p1 + of_nat i) = m (p2 + of_nat i)")
    case True
    with "1.IH" show ?thesis
      unfolding memcmp_loop.simps [of m p1 p2 i num]
      by simp (metis Suc_le_eq le_neq_implies_less nat_less_le)
  next
    case False
    then show ?thesis
      by (auto simp: memcmp_loop.simps [of m p1 p2 i num] word_uint_eq_iff)
  qed
qed

lemma memcmp_eq_0 [mem_simps]:
  "memcmp m p1 p2 num = 0 \<longleftrightarrow> (\<forall>k < unat num. m (p1 + of_nat k) = m (p2 + of_nat k))"
  by (simp add: memcmp_def memcmp_loop_eq_0)

section \<open>memcpy\<close>

function memcpy_loop :: "memory \<Rightarrow> addr \<Rightarrow> addr \<Rightarrow> nat \<Rightarrow> nat \<Rightarrow> memory" where
  "memcpy_loop m dest src i num =
     (if i < num
      then memcpy_loop (m(dest + of_nat i := m (src + of_nat i))) dest src (Suc i) num
      else m)"
  by pat_completeness auto
termination
  by (relation "measure (\<lambda>(m, dest, src, i, num). num - i)") auto

declare memcpy_loop.simps [simp del]

definition memcpy :: "memory \<Rightarrow> addr \<Rightarrow> addr \<Rightarrow> u32 \<Rightarrow> memory" where
  "memcpy m dest src num = memcpy_loop m dest src 0 (unat num)"

text \<open>The two blocks of a copy do not share a byte.\<close>

definition blocks_disjoint :: "addr \<Rightarrow> nat \<Rightarrow> addr \<Rightarrow> nat \<Rightarrow> bool" where
  "blocks_disjoint p n q k \<longleftrightarrow> (\<forall>a. \<not> (in_block a p n \<and> in_block a q k))"

lemma memcpy_loop_eq:
  assumes "num \<le> 2 ^ 32" and "blocks_disjoint d num s num"
  shows "memcpy_loop m d s i num =
    (\<lambda>a. if i \<le> unat (a - d) \<and> unat (a - d) < num then m (s + (a - d)) else m a)"
  using assms
proof (induction m d s i num rule: memcpy_loop.induct)
  case (1 m d s i num)
  let ?m' = "m(d + of_nat i := m (s + of_nat i))"
  show ?case
  proof (cases "i < num")
    case True
    then have i: "unat (d + of_nat i - d) = i"
      using "1.prems" by (simp add: unat_of_nat)
    have at_i: "a = d + of_nat i \<longleftrightarrow> unat (a - d) = i" for a
      by (rule offset_eq_iff) (use True "1.prems" in linarith)
    have src: "?m' (s + (a - d)) = m (s + (a - d))" if "unat (a - d) < num" for a
    proof -
      have "in_block (s + (a - d)) s num" using that by (simp add: in_block_def)
      moreover have "in_block (d + of_nat i) d num" using True i by (simp add: in_block_def)
      ultimately have "s + (a - d) \<noteq> d + of_nat i"
        using "1.prems"(2) by (metis blocks_disjoint_def)
      then show ?thesis by simp
    qed
    have IH: "memcpy_loop ?m' d s (Suc i) num =
        (\<lambda>a. if Suc i \<le> unat (a - d) \<and> unat (a - d) < num then ?m' (s + (a - d)) else ?m' a)"
      by (rule "1.IH") (use True "1.prems" in auto)
    have unf: "memcpy_loop m d s i num = memcpy_loop ?m' d s (Suc i) num"
      using True by (simp add: memcpy_loop.simps [of m d s i num])
    show ?thesis
    proof
      fix a
      consider (eq) "unat (a - d) = i" | (lt) "unat (a - d) < i" | (gt) "i < unat (a - d)"
        by linarith
      then show "memcpy_loop m d s i num a =
          (if i \<le> unat (a - d) \<and> unat (a - d) < num then m (s + (a - d)) else m a)"
      proof cases
        case eq
        with True i show ?thesis unfolding unf IH
          by (simp add: at_i [symmetric])
      next
        case lt
        then have "a \<noteq> d + of_nat i" using at_i by auto
        with lt show ?thesis unfolding unf IH by auto
      next
        case gt
        then have "a \<noteq> d + of_nat i" using at_i by auto
        with gt show ?thesis unfolding unf IH using src by auto
      qed
    qed
  next
    case False
    then show ?thesis
      by (auto simp: fun_eq_iff memcpy_loop.simps [of m d s i num])
  qed
qed

lemma memcpy_eq:
  assumes "blocks_disjoint d (unat num) s (unat num)"
  shows "memcpy m d s num = (\<lambda>a. if in_block a d (unat num) then m (s + (a - d)) else m a)"
  using memcpy_loop_eq [of "unat num" d s m 0] assms
  by (simp add: memcpy_def in_block_def)

end
