(* ===== verification/Decimal.thy ===== *)
theory Decimal
  imports Prelude
begin

text \<open>
  The decimal conversion loops that \<^verbatim>\<open>print_int\<close> (\<^verbatim>\<open>src/src/console/console.c\<close>) and
  \<^verbatim>\<open>itoa\<close> (\<^verbatim>\<open>src/programs/stdlib/src/stdlib.c\<close>) share: count the digits of a non-negative
  value, fill a buffer with them from the least significant one, and emit the buffer backwards.
  \<open>decimal_value_digits\<close> shows that the emitted digits denote the value, \<open>digits_no_leading_zero\<close>
  that none is superfluous and \<open>num_digits_le_10\<close> that a 32-bit value fits the buffers.
\<close>

section \<open>Signed 32-bit negation\<close>

text \<open>\<^verbatim>\<open>x = -x\<close> on a 32-bit \<^verbatim>\<open>int\<close>: the value wraps at \<^verbatim>\<open>INT_MIN\<close>.\<close>

definition neg32 :: "int \<Rightarrow> int" where
  "neg32 x = sint (- (word_of_int x :: u32))"

definition int32 :: "int \<Rightarrow> bool" where
  "int32 x \<longleftrightarrow> - (2 ^ 31) \<le> x \<and> x < 2 ^ 31"

lemma neg32_eq:
  assumes "int32 x" and "x \<noteq> - (2 ^ 31)"
  shows "neg32 x = - x"
proof -
  have "neg32 x = sint (word_of_int (- x) :: u32)"
    by (simp add: neg32_def)
  also have "\<dots> = signed_take_bit 31 (- x)"
    by (subst signed_of_int) simp
  also have "\<dots> = - x"
    by (rule signed_take_bit_int_eq_self) (use assms in \<open>auto simp: int32_def\<close>)
  finally show ?thesis .
qed

lemma neg32_min: "neg32 (- (2 ^ 31)) = - (2 ^ 31)"
  by (simp add: neg32_def)

section \<open>Digit loops\<close>

lemma zdiv_less_if_mult:
  assumes "(x :: int) < 10 ^ k * b"
  shows "x div 10 ^ k < b"
proof (rule ccontr)
  assume "\<not> x div 10 ^ k < b"
  then have "10 ^ k * b \<le> 10 ^ k * (x div 10 ^ k)" by (simp add: mult_left_mono)
  also have "\<dots> \<le> x"
    using mult_div_mod_eq [of "10 ^ k" x] pos_mod_sign [of "10 ^ k" x] by (metis add_increasing2 dual_order.refl zero_less_numeral zero_less_power)
  finally show False using assms by simp
qed

fun count_digits :: "int \<Rightarrow> nat" where
  "count_digits x = (if x > 0 then Suc (count_digits (x div 10)) else 0)"

declare count_digits.simps [simp del]

text \<open>Entry \<open>i\<close> of the buffer is the \<open>i\<close>-th least significant digit, as a character.\<close>

fun digit_buf :: "nat \<Rightarrow> int \<Rightarrow> u8 list" where
  "digit_buf 0 x = []"
| "digit_buf (Suc n) x = (48 + word_of_int (x mod 10)) # digit_buf n (x div 10)"

text \<open>What is emitted: the buffer read backwards.\<close>

definition decimal_digits :: "int \<Rightarrow> u8 list" where
  "decimal_digits x = rev (digit_buf (count_digits x) x)"

text \<open>The value a string of digit characters denotes, most significant digit first.\<close>

definition decimal_value :: "u8 list \<Rightarrow> int" where
  "decimal_value cs = foldl (\<lambda>v c. 10 * v + (uint c - 48)) 0 cs"

lemma uint_digit_char: "uint (48 + word_of_int (x mod 10) :: u8) = 48 + x mod 10"
proof -
  have "0 \<le> x mod 10" "x mod 10 < 10" by auto
  then show ?thesis by (simp add: uint_word_ariths uint_word_of_int take_bit_int_eq_self)
qed

lemma decimal_value_snoc: "decimal_value (cs @ [c]) = 10 * decimal_value cs + (uint c - 48)"
  by (simp add: decimal_value_def)

lemma decimal_value_digit_buf:
  "0 \<le> x \<Longrightarrow> x < 10 ^ n \<Longrightarrow> decimal_value (rev (digit_buf n x)) = x"
proof (induction n arbitrary: x)
  case 0
  then show ?case by (simp add: decimal_value_def)
next
  case (Suc n)
  then have "0 \<le> x div 10" "x div 10 < 10 ^ n" by auto
  then have "decimal_value (rev (digit_buf n (x div 10))) = x div 10" by (rule Suc.IH)
  then show ?case by (simp add: decimal_value_snoc uint_digit_char)
qed

lemma count_digits_bound: "0 \<le> x \<Longrightarrow> x < 10 ^ count_digits x"
proof (induction x rule: count_digits.induct)
  case (1 x)
  show ?case
  proof (cases "x > 0")
    case True
    then have "x div 10 < 10 ^ count_digits (x div 10)" using "1.IH" by simp
    with True show ?thesis by (simp add: count_digits.simps [of x])
  next
    case False
    with "1.prems" show ?thesis by (simp add: count_digits.simps [of x])
  qed
qed

lemma count_digits_minimal: "0 < x \<Longrightarrow> 10 ^ (count_digits x - 1) \<le> x"
proof (induction x rule: count_digits.induct)
  case (1 x)
  show ?case
  proof (cases "x div 10 > 0")
    case True
    have pos: "0 < count_digits (x div 10)"
      using True by (simp add: count_digits.simps [of "x div 10"])
    have "10 ^ (count_digits (x div 10) - 1) \<le> x div 10" using "1.IH" "1.prems" True by simp
    then have "10 * 10 ^ (count_digits (x div 10) - 1) \<le> x" by linarith
    moreover have "count_digits x - 1 = Suc (count_digits (x div 10) - 1)"
      using "1.prems" pos by (simp add: count_digits.simps [of x])
    ultimately show ?thesis by simp
  next
    case False
    then have "count_digits (x div 10) = 0"
      by (simp add: count_digits.simps [of "x div 10"])
    with "1.prems" show ?thesis
      by (simp add: count_digits.simps [of x])
  qed
qed

lemma decimal_value_digits: "0 \<le> x \<Longrightarrow> decimal_value (decimal_digits x) = x"
  by (simp add: decimal_digits_def decimal_value_digit_buf count_digits_bound)

lemma length_digit_buf [simp]: "length (digit_buf n x) = n"
  by (induction n arbitrary: x) auto

lemma length_decimal_digits: "length (decimal_digits x) = count_digits x"
  by (simp add: decimal_digits_def)

lemma num_digits_le_10: "x < 2 ^ 31 \<Longrightarrow> count_digits x \<le> 10"
proof (rule ccontr)
  assume x: "x < 2 ^ 31" and "\<not> count_digits x \<le> 10"
  then have "10 \<le> count_digits x - 1" and pos: "0 < x"
    by (auto simp: count_digits.simps [of x] split: if_splits)
  then have "(10 :: int) ^ 10 \<le> 10 ^ (count_digits x - 1)"
    by (intro power_increasing) auto
  also have "\<dots> \<le> x" using pos by (rule count_digits_minimal)
  finally show False using x by simp
qed

lemma digit_buf_range: "c \<in> set (digit_buf n x) \<Longrightarrow> 48 \<le> uint c \<and> uint c \<le> 57"
proof (induction n arbitrary: x)
  case 0
  then show ?case by simp
next
  case (Suc n)
  have "0 \<le> x mod 10" "x mod 10 \<le> 9" by presburger+
  with Suc show ?case by (auto simp: uint_digit_char)
qed

lemma decimal_digits_range: "c \<in> set (decimal_digits x) \<Longrightarrow> 48 \<le> uint c \<and> uint c \<le> 57"
  by (auto simp: decimal_digits_def dest: digit_buf_range)

lemma last_digit_buf:
  "0 < n \<Longrightarrow> last (digit_buf n x) = 48 + word_of_int (x div 10 ^ (n - 1) mod 10)"
proof (induction n arbitrary: x)
  case 0
  then show ?case by simp
next
  case (Suc n)
  show ?case
  proof (cases n)
    case 0
    then show ?thesis by simp
  next
    case (Suc k)
    then have "last (digit_buf n (x div 10)) = 48 + word_of_int (x div 10 div 10 ^ (n - 1) mod 10)"
      by (intro Suc.IH) simp
    moreover have "x div 10 div 10 ^ (n - 1) = x div 10 ^ n"
      using \<open>n = Suc k\<close> by (simp add: zdiv_zmult2_eq)
    moreover have "digit_buf n (x div 10) \<noteq> []" using \<open>n = Suc k\<close> by simp
    ultimately show ?thesis by simp
  qed
qed

lemma digits_no_leading_zero:
  assumes "0 < x"
  shows "hd (decimal_digits x) \<noteq> 48"
proof -
  let ?n = "count_digits x"
  have n: "0 < ?n" using assms by (simp add: count_digits.simps [of x])
  then have ne: "digit_buf ?n x \<noteq> []" by (metis length_0_conv length_digit_buf less_numeral_extra(3))
  have lo: "1 \<le> x div 10 ^ (?n - 1)"
    using count_digits_minimal [OF assms] by (simp add: pos_imp_zdiv_pos_iff int_one_le_iff_zero_less)
  have "x < 10 ^ ?n" using assms by (simp add: count_digits_bound)
  also have "(10::int) ^ ?n = 10 * 10 ^ (?n - 1)" using n by (simp flip: power_Suc)
  finally have "x < 10 ^ (?n - 1) * 10" by (simp add: mult.commute)
  then have hi: "x div 10 ^ (?n - 1) < 10" by (rule zdiv_less_if_mult)
  have "hd (decimal_digits x) = 48 + word_of_int (x div 10 ^ (?n - 1) mod 10)"
    using ne n by (simp add: decimal_digits_def hd_rev last_digit_buf)
  then have "uint (hd (decimal_digits x)) = 48 + x div 10 ^ (?n - 1) mod 10"
    by (simp only: uint_digit_char)
  also have "x div 10 ^ (?n - 1) mod 10 = x div 10 ^ (?n - 1)"
    using lo hi by (intro mod_pos_pos_trivial) auto
  finally show ?thesis using lo by auto
qed

end
