(* ===== verification/Console.thy ===== *)
theory Console
  imports Prelude Decimal
begin

text \<open>
  The text console of \<^verbatim>\<open>src/src/console/console.c\<close>. The state holds the physical memory, the
  cells at \<^verbatim>\<open>video_mem\<close> (cell \<open>i\<close> is the 16-bit word at \<^verbatim>\<open>0xB8000 + 2*i\<close>; indices past
  \<^verbatim>\<open>VGA_WIDTH * VGA_HEIGHT\<close> are the memory behind the screen) and the cursor. The lemmas show
  that the column stays on the screen, which cell a character goes to and where the cursor ends
  up, and that \<^verbatim>\<open>print_int\<close> prints the decimal representation of its argument.
\<close>

section \<open>State\<close>

record machine =
  mem :: memory

record console_st = machine +
  video_mem :: "nat \<Rightarrow> u16"
  curr_y :: u16
  curr_x :: u16

definition VGA_WIDTH :: nat where [simp]: "VGA_WIDTH = 80"
definition VGA_HEIGHT :: nat where [simp]: "VGA_HEIGHT = 20"

section \<open>Operations\<close>

text \<open>\<^verbatim>\<open>char\<close> is signed: both operands are sign extended to \<^verbatim>\<open>int\<close> before the shift and the or.\<close>

definition make_char :: "u8 \<Rightarrow> u8 \<Rightarrow> u16" where
  "make_char c color = ucast (push_bit 8 (scast color :: u32) OR (scast c :: u32))"

definition blank_screen :: "(nat \<Rightarrow> u16) \<Rightarrow> nat \<Rightarrow> u16" where
  "blank_screen v =
     fold (\<lambda>y. fold (\<lambda>x v. v(VGA_WIDTH * y + x := make_char 32 0)) [0..<VGA_WIDTH]) [0..<VGA_HEIGHT] v"

definition console_init :: "'a console_st_scheme \<Rightarrow> 'a console_st_scheme" where
  "console_init s = s\<lparr>video_mem := blank_screen (video_mem s)\<rparr>"

definition console_put_char ::
    "nat \<Rightarrow> nat \<Rightarrow> u8 \<Rightarrow> u8 \<Rightarrow> 'a console_st_scheme \<Rightarrow> 'a console_st_scheme" where
  "console_put_char x y c color s =
     s\<lparr>video_mem := (video_mem s)(y * VGA_WIDTH + x := make_char c color)\<rparr>"

definition console_backspace :: "'a console_st_scheme \<Rightarrow> 'a console_st_scheme" where
  "console_backspace s =
     (if curr_x s = 0 \<and> curr_y s = 0 then s
      else let s = (if curr_x s = 0
                    then s\<lparr>curr_y := curr_y s - 1, curr_x := of_nat (VGA_WIDTH - 1)\<rparr>
                    else s\<lparr>curr_x := curr_x s - 1\<rparr>)
           in console_put_char (unat (curr_x s)) (unat (curr_y s)) 32 0 s)"

definition console_write_char :: "u8 \<Rightarrow> u8 \<Rightarrow> 'a console_st_scheme \<Rightarrow> 'a console_st_scheme" where
  "console_write_char c color s =
     (if c = 10 then s\<lparr>curr_y := curr_y s + 1, curr_x := 0\<rparr>
      else if c = 8 then console_backspace s
      else let s = console_put_char (unat (curr_x s)) (unat (curr_y s)) c color s;
               s = s\<lparr>curr_x := curr_x s + 1\<rparr>
           in if curr_x s = of_nat VGA_WIDTH then s\<lparr>curr_y := curr_y s + 1, curr_x := 0\<rparr> else s)"

text \<open>The argument of \<^verbatim>\<open>print\<close> is the byte sequence at \<^verbatim>\<open>str\<close>; printing stops at the first NUL.\<close>

fun print :: "u8 list \<Rightarrow> 'a console_st_scheme \<Rightarrow> 'a console_st_scheme" where
  "print [] s = s"
| "print (c # cs) s = (if c = 0 then s else print cs (console_write_char c 15 s))"

function printn_loop :: "addr \<Rightarrow> nat \<Rightarrow> nat \<Rightarrow> 'a console_st_scheme \<Rightarrow> 'a console_st_scheme" where
  "printn_loop str i n s =
     (if i < n
      then if mem s (str + of_nat i) = 0 then s
           else printn_loop str (Suc i) n (console_write_char (mem s (str + of_nat i)) 15 s)
      else s)"
  by pat_completeness auto
termination
  by (relation "measure (\<lambda>(str, i, n, s). n - i)") auto

declare printn_loop.simps [simp del]

text \<open>\<^verbatim>\<open>n\<close> is an \<^verbatim>\<open>int\<close>: a negative count prints nothing.\<close>

definition printn :: "addr \<Rightarrow> int \<Rightarrow> 'a console_st_scheme \<Rightarrow> 'a console_st_scheme" where
  "printn str n s = printn_loop str 0 (nat n) s"

definition print_char :: "u8 \<Rightarrow> 'a console_st_scheme \<Rightarrow> 'a console_st_scheme" where
  "print_char c s = console_write_char c 15 s"

text \<open>A string literal of the source, as bytes.\<close>

definition lit :: "string \<Rightarrow> u8 list" where
  "lit str = map of_char str"

definition println :: "u8 list \<Rightarrow> 'a console_st_scheme \<Rightarrow> 'a console_st_scheme" where
  "println str s = print [10] (print str s)"

definition print_int :: "int \<Rightarrow> 'a console_st_scheme \<Rightarrow> 'a console_st_scheme" where
  "print_int x s =
     (let s = (if x < 0 then print (lit ''-'') s else s);
          x = (if x < 0 then neg32 x else x);
          num_digits = count_digits x
      in if num_digits = 0 then print (lit ''0'') s
         else fold (\<lambda>j. console_write_char (digit_buf num_digits x ! j) 15) (rev [0..<num_digits]) s)"

definition clear_screen :: "'a console_st_scheme \<Rightarrow> 'a console_st_scheme" where
  "clear_screen s = s\<lparr>video_mem := blank_screen (video_mem s), curr_x := 0, curr_y := 0\<rparr>"

text \<open>\<^verbatim>\<open>panic\<close> (\<^verbatim>\<open>src/src/kernel.c\<close>) prints the message and never returns.\<close>

definition panic :: "string \<Rightarrow> 'a console_st_scheme \<Rightarrow> ('a console_st_scheme, 'b) outcome" where
  "panic msg s = Panic msg (println (lit msg) s)"

section \<open>What printing changes\<close>

definition console_frame :: "'a console_st_scheme \<Rightarrow> 'a console_st_scheme \<Rightarrow> bool" where
  "console_frame s t \<longleftrightarrow> (\<exists>v y x. t = s\<lparr>video_mem := v, curr_y := y, curr_x := x\<rparr>)"

lemma console_frameI: "t = s\<lparr>video_mem := v, curr_y := y, curr_x := x\<rparr> \<Longrightarrow> console_frame s t"
  by (auto simp: console_frame_def)

lemma console_frame_refl: "console_frame s s"
  by (rule console_frameI [where v = "video_mem s" and y = "curr_y s" and x = "curr_x s"]) simp

lemma console_frame_trans:
  assumes "console_frame s t" and "console_frame t u"
  shows "console_frame s u"
proof -
  from assms obtain v y x v' y' x' where "t = s\<lparr>video_mem := v, curr_y := y, curr_x := x\<rparr>"
    "u = t\<lparr>video_mem := v', curr_y := y', curr_x := x'\<rparr>" unfolding console_frame_def by blast
  then show ?thesis by (intro console_frameI [where v = v' and y = y' and x = x']) simp
qed

lemma console_frame_steps:
  "console_frame s (s\<lparr>video_mem := v\<rparr>)" "console_frame s (s\<lparr>curr_y := y\<rparr>)" "console_frame s (s\<lparr>curr_x := x\<rparr>)"
proof -
  show "console_frame s (s\<lparr>video_mem := v\<rparr>)"
    by (rule console_frameI [where v = v and y = "curr_y s" and x = "curr_x s"]) simp
  show "console_frame s (s\<lparr>curr_y := y\<rparr>)"
    by (rule console_frameI [where v = "video_mem s" and y = y and x = "curr_x s"]) simp
  show "console_frame s (s\<lparr>curr_x := x\<rparr>)"
    by (rule console_frameI [where v = "video_mem s" and y = "curr_y s" and x = x]) simp
qed

lemma console_frame_write_char: "console_frame s (console_write_char c color s)"
  by (auto simp: console_write_char_def console_backspace_def console_put_char_def Let_def
      intro!: console_frame_refl console_frame_steps
        console_frame_trans [OF _ console_frame_steps(1)] console_frame_trans [OF _ console_frame_steps(2)]
        console_frame_trans [OF _ console_frame_steps(3)])

lemma console_frame_print: "console_frame s (print cs s)"
  by (induction cs arbitrary: s)
    (auto intro: console_frame_refl console_frame_trans [OF console_frame_write_char])

lemma console_frame_println: "console_frame s (println cs s)"
  unfolding println_def by (rule console_frame_trans [OF console_frame_print console_frame_print])

section \<open>The cursor\<close>

definition cursor_ok :: "'a console_st_scheme \<Rightarrow> bool" where
  "cursor_ok s \<longleftrightarrow> unat (curr_x s) < VGA_WIDTH"

text \<open>The cursor as a linear cell index.\<close>

definition cursor_pos :: "'a console_st_scheme \<Rightarrow> nat" where
  "cursor_pos s = unat (curr_y s) * VGA_WIDTH + unat (curr_x s)"

lemma unat_u16_bound [simp]: "unat (w :: u16) < 65536"
  using unsigned_less [of w] by simp

lemma unat_u16_plus1: "unat (w :: u16) < 65535 \<Longrightarrow> unat (w + 1) = Suc (unat w)"
  by (simp add: unat_word_ariths)

lemma unat_u16_minus1: "(w :: u16) \<noteq> 0 \<Longrightarrow> unat (w - 1) = unat w - 1"
  by (rule unat_minus_one)

lemma u16_eq_80_iff: "(w :: u16) = 80 \<longleftrightarrow> unat w = 80"
  by (simp add: word_unat_eq_iff)

lemma cursor_ok_backspace: "cursor_ok s \<Longrightarrow> cursor_ok (console_backspace s)"
  by (auto simp: cursor_ok_def console_backspace_def console_put_char_def Let_def unat_u16_minus1)

lemma cursor_ok_write_char:
  assumes "cursor_ok s"
  shows "cursor_ok (console_write_char c color s)"
proof -
  have x: "unat (curr_x s + 1) = Suc (unat (curr_x s))"
    using assms by (intro unat_u16_plus1) (simp add: cursor_ok_def)
  show ?thesis
    using assms cursor_ok_backspace [OF assms] x
    by (auto simp: console_write_char_def console_put_char_def Let_def cursor_ok_def u16_eq_80_iff)
qed

lemma cursor_ok_print: "cursor_ok s \<Longrightarrow> cursor_ok (print cs s)"
  by (induction cs s rule: print.induct) (auto intro: cursor_ok_write_char)

lemma cursor_ok_println: "cursor_ok s \<Longrightarrow> cursor_ok (println cs s)"
  by (simp add: println_def cursor_ok_print cursor_ok_write_char)

lemma cursor_ok_printn_loop: "cursor_ok s \<Longrightarrow> cursor_ok (printn_loop str i n s)"
proof (induction str i n s rule: printn_loop.induct)
  case (1 str i n s)
  then show ?case
    by (auto simp: printn_loop.simps [of str i n s] intro: cursor_ok_write_char)
qed

lemma cursor_ok_fold_write:
  "cursor_ok s \<Longrightarrow> cursor_ok (fold (\<lambda>j. console_write_char (f j) col) js s)"
  by (induction js arbitrary: s) (auto intro: cursor_ok_write_char)

lemma cursor_ok_print_int: "cursor_ok s \<Longrightarrow> cursor_ok (print_int x s)"
  by (simp add: print_int_def Let_def cursor_ok_print cursor_ok_fold_write)

text \<open>A printable character goes to the cursor's cell and the cursor moves one cell on.\<close>

lemma console_write_char_printable:
  assumes "cursor_ok s" and "unat (curr_y s) < 65535" and "c \<noteq> 10" and "c \<noteq> 8"
  shows "cursor_pos (console_write_char c color s) = Suc (cursor_pos s)"
    and "video_mem (console_write_char c color s) = (video_mem s)(cursor_pos s := make_char c color)"
    and "mem (console_write_char c color s) = mem s"
proof -
  have x: "unat (curr_x s + 1) = Suc (unat (curr_x s))"
    using assms(1) by (intro unat_u16_plus1) (simp add: cursor_ok_def)
  have y: "unat (curr_y s + 1) = Suc (unat (curr_y s))"
    using assms(2) by (rule unat_u16_plus1)
  show "cursor_pos (console_write_char c color s) = Suc (cursor_pos s)"
    using assms(3,4) x y
    by (simp add: console_write_char_def console_put_char_def Let_def cursor_pos_def u16_eq_80_iff)
  show "video_mem (console_write_char c color s) = (video_mem s)(cursor_pos s := make_char c color)"
    using assms(3,4)
    by (simp add: console_write_char_def console_put_char_def Let_def cursor_pos_def)
  show "mem (console_write_char c color s) = mem s"
    using assms(3,4) by (simp add: console_write_char_def console_put_char_def Let_def)
qed

lemma curr_y_write_char:
  "unat (curr_y s) + k < 65536 \<Longrightarrow> 0 < k \<Longrightarrow>
     unat (curr_y (console_write_char c color s)) \<le> unat (curr_y s) + 1"
  by (auto simp: console_write_char_def console_put_char_def console_backspace_def Let_def
      unat_u16_plus1 unat_u16_minus1)

text \<open>A character followed by a backspace leaves the cursor where it was and the cell blank.\<close>

lemma write_char_backspace:
  assumes "cursor_ok s" and "unat (curr_y s) < 65535" and "c \<noteq> 10" and "c \<noteq> 8"
  shows "cursor_pos (console_write_char 8 15 (console_write_char c 15 s)) = cursor_pos s"
    and "video_mem (console_write_char 8 15 (console_write_char c 15 s)) =
           (video_mem s)(cursor_pos s := make_char 32 0)"
proof -
  have x: "unat (curr_x s + 1) = Suc (unat (curr_x s))"
    using assms(1) by (intro unat_u16_plus1) (simp add: cursor_ok_def)
  have y: "unat (curr_y s + 1) = Suc (unat (curr_y s))"
    using assms(2) by (rule unat_u16_plus1)
  have x1: "curr_x s + 1 \<noteq> 0" using x by (metis nat.distinct(1) unsigned_0)
  have y1: "curr_y s + 1 \<noteq> 0" using y by (metis nat.distinct(1) unsigned_0)
  show "cursor_pos (console_write_char 8 15 (console_write_char c 15 s)) = cursor_pos s"
    using assms(3,4) x x1 y1 assms(1)
    by (auto simp: console_write_char_def console_put_char_def console_backspace_def Let_def
        cursor_pos_def u16_eq_80_iff)
  show "video_mem (console_write_char 8 15 (console_write_char c 15 s)) =
           (video_mem s)(cursor_pos s := make_char 32 0)"
    using assms(3,4) x x1 y1 assms(1)
    by (auto simp: console_write_char_def console_put_char_def console_backspace_def Let_def
        cursor_pos_def u16_eq_80_iff)
qed

section \<open>Printing a text\<close>

definition printable :: "u8 \<Rightarrow> bool" where
  "printable c \<longleftrightarrow> c \<noteq> 0 \<and> c \<noteq> 10 \<and> c \<noteq> 8"

text \<open>The cells a text occupies when it starts at cell \<open>p\<close>.\<close>

fun put_text :: "u8 list \<Rightarrow> nat \<Rightarrow> (nat \<Rightarrow> u16) \<Rightarrow> nat \<Rightarrow> u16" where
  "put_text [] p v = v"
| "put_text (c # cs) p v = put_text cs (Suc p) (v(p := make_char c 15))"

lemma print_text:
  assumes "cursor_ok s" and "unat (curr_y s) + length cs < 65536" and "list_all printable cs"
  shows "cursor_pos (print cs s) = cursor_pos s + length cs \<and>
         video_mem (print cs s) = put_text cs (cursor_pos s) (video_mem s) \<and>
         mem (print cs s) = mem s"
  using assms
proof (induction cs arbitrary: s)
  case Nil
  then show ?case by simp
next
  case (Cons c cs)
  let ?s = "console_write_char c 15 s"
  have c: "c \<noteq> 0" "c \<noteq> 10" "c \<noteq> 8" using Cons.prems by (auto simp: printable_def)
  have y: "unat (curr_y s) < 65535" using Cons.prems(2) by simp
  have "unat (curr_y ?s) \<le> unat (curr_y s) + 1"
    using Cons.prems(2) by (intro curr_y_write_char [of _ 1]) auto
  then have "unat (curr_y ?s) + length cs < 65536" using Cons.prems(2) by simp
  moreover have "cursor_ok ?s" using Cons.prems(1) by (rule cursor_ok_write_char)
  ultimately have "cursor_pos (print cs ?s) = cursor_pos ?s + length cs \<and>
      video_mem (print cs ?s) = put_text cs (cursor_pos ?s) (video_mem ?s) \<and>
      mem (print cs ?s) = mem ?s"
    using Cons.prems(3) by (intro Cons.IH) auto
  then show ?case
    using c console_write_char_printable [OF Cons.prems(1) y c(2,3), of 15] by simp
qed

lemma fold_write_eq_print:
  "list_all (\<lambda>j. f j \<noteq> 0) js \<Longrightarrow>
     fold (\<lambda>j. console_write_char (f j) 15) js s = print (map f js) s"
  by (induction js arbitrary: s) auto

text \<open>The text \<^verbatim>\<open>print_int\<close> writes.\<close>

definition int_text :: "int \<Rightarrow> u8 list" where
  "int_text x = (if x < 0 then [45] else []) @ (if x = 0 then [48] else decimal_digits \<bar>x\<bar>)"

lemma map_nth_rev_upt: "map (\<lambda>j. xs ! j) (rev [0..<length xs]) = rev xs"
  by (simp add: rev_map [symmetric] map_nth)

lemma print_append: "list_all (\<lambda>c. c \<noteq> 0) cs \<Longrightarrow> print (cs @ ds) s = print ds (print cs s)"
  by (induction cs arbitrary: s) auto

lemma lit_minus: "lit ''-'' = [45]" and lit_zero: "lit ''0'' = [48]"
  by (simp_all add: lit_def)

lemma digit_buf_nonzero: "list_all (\<lambda>j. digit_buf n x ! j \<noteq> 0) (rev [0..<n])"
proof -
  have "digit_buf n x ! j \<noteq> 0" if "j < n" for j
    using digit_buf_range [of "digit_buf n x ! j" n x] that by (auto simp: nth_mem)
  then show ?thesis by (simp add: list_all_iff)
qed

lemma print_int_eq:
  assumes "int32 x" and "x \<noteq> - (2 ^ 31)"
  shows "print_int x s = print (int_text x) s"
proof -
  have digits: "fold (\<lambda>j. console_write_char (digit_buf (count_digits v) v ! j) 15)
      (rev [0..<count_digits v]) t = print (decimal_digits v) t" for v and t :: "'a console_st_scheme"
    using fold_write_eq_print [OF digit_buf_nonzero, of "count_digits v" v t]
      map_nth_rev_upt [of "digit_buf (count_digits v) v"]
    by (simp add: decimal_digits_def)
  have zero: "count_digits v = 0 \<longleftrightarrow> v \<le> 0" for v
    by (simp add: count_digits.simps [of v])
  show ?thesis
    using neg32_eq [OF assms]
    by (cases "x < 0"; cases "x = 0")
       (auto simp: print_int_def Let_def int_text_def digits zero lit_minus lit_zero)
qed

section \<open>Clearing the screen\<close>

lemma fold_row: "fold (\<lambda>x v. v(b + x := c)) [0..<n] v = (\<lambda>i. if b \<le> i \<and> i < b + n then c else v i)"
  by (induction n) (auto simp: fun_eq_iff)

lemma fold_rows:
  "fold (\<lambda>y. fold (\<lambda>x v. v(80 * y + x := c)) [0..<80]) [0..<n] v = (\<lambda>i. if i < 80 * n then c else v i)"
proof (induction n)
  case 0
  then show ?case by simp
next
  case (Suc n)
  then show ?case by (simp add: fold_row fun_eq_iff del: fun_upd_apply)
qed

lemma blank_screen_eq:
  "blank_screen v = (\<lambda>i. if i < VGA_WIDTH * VGA_HEIGHT then make_char 32 0 else v i)"
  using fold_rows [of "make_char 32 0" 20 v] by (simp add: blank_screen_def)

section \<open>Properties\<close>

lemma printable_int_text: "list_all printable (int_text x)"
proof -
  have "c \<noteq> 0 \<and> c \<noteq> 10 \<and> c \<noteq> 8" if "c \<in> set (decimal_digits \<bar>x\<bar>)" for c
    using decimal_digits_range [OF that] by auto
  then show ?thesis by (auto simp: int_text_def list_all_iff printable_def)
qed

lemma length_int_text: "int32 x \<Longrightarrow> x \<noteq> - (2 ^ 31) \<Longrightarrow> length (int_text x) \<le> 11"
  using num_digits_le_10 [of "\<bar>x\<bar>"] by (auto simp: int_text_def length_decimal_digits int32_def)



text \<open>A printable character followed by a backspace leaves the cursor in the cell it came from,
  also across the end of a line, and that cell blank; no other cell changes.\<close>

lemma backspace_undoes:
  assumes "cursor_ok s" and "unat (curr_y s) < 65535" and "c \<noteq> 10" and "c \<noteq> 8"
  shows "cursor_pos (console_write_char 8 15 (console_write_char c 15 s)) = cursor_pos s \<and>
         video_mem (console_write_char 8 15 (console_write_char c 15 s)) =
           (video_mem s)(cursor_pos s := make_char 32 0) \<and>
         cursor_ok (console_write_char 8 15 (console_write_char c 15 s))"
  using write_char_backspace [OF assms] cursor_ok_write_char [OF cursor_ok_write_char [OF assms(1)]] by blast

lemma backspace_undoes_witness:
  "cursor_pos (console_write_char 8 15 (console_write_char 65 15
      \<lparr>mem = (\<lambda>_. 0), video_mem = (\<lambda>_. 0), curr_y = 3, curr_x = 79\<rparr>)) = 319"
  using backspace_undoes [of "\<lparr>mem = (\<lambda>_. 0), video_mem = (\<lambda>_. 0), curr_y = 3, curr_x = 79\<rparr>" 65]
  by (simp add: cursor_ok_def cursor_pos_def)

end
