(* ===== verification/Kheap.thy ===== *)
theory Kheap
  imports KMemory Console
begin

text \<open>
  The kernel heap of \<^verbatim>\<open>src/src/memory/heap/kheap.c\<close>: a first-fit allocator of 4 KB blocks
  whose only book-keeping is a table with one byte per block. The state keeps the table as a
  function on indices (entry \<open>i\<close> is the byte at \<^verbatim>\<open>KHEAP_TABLE_ADDR + i\<close>), total because the C
  code does not bound its accesses: an index past \<^verbatim>\<open>num_entries\<close> reads the memory behind the
  table. The theory \<open>Kheap_Props\<close> holds the facts about these operations.
\<close>

section \<open>Constants and state\<close>

definition KHEAP_BLOCK_SIZE :: u32 where [simp]: "KHEAP_BLOCK_SIZE = 4096"
definition KERNEL_HEAP_SIZE_BYTES :: u32 where [simp]: "KERNEL_HEAP_SIZE_BYTES = 104857600"
definition KHEAP_ADDR :: addr where [simp]: "KHEAP_ADDR = 0x01000000"
definition KHEAP_TABLE_ADDR :: addr where [simp]: "KHEAP_TABLE_ADDR = 0x00007E00"
definition KHEAP_BLOCK_TABLE_ENTRY_TAKEN :: u8 where [simp]: "KHEAP_BLOCK_TABLE_ENTRY_TAKEN = 0x01"
definition KHEAP_BLOCK_TABLE_ENTRY_FREE :: u8 where [simp]: "KHEAP_BLOCK_TABLE_ENTRY_FREE = 0x00"
definition KHEAP_BLOCK_HAS_NEXT :: u8 where [simp]: "KHEAP_BLOCK_HAS_NEXT = 0x80"
definition KHEAP_BLOCK_IS_FIRST :: u8 where [simp]: "KHEAP_BLOCK_IS_FIRST = 0x40"

record kheap_st = console_st +
  entries :: "nat \<Rightarrow> u8"
  num_entries :: u32
  kheap_physical_start_addr :: addr

section \<open>Initialisation\<close>

definition validate_ptr_alignment :: "addr \<Rightarrow> bool" where
  "validate_ptr_alignment ptr \<longleftrightarrow> ptr mod KHEAP_BLOCK_SIZE = 0"

definition validate_kheap_table :: "addr \<Rightarrow> addr \<Rightarrow> u32 \<Rightarrow> bool" where
  "validate_kheap_table kheap_start kheap_end num =
     (let table_size = kheap_end - kheap_start;
          total_blocks = table_size div KHEAP_BLOCK_SIZE
      in if num \<noteq> total_blocks then False else True)"

definition kheap_create ::
    "addr \<Rightarrow> addr \<Rightarrow> u32 \<Rightarrow> 'a kheap_st_scheme \<Rightarrow> int \<times> 'a kheap_st_scheme" where
  "kheap_create start_addr end_addr num s =
     (if \<not> validate_ptr_alignment start_addr \<or> \<not> validate_ptr_alignment end_addr
      then (- STATUS_INVALID_ARG, s)
      else let s = s\<lparr>kheap_physical_start_addr := start_addr, num_entries := num\<rparr>
           in if \<not> validate_kheap_table start_addr end_addr num
              then (- STATUS_INVALID_ARG, s)
              else (STATUS_OK, s\<lparr>entries := (\<lambda>i. if i < unat num
                                   then KHEAP_BLOCK_TABLE_ENTRY_FREE else entries s i)\<rparr>))"

definition kheap_init :: "'a kheap_st_scheme \<Rightarrow> int \<times> 'a kheap_st_scheme" where
  "kheap_init s =
     (let total_table_entries = KERNEL_HEAP_SIZE_BYTES div KHEAP_BLOCK_SIZE;
          kheap_end = KHEAP_ADDR + KERNEL_HEAP_SIZE_BYTES;
          (res, s) = kheap_create KHEAP_ADDR kheap_end total_table_entries s
      in if res < 0 then (- STATUS_GENERIC_ERROR, print (lit ''error while creating kheap'' @ [10]) s)
         else (STATUS_OK, s))"

section \<open>Allocation\<close>

definition get_kheap_entry_type :: "u8 \<Rightarrow> u8" where
  "get_kheap_entry_type entry = entry AND 0x0f"

definition kheap_block_to_addr :: "'a kheap_st_scheme \<Rightarrow> nat \<Rightarrow> addr" where
  "kheap_block_to_addr s block_index =
     kheap_physical_start_addr s + of_nat block_index * KHEAP_BLOCK_SIZE"

definition kheap_addr_to_block_index :: "'a kheap_st_scheme \<Rightarrow> addr \<Rightarrow> u32" where
  "kheap_addr_to_block_index s a = (a - kheap_physical_start_addr s) div KHEAP_BLOCK_SIZE"

text \<open>The inner loop over \<open>j\<close>: the first index from \<open>j\<close> on that is not free, at most \<open>stop\<close>.\<close>

function kmalloc_run :: "(nat \<Rightarrow> u8) \<Rightarrow> nat \<Rightarrow> nat \<Rightarrow> nat" where
  "kmalloc_run es j stop =
     (if j < stop
      then if get_kheap_entry_type (es j) \<noteq> KHEAP_BLOCK_TABLE_ENTRY_FREE then j
           else kmalloc_run es (Suc j) stop
      else j)"
  by pat_completeness auto
termination
  by (relation "measure (\<lambda>(es, j, stop). stop - j)") auto

declare kmalloc_run.simps [simp del]

text \<open>The outer loop over \<open>i\<close>: the first block of the allocation, or \<open>None\<close> when not \<^verbatim>\<open>found\<close>.\<close>

function kmalloc_search :: "(nat \<Rightarrow> u8) \<Rightarrow> nat \<Rightarrow> nat \<Rightarrow> nat \<Rightarrow> nat option" where
  "kmalloc_search es num num_blocks i =
     (if i < num
      then if get_kheap_entry_type (es i) = KHEAP_BLOCK_TABLE_ENTRY_FREE
           then let j = kmalloc_run es i (i + num_blocks)
                in if j = i + num_blocks then Some i
                   else kmalloc_search es num num_blocks (Suc i)
           else kmalloc_search es num num_blocks (Suc i)
      else None)"
  by pat_completeness auto
termination
  by (relation "measure (\<lambda>(es, num, num_blocks, i). num - i)") auto

declare kmalloc_search.simps [simp del]

text \<open>Marking the blocks after the first one, from index \<open>i\<close> up to \<^verbatim>\<open>end_block\<close> inclusive.\<close>

function kmalloc_mark :: "(nat \<Rightarrow> u8) \<Rightarrow> nat \<Rightarrow> int \<Rightarrow> nat \<Rightarrow> u8" where
  "kmalloc_mark es i end_block =
     (if int i \<le> end_block
      then let entry = KHEAP_BLOCK_TABLE_ENTRY_TAKEN;
               entry = (if int i < end_block then entry OR KHEAP_BLOCK_HAS_NEXT else entry)
           in kmalloc_mark (es(i := entry)) (Suc i) end_block
      else es)"
  by pat_completeness auto
termination
  by (relation "measure (\<lambda>(es, i, e). nat (e + 1 - int i))") auto

declare kmalloc_mark.simps [simp del]

definition kmalloc :: "u32 \<Rightarrow> 'a kheap_st_scheme \<Rightarrow> addr \<times> 'a kheap_st_scheme" where
  "kmalloc sz s =
     (let num_blocks = unat ((sz + KHEAP_BLOCK_SIZE - 1) div KHEAP_BLOCK_SIZE)
      in case kmalloc_search (entries s) (unat (num_entries s)) num_blocks 0 of
           None \<Rightarrow> (0, print (lit ''kheap: out of memory'' @ [10]) s)
         | Some first_alloc_block \<Rightarrow>
             let end_block = int first_alloc_block + int num_blocks - 1;
                 entry = KHEAP_BLOCK_TABLE_ENTRY_TAKEN OR KHEAP_BLOCK_IS_FIRST;
                 entry = (if num_blocks > 1 then entry OR KHEAP_BLOCK_HAS_NEXT else entry);
                 es = (entries s)(first_alloc_block := entry);
                 es = kmalloc_mark es (Suc first_alloc_block) end_block
             in (kheap_block_to_addr s first_alloc_block, s\<lparr>entries := es\<rparr>))"

function kfree_loop :: "(nat \<Rightarrow> u8) \<Rightarrow> nat \<Rightarrow> nat \<Rightarrow> nat \<Rightarrow> u8" where
  "kfree_loop es i num =
     (if i < num
      then let entry = es i; es = es(i := KHEAP_BLOCK_TABLE_ENTRY_FREE)
           in if entry AND KHEAP_BLOCK_HAS_NEXT = 0 then es else kfree_loop es (Suc i) num
      else es)"
  by pat_completeness auto
termination
  by (relation "measure (\<lambda>(es, i, num). num - i)") auto

declare kfree_loop.simps [simp del]

definition kfree :: "addr \<Rightarrow> 'a kheap_st_scheme \<Rightarrow> int \<times> 'a kheap_st_scheme" where
  "kfree ptr s =
     (let start_block = kheap_addr_to_block_index s ptr
      in (0, s\<lparr>entries := kfree_loop (entries s) (unat start_block) (unat (num_entries s))\<rparr>))"

text \<open>\<^verbatim>\<open>kzalloc\<close> does not test the pointer: when \<^verbatim>\<open>kmalloc\<close> fails, the block at address 0 is cleared.\<close>

definition kzalloc :: "u32 \<Rightarrow> 'a kheap_st_scheme \<Rightarrow> addr \<times> 'a kheap_st_scheme" where
  "kzalloc sz s =
     (let (ptr, s) = kmalloc sz s
      in (ptr, s\<lparr>mem := snd (memset (mem s) ptr 0 sz)\<rparr>))"

definition kheap_num_free_blocks :: "'a kheap_st_scheme \<Rightarrow> nat" where
  "kheap_num_free_blocks s =
     fold (\<lambda>i num_free. if get_kheap_entry_type (entries s i) = KHEAP_BLOCK_TABLE_ENTRY_FREE
                        then Suc num_free else num_free) [0..<unat (num_entries s)] 0"

end
