(* ===== verification/Kheap_Props.thy ===== *)
theory Kheap_Props
  imports Kheap
begin

text \<open>
  Correctness of the kernel heap: what the search, marking and release loops compute, the regions
  the table describes and why they cannot overlap, the heap invariant \<open>kheap_ok\<close> and its
  preservation, the live allocations, and the interface \<open>block_allocator\<close> that the clients of
  \<^verbatim>\<open>kzalloc\<close> and \<^verbatim>\<open>kfree\<close> rely on, with its interpretation on the model.
\<close>

section \<open>What the loops compute\<close>

abbreviation is_free :: "u8 \<Rightarrow> bool" where
  "is_free e \<equiv> get_kheap_entry_type e = 0"

text \<open>A run of free entries that satisfies a request for \<open>n\<close> blocks. At least one entry is tested
  even for \<open>n = 0\<close>, and one block is then taken.\<close>

definition free_run :: "(nat \<Rightarrow> u8) \<Rightarrow> nat \<Rightarrow> nat \<Rightarrow> bool" where
  "free_run es b n \<longleftrightarrow> (\<forall>j < max 1 n. is_free (es (b + j)))"

lemma kmalloc_run_eq_stop:
  "j \<le> stop \<Longrightarrow> kmalloc_run es j stop = stop \<longleftrightarrow> (\<forall>k. j \<le> k \<and> k < stop \<longrightarrow> is_free (es k))"
proof (induction es j stop rule: kmalloc_run.induct)
  case (1 es j stop)
  show ?case
  proof (cases "j < stop \<and> is_free (es j)")
    case True
    then have "kmalloc_run es (Suc j) stop = stop \<longleftrightarrow>
        (\<forall>k. Suc j \<le> k \<and> k < stop \<longrightarrow> is_free (es k))"
      by (intro "1.IH") auto
    moreover have "Suc j \<le> k \<longleftrightarrow> j \<le> k \<and> k \<noteq> j" for k by auto
    ultimately show ?thesis
      using True unfolding kmalloc_run.simps [of es j stop] by simp metis
  next
    case False
    with "1.prems" show ?thesis
      by (auto simp: kmalloc_run.simps [of es j stop])
  qed
qed

lemma free_run_iff:
  "free_run es i n \<longleftrightarrow> is_free (es i) \<and> kmalloc_run es i (i + n) = i + n"
proof
  assume run: "free_run es i n"
  have "is_free (es k)" if "i \<le> k" "k < i + n" for k
  proof -
    have "k - i < max 1 n" using that by linarith
    with run have "is_free (es (i + (k - i)))" by (simp only: free_run_def)
    with that show ?thesis by simp
  qed
  moreover have "is_free (es i)" using run by (auto simp: free_run_def dest: spec [of _ 0])
  ultimately show "is_free (es i) \<and> kmalloc_run es i (i + n) = i + n"
    by (simp add: kmalloc_run_eq_stop)
next
  assume "is_free (es i) \<and> kmalloc_run es i (i + n) = i + n"
  then have fi: "is_free (es i)" and fk: "\<forall>k. i \<le> k \<and> k < i + n \<longrightarrow> is_free (es k)"
    by (simp_all add: kmalloc_run_eq_stop)
  show "free_run es i n"
    unfolding free_run_def
  proof (intro allI impI)
    fix j assume "j < max 1 n"
    then show "is_free (es (i + j))" using fi fk by (cases "j = 0") auto
  qed
qed

lemma kmalloc_search_step:
  "kmalloc_search es num n i =
     (if i < num then if free_run es i n then Some i else kmalloc_search es num n (Suc i) else None)"
  by (simp add: kmalloc_search.simps [of es num n i] free_run_iff Let_def)

lemma kmalloc_search_Some:
  "kmalloc_search es num n i = Some b \<longleftrightarrow>
     i \<le> b \<and> b < num \<and> free_run es b n \<and> (\<forall>k. i \<le> k \<and> k < b \<longrightarrow> \<not> free_run es k n)"
proof (induction "num - i" arbitrary: i)
  case 0
  then show ?case by (auto simp: kmalloc_search_step [of es num n i])
next
  case (Suc d)
  then have lt: "i < num" by simp
  show ?case
  proof (cases "free_run es i n")
    case True
    with lt show ?thesis
      by (auto simp: kmalloc_search_step [of es num n i] le_less)
  next
    case False
    have "kmalloc_search es num n i = kmalloc_search es num n (Suc i)"
      using lt False by (simp add: kmalloc_search_step [of es num n i])
    also have "\<dots> = Some b \<longleftrightarrow> Suc i \<le> b \<and> b < num \<and> free_run es b n \<and>
        (\<forall>k. Suc i \<le> k \<and> k < b \<longrightarrow> \<not> free_run es k n)"
      by (rule Suc.hyps(1)) (use Suc.hyps(2) in simp)
    also have "\<dots> \<longleftrightarrow> i \<le> b \<and> b < num \<and> free_run es b n \<and>
        (\<forall>k. i \<le> k \<and> k < b \<longrightarrow> \<not> free_run es k n)"
    proof -
      have "Suc i \<le> k \<longleftrightarrow> i \<le> k \<and> k \<noteq> i" for k by auto
      with False show ?thesis by metis
    qed
    finally show ?thesis .
  qed
qed

lemma kmalloc_search_None:
  "kmalloc_search es num n i = None \<longleftrightarrow> (\<forall>k. i \<le> k \<and> k < num \<longrightarrow> \<not> free_run es k n)"
proof
  assume none: "kmalloc_search es num n i = None"
  show "\<forall>k. i \<le> k \<and> k < num \<longrightarrow> \<not> free_run es k n"
  proof (rule ccontr)
    let ?P = "\<lambda>b. i \<le> b \<and> b < num \<and> free_run es b n"
    assume "\<not> (\<forall>k. i \<le> k \<and> k < num \<longrightarrow> \<not> free_run es k n)"
    then obtain k where "?P k" by blast
    then have b: "?P (LEAST b. ?P b)" by (rule LeastI)
    have "\<not> free_run es j n" if "i \<le> j" "j < (LEAST b. ?P b)" for j
      using not_less_Least [OF that(2)] that b by auto
    with b have "kmalloc_search es num n i = Some (LEAST b. ?P b)"
      by (simp add: kmalloc_search_Some)
    with none show False by simp
  qed
next
  assume "\<forall>k. i \<le> k \<and> k < num \<longrightarrow> \<not> free_run es k n"
  then show "kmalloc_search es num n i = None"
    using kmalloc_search_Some [of es num n i] by (cases "kmalloc_search es num n i") auto
qed

text \<open>The table entry of block \<open>j\<close> of an allocation of \<open>k\<close> blocks.\<close>

definition block_entry :: "nat \<Rightarrow> nat \<Rightarrow> u8" where
  "block_entry k j =
     (if j = 0 then (if 1 < k then 0xC1 else 0x41) else (if Suc j < k then 0x81 else 0x01))"

lemma kmalloc_mark_eq:
  "i \<le> b + n \<Longrightarrow> 0 < n \<Longrightarrow> b < i \<Longrightarrow>
   kmalloc_mark es i (int b + int n - 1) =
     (\<lambda>x. if i \<le> x \<and> x < b + n then block_entry n (x - b) else es x)"
proof (induction es i "int b + int n - 1" rule: kmalloc_mark.induct)
  case (1 es i)
  show ?case
  proof (cases "i < b + n")
    case True
    then have le: "int i \<le> int b + int n - 1" by simp
    let ?e = "if int i < int b + int n - 1
      then KHEAP_BLOCK_TABLE_ENTRY_TAKEN OR KHEAP_BLOCK_HAS_NEXT else KHEAP_BLOCK_TABLE_ENTRY_TAKEN"
    have e: "?e = block_entry n (i - b)"
      using True "1.prems" by (auto simp: block_entry_def)
    have unf: "kmalloc_mark es i (int b + int n - 1) =
        kmalloc_mark (es(i := ?e)) (Suc i) (int b + int n - 1)"
      using le by (simp only: kmalloc_mark.simps [of es i] Let_def if_True)
    have "kmalloc_mark (es(i := ?e)) (Suc i) (int b + int n - 1) =
      (\<lambda>x. if Suc i \<le> x \<and> x < b + n then block_entry n (x - b) else (es(i := ?e)) x)"
      by (rule "1.hyps" [OF le refl refl]) (use True "1.prems" in auto)
    with True show ?thesis unfolding unf e by (auto simp: fun_eq_iff)
  next
    case False
    then have "kmalloc_mark es i (int b + int n - 1) = es"
      by (simp add: kmalloc_mark.simps [of es i])
    with False show ?thesis by (auto simp: fun_eq_iff)
  qed
qed

text \<open>The table after allocating the run of \<open>n\<close> blocks at \<open>b\<close>.\<close>

definition mark_region :: "(nat \<Rightarrow> u8) \<Rightarrow> nat \<Rightarrow> nat \<Rightarrow> nat \<Rightarrow> u8" where
  "mark_region es b k = (\<lambda>x. if b \<le> x \<and> x < b + k then block_entry k (x - b) else es x)"

lemma mark_all_eq:
  "kmalloc_mark (es(b := (if n > 1 then 0xC1 else 0x41))) (Suc b) (int b + int n - 1) =
     mark_region es b (max 1 n)"
proof (cases "n = 0")
  case True
  then have "kmalloc_mark es' (Suc b) (int b + int n - 1) = es'" for es'
    by (simp add: kmalloc_mark.simps [of es' "Suc b"])
  with True show ?thesis
    by (auto simp: mark_region_def block_entry_def fun_eq_iff)
next
  case False
  then have "kmalloc_mark (es(b := (if n > 1 then 0xC1 else 0x41))) (Suc b) (int b + int n - 1) =
     (\<lambda>x. if Suc b \<le> x \<and> x < b + n then block_entry n (x - b)
          else (es(b := (if n > 1 then 0xC1 else 0x41))) x)"
    by (intro kmalloc_mark_eq) auto
  with False show ?thesis
    by (auto simp: mark_region_def block_entry_def fun_eq_iff max_def)
qed

text \<open>The number of blocks a request takes: the size rounded up, computed modulo \<open>2 ^ 32\<close>.\<close>

definition blocks_of :: "u32 \<Rightarrow> nat" where
  "blocks_of sz = unat ((sz + KHEAP_BLOCK_SIZE - 1) div KHEAP_BLOCK_SIZE)"

lemma kmalloc_eq:
  "kmalloc sz s =
     (case kmalloc_search (entries s) (unat (num_entries s)) (blocks_of sz) 0 of
        None \<Rightarrow> (0, print (lit ''kheap: out of memory'' @ [10]) s)
      | Some b \<Rightarrow> (kheap_block_to_addr s b,
                  s\<lparr>entries := mark_region (entries s) b (max 1 (blocks_of sz))\<rparr>))"
proof (cases "kmalloc_search (entries s) (unat (num_entries s)) (blocks_of sz) 0")
  case None
  then show ?thesis
    unfolding kmalloc_def blocks_of_def [symmetric] Let_def by simp
next
  case (Some b)
  then show ?thesis
    unfolding kmalloc_def blocks_of_def [symmetric] Let_def
    using mark_all_eq [of "entries s" b "blocks_of sz"]
    by (cases "1 < blocks_of sz") simp_all
qed

lemma blocks_of_alt: "blocks_of sz = unat (sz + 4095) div 4096"
proof -
  have "sz + KHEAP_BLOCK_SIZE - 1 = sz + 4095" by simp
  moreover have "unat ((sz + 4095) div 4096) = unat (sz + 4095) div 4096"
    by (subst unat_div) simp
  ultimately show ?thesis by (simp only: blocks_of_def KHEAP_BLOCK_SIZE_def)
qed

lemma blocks_of_eq:
  assumes "unat sz \<le> 2 ^ 32 - 4096"
  shows "blocks_of sz = (unat sz + 4095) div 4096"
proof -
  have "unat (sz + of_nat 4095) = unat sz + 4095"
    using assms by (intro unat_add_small) simp
  then show ?thesis by (simp add: blocks_of_alt)
qed

lemma blocks_of_wrap:
  assumes "2 ^ 32 - 4096 < unat sz"
  shows "blocks_of sz = 0"
proof -
  have "unat (sz + 4095) = (unat sz + 4095) mod 4294967296"
    by (simp add: unat_word_ariths)
  also have "\<dots> = (unat sz + 4095 - 4294967296) mod 4294967296"
    by (rule le_mod_geq) (use assms in simp)
  also have "\<dots> = unat sz + 4095 - 4294967296"
    by (rule mod_less) (use unat_u32_bound [of sz] in linarith)
  finally have "unat (sz + 4095) < 4096" using unat_u32_bound [of sz] by linarith
  then show ?thesis by (simp add: blocks_of_alt)
qed

section \<open>Allocated regions\<close>

text \<open>\<open>region es b k\<close>: the table records an allocation of the \<open>k\<close> blocks from \<open>b\<close> on.\<close>

definition region :: "(nat \<Rightarrow> u8) \<Rightarrow> nat \<Rightarrow> nat \<Rightarrow> bool" where
  "region es b k \<longleftrightarrow> 0 < k \<and> (\<forall>j < k. es (b + j) = block_entry k j)"

lemma block_entry_not_free: "\<not> is_free (block_entry k j)"
  by (simp add: block_entry_def get_kheap_entry_type_def)

lemma block_entry_has_next: "j < k \<Longrightarrow> block_entry k j AND 0x80 \<noteq> 0 \<longleftrightarrow> Suc j < k"
  by (auto simp: block_entry_def)

lemma block_entry_is_first: "block_entry k j AND 0x40 \<noteq> 0 \<longleftrightarrow> j = 0"
  by (simp add: block_entry_def)

lemma region_mark: "0 < k \<Longrightarrow> region (mark_region es b k) b k"
  by (auto simp: region_def mark_region_def)

lemma region_entry: "region es b k \<Longrightarrow> b \<le> x \<Longrightarrow> x < b + k \<Longrightarrow> es x = block_entry k (x - b)"
  unfolding region_def by (metis le_add_diff_inverse less_diff_conv2 add.commute)

text \<open>The flags alone keep regions apart: two regions that share a block are the same.\<close>

lemma region_start_unique:
  assumes "region es b k" and "region es b' k'" and "b \<le> x" and "x < b + k"
    and "b' \<le> x" and "x < b' + k'"
  shows "b = b'"
proof (rule ccontr)
  assume "b \<noteq> b'"
  then consider "b < b'" | "b' < b" by linarith
  then show False
  proof cases
    case 1
    have "es b' = block_entry k (b' - b)"
      using assms 1 by (intro region_entry) auto
    moreover have "es b' = block_entry k' 0"
      using region_entry [OF assms(2), of b'] assms by simp
    ultimately show False
      using 1 block_entry_is_first [of k "b' - b"] block_entry_is_first [of k' 0] by simp
  next
    case 2
    have "es b = block_entry k' (b - b')"
      using assms 2 by (intro region_entry) auto
    moreover have "es b = block_entry k 0"
      using region_entry [OF assms(1), of b] assms by simp
    ultimately show False
      using 2 block_entry_is_first [of k' "b - b'"] block_entry_is_first [of k 0] by simp
  qed
qed

lemma region_length_unique:
  assumes "region es b k" and "region es b k'"
  shows "k = k'"
proof -
  have le: "k' \<le> k" if "region es b k" "region es b k'" for k k'
  proof (rule ccontr)
    assume "\<not> k' \<le> k"
    moreover have "0 < k" using that by (simp add: region_def)
    ultimately have "block_entry k (k - 1) = block_entry k' (k - 1)"
      using that unfolding region_def
      by (metis diff_less less_numeral_extra(1) not_le order_less_trans)
    moreover have "block_entry k' (k - 1) AND 0x80 \<noteq> 0"
      using \<open>\<not> k' \<le> k\<close> \<open>0 < k\<close> by (subst block_entry_has_next) auto
    moreover have "\<not> block_entry k (k - 1) AND 0x80 \<noteq> 0"
      using \<open>0 < k\<close> by (subst block_entry_has_next) auto
    ultimately show False by simp
  qed
  show ?thesis using le [OF assms] le [OF assms(2,1)] by simp
qed

lemma regions_disjoint:
  assumes "region es b k" and "region es b' k'" and "(b, k) \<noteq> (b', k')"
  shows "b + k \<le> b' \<or> b' + k' \<le> b"
proof (rule ccontr)
  assume "\<not> ?thesis"
  then have lt: "b' < b + k" "b < b' + k'" by auto
  have "b = b'"
    using region_start_unique [OF assms(1,2), of "max b b'"] lt assms(1,2)
    by (auto simp: region_def)
  with assms region_length_unique show False by blast
qed

lemma mark_region_keeps:
  assumes "region es b' k'" and "\<forall>j < k. is_free (es (b + j))"
  shows "region (mark_region es b k) b' k'"
proof -
  have "mark_region es b k (b' + j) = es (b' + j)" if "j < k'" for j
  proof (rule ccontr)
    assume "\<not> ?thesis"
    then have "b \<le> b' + j" "b' + j < b + k" by (auto simp: mark_region_def split: if_splits)
    then obtain i where "i < k" "b' + j = b + i" by (metis add_less_cancel_left le_Suc_ex)
    with assms(2) have "is_free (es (b' + j))" by simp
    moreover have "es (b' + j) = block_entry k' j"
      using assms(1) that by (simp add: region_def)
    ultimately show False by (simp add: block_entry_not_free)
  qed
  with assms(1) show ?thesis by (simp add: region_def)
qed

text \<open>Freeing a region clears exactly its entries.\<close>

definition clear_region :: "(nat \<Rightarrow> u8) \<Rightarrow> nat \<Rightarrow> nat \<Rightarrow> nat \<Rightarrow> u8" where
  "clear_region es b k = (\<lambda>x. if b \<le> x \<and> x < b + k then 0 else es x)"

lemma kfree_loop_region:
  assumes "region es b k" and "b + k \<le> num" and "i < k"
  shows "kfree_loop (clear_region es b i) (b + i) num = clear_region es b k"
  using assms(3)
proof (induction "k - i" arbitrary: i)
  case 0
  then show ?case by simp
next
  case (Suc d)
  let ?es = "clear_region es b i"
  have entry: "?es (b + i) = block_entry k i"
    using assms(1) Suc.prems by (simp add: clear_region_def region_def)
  have upd: "?es(b + i := 0) = clear_region es b (Suc i)"
    by (auto simp: clear_region_def fun_eq_iff)
  have lt: "b + i < num" using assms(2) Suc.prems by simp
  show ?case
  proof (cases "Suc i < k")
    case True
    then have "?es (b + i) AND 0x80 \<noteq> 0"
      using entry Suc.prems by (simp add: block_entry_has_next)
    then have "kfree_loop ?es (b + i) num = kfree_loop (clear_region es b (Suc i)) (b + Suc i) num"
      using lt upd by (simp add: kfree_loop.simps [of ?es "b + i" num] Let_def)
    also have "\<dots> = clear_region es b k"
      using True Suc.hyps(2) by (intro Suc.hyps(1)) auto
    finally show ?thesis .
  next
    case False
    then have k: "k = Suc i" using Suc.prems by simp
    then have "?es (b + i) AND 0x80 = 0"
      using entry block_entry_has_next [of i k] by simp
    then show ?thesis
      using lt upd k by (simp add: kfree_loop.simps [of ?es "b + i" num] Let_def)
  qed
qed

lemma kfree_loop_clears:
  assumes "region es b k" and "b + k \<le> num"
  shows "kfree_loop es b num = clear_region es b k"
proof -
  have "clear_region es b 0 = es" by (auto simp: clear_region_def fun_eq_iff)
  moreover have "0 < k" using assms(1) by (simp add: region_def)
  ultimately show ?thesis using kfree_loop_region [OF assms, of 0] by simp
qed

lemma clear_region_keeps:
  assumes "region es b k" and "region es b' k'" and "(b', k') \<noteq> (b, k)"
  shows "region (clear_region es b k) b' k'"
proof -
  have "b' + k' \<le> b \<or> b + k \<le> b'" using regions_disjoint [OF assms(2,1,3)] .
  then show ?thesis using assms(2) by (auto simp: region_def clear_region_def)
qed

lemma clear_region_gone: "region (clear_region es b k) b' k' \<Longrightarrow> b' < b + k \<Longrightarrow> b < b' + k' \<Longrightarrow> 0 < k \<Longrightarrow> False"
proof -
  assume r: "region (clear_region es b k) b' k'" and lt: "b' < b + k" "b < b' + k'" "0 < k"
  let ?x = "max b b'"
  have "clear_region es b k ?x = block_entry k' (?x - b')"
    using r lt by (intro region_entry) (auto simp: region_def)
  moreover have "clear_region es b k ?x = 0" using lt by (simp add: clear_region_def)
  ultimately have "is_free (block_entry k' (?x - b'))"
    by (simp add: get_kheap_entry_type_def)
  then show False by (simp add: block_entry_not_free)
qed

lemma clear_mark_region:
  "\<forall>j < k. es (b + j) = 0 \<Longrightarrow> clear_region (mark_region es b k) b k = es"
  by (auto simp: clear_region_def mark_region_def fun_eq_iff)
     (metis add_less_cancel_left le_Suc_ex)

section \<open>The invariant and the live allocations\<close>

text \<open>The heap lies in the 32-bit address space above address 0 and starts on a block boundary.\<close>

definition heap_geometry :: "'a kheap_st_scheme \<Rightarrow> bool" where
  "heap_geometry s \<longleftrightarrow>
     unat (kheap_physical_start_addr s) + 4096 * unat (num_entries s) \<le> 2 ^ 32 \<and>
     4096 \<le> unat (kheap_physical_start_addr s) \<and>
     unat (kheap_physical_start_addr s) mod 4096 = 0"

text \<open>
  The inner search loop is not bounded by \<^verbatim>\<open>num_entries\<close>; it stops at the end of the table only
  when the byte behind the table does not look free.
\<close>

definition table_guard :: "'a kheap_st_scheme \<Rightarrow> bool" where
  "table_guard s \<longleftrightarrow> \<not> is_free (entries s (unat (num_entries s)))"

definition table_ok :: "(nat \<Rightarrow> u8) \<Rightarrow> nat \<Rightarrow> bool" where
  "table_ok es n \<longleftrightarrow>
     (\<forall>i < n. es i = 0 \<or> (\<exists>b k. region es b k \<and> b \<le> i \<and> i < b + k \<and> b + k \<le> n))"

definition kheap_ok :: "'a kheap_st_scheme \<Rightarrow> bool" where
  "kheap_ok s \<longleftrightarrow> heap_geometry s \<and> table_guard s \<and> table_ok (entries s) (unat (num_entries s))"

text \<open>The live allocations: first address and number of blocks.\<close>

definition live_blocks :: "'a kheap_st_scheme \<Rightarrow> (nat \<times> nat) set" where
  "live_blocks s = {(b, k). region (entries s) b k \<and> b + k \<le> unat (num_entries s)}"

definition live :: "'a kheap_st_scheme \<Rightarrow> (addr \<times> nat) set" where
  "live s = (\<lambda>(b, k). (kheap_block_to_addr s b, k)) ` live_blocks s"

definition pages_of :: "u32 \<Rightarrow> nat" where
  "pages_of sz = max 1 (blocks_of sz)"

lemma unat_block_to_addr:
  assumes "heap_geometry s" and "b < unat (num_entries s)"
  shows "unat (kheap_block_to_addr s b) = unat (kheap_physical_start_addr s) + 4096 * b"
proof -
  have "kheap_block_to_addr s b = kheap_physical_start_addr s + of_nat (4096 * b)"
    by (simp add: kheap_block_to_addr_def)
  then show ?thesis
    using assms by (simp only: heap_geometry_def) (rule unat_add_small, linarith)
qed

lemma block_to_addr_inj:
  assumes "heap_geometry s" and "b < unat (num_entries s)" and "b' < unat (num_entries s)"
    and "kheap_block_to_addr s b = kheap_block_to_addr s b'"
  shows "b = b'"
  using unat_block_to_addr [OF assms(1,2)] unat_block_to_addr [OF assms(1,3)]
  unfolding assms(4) by linarith

lemma addr_to_block_inverse:
  assumes "heap_geometry s" and "b < unat (num_entries s)" and "off < 4096"
  shows "unat (kheap_addr_to_block_index s (kheap_block_to_addr s b + of_nat off)) = b"
proof -
  have "kheap_block_to_addr s b + of_nat off - kheap_physical_start_addr s = of_nat (4096 * b + off)"
    by (simp add: kheap_block_to_addr_def)
  moreover have "4096 * b + off < 2 ^ 32"
    using assms by (simp only: heap_geometry_def) linarith
  then have "unat (of_nat (4096 * b + off) :: u32) = 4096 * b + off"
    by (rule unat_of_nat32)
  moreover have "unat ((w :: u32) div KHEAP_BLOCK_SIZE) = unat w div 4096" for w
    by (subst unat_div) simp
  ultimately have "unat (kheap_addr_to_block_index s (kheap_block_to_addr s b + of_nat off)) =
      (4096 * b + off) div 4096"
    by (simp only: kheap_addr_to_block_index_def)
  with assms(3) show ?thesis by simp
qed

lemma block_to_addr_cong:
  "kheap_physical_start_addr s' = kheap_physical_start_addr s \<Longrightarrow>
     kheap_block_to_addr s' b = kheap_block_to_addr s b"
  by (simp add: kheap_block_to_addr_def)

text \<open>Within the guard, a free run that starts in the table ends in it.\<close>

lemma free_run_in_table:
  assumes "table_guard s" and "free_run (entries s) b n" and "b < unat (num_entries s)"
  shows "b + max 1 n \<le> unat (num_entries s)"
proof (rule ccontr)
  assume "\<not> ?thesis"
  then have "unat (num_entries s) - b < max 1 n" by simp
  with assms(2) have "is_free (entries s (b + (unat (num_entries s) - b)))"
    by (simp only: free_run_def)
  with assms(1,3) show False by (simp add: table_guard_def)
qed

section \<open>Allocation and release on the invariant\<close>

lemma table_ok_mark:
  assumes "table_ok es n" and "\<forall>j < k. is_free (es (b + j))" and "0 < k" and "b + k \<le> n"
  shows "table_ok (mark_region es b k) n"
  unfolding table_ok_def
proof (intro allI impI)
  fix i assume "i < n"
  show "mark_region es b k i = 0 \<or>
    (\<exists>b' k'. region (mark_region es b k) b' k' \<and> b' \<le> i \<and> i < b' + k' \<and> b' + k' \<le> n)"
  proof (cases "b \<le> i \<and> i < b + k")
    case True
    then show ?thesis using region_mark [OF assms(3), of es b] assms(4) by blast
  next
    case False
    then have "mark_region es b k i = es i" by (auto simp: mark_region_def)
    moreover from assms(1) \<open>i < n\<close> have "es i = 0 \<or>
      (\<exists>b' k'. region es b' k' \<and> b' \<le> i \<and> i < b' + k' \<and> b' + k' \<le> n)"
      by (simp add: table_ok_def)
    ultimately show ?thesis using mark_region_keeps [OF _ assms(2)] by auto
  qed
qed

lemma table_ok_clear:
  assumes "table_ok es n" and "region es b k"
  shows "table_ok (clear_region es b k) n"
  unfolding table_ok_def
proof (intro allI impI)
  fix i assume "i < n"
  show "clear_region es b k i = 0 \<or>
    (\<exists>b' k'. region (clear_region es b k) b' k' \<and> b' \<le> i \<and> i < b' + k' \<and> b' + k' \<le> n)"
  proof (cases "clear_region es b k i = 0")
    case False
    then have i: "\<not> (b \<le> i \<and> i < b + k)" "es i \<noteq> 0" by (auto simp: clear_region_def split: if_splits)
    with assms(1) \<open>i < n\<close> obtain b' k' where r: "region es b' k'" "b' \<le> i" "i < b' + k'" "b' + k' \<le> n"
      by (auto simp: table_ok_def)
    with i have "(b', k') \<noteq> (b, k)" by auto
    with r clear_region_keeps [OF assms(2) r(1)] show ?thesis by blast
  qed simp
qed

lemma mark_region_only_new:
  assumes "region (mark_region es b k) b' k'" and "(b', k') \<noteq> (b, k)" and "0 < k"
  shows "region es b' k'"
proof -
  have "b' + k' \<le> b \<or> b + k \<le> b'"
    using regions_disjoint [OF assms(1) region_mark [OF assms(3)] assms(2)] .
  then have "mark_region es b k (b' + j) = es (b' + j)" if "j < k'" for j
    using that by (auto simp: mark_region_def)
  with assms(1) show ?thesis by (simp add: region_def)
qed

lemma kmalloc_Some:
  assumes "kheap_ok s" and "kmalloc sz s = (p, s')" and "p \<noteq> 0"
  obtains b where "p = kheap_block_to_addr s b" and "b + pages_of sz \<le> unat (num_entries s)"
    and "free_run (entries s) b (blocks_of sz)"
    and "\<forall>k < b. \<not> free_run (entries s) k (blocks_of sz)"
    and "s' = s\<lparr>entries := mark_region (entries s) b (pages_of sz)\<rparr>"
proof -
  obtain b where b: "kmalloc_search (entries s) (unat (num_entries s)) (blocks_of sz) 0 = Some b"
    using assms(2,3) by (auto simp: kmalloc_eq split: option.splits)
  then have "b < unat (num_entries s)" "free_run (entries s) b (blocks_of sz)"
    "\<forall>k < b. \<not> free_run (entries s) k (blocks_of sz)"
    by (auto simp: kmalloc_search_Some)
  moreover from this have "b + pages_of sz \<le> unat (num_entries s)"
    using free_run_in_table [of s b "blocks_of sz"] assms(1) by (simp add: kheap_ok_def pages_of_def)
  moreover have "p = kheap_block_to_addr s b" "s' = s\<lparr>entries := mark_region (entries s) b (pages_of sz)\<rparr>"
    using assms(2) b by (auto simp: kmalloc_eq pages_of_def)
  ultimately show ?thesis using that by blast
qed

lemma print_kheap [simp]:
  "entries (print cs s) = entries s" "num_entries (print cs s) = num_entries s"
  "kheap_physical_start_addr (print cs s) = kheap_physical_start_addr s" "mem (print cs s) = mem s"
proof -
  have w: "entries (console_write_char c col t) = entries t"
    "num_entries (console_write_char c col t) = num_entries t"
    "kheap_physical_start_addr (console_write_char c col t) = kheap_physical_start_addr t"
    "mem (console_write_char c col t) = mem t" for c col and t :: "'a kheap_st_scheme"
    by (simp_all add: console_write_char_def console_put_char_def console_backspace_def Let_def)
  show "entries (print cs s) = entries s" "num_entries (print cs s) = num_entries s"
    "kheap_physical_start_addr (print cs s) = kheap_physical_start_addr s" "mem (print cs s) = mem s"
    by (induction cs arbitrary: s) (simp_all add: w)
qed

text \<open>The heap operations change the block table, the memory and, by messages, the console.\<close>

definition heap_frame :: "'a kheap_st_scheme \<Rightarrow> 'a kheap_st_scheme \<Rightarrow> bool" where
  "heap_frame s t \<longleftrightarrow> (\<exists>m v y x e. t = s\<lparr>mem := m, video_mem := v, curr_y := y, curr_x := x, entries := e\<rparr>)"

lemma heap_frameI:
  "t = s\<lparr>mem := m, video_mem := v, curr_y := y, curr_x := x, entries := e\<rparr> \<Longrightarrow> heap_frame s t"
  unfolding heap_frame_def by blast

lemma heap_frame_trans:
  assumes "heap_frame s t" and "heap_frame t u"
  shows "heap_frame s u"
proof -
  from assms obtain m v y x e m' v' y' x' e' where
    "t = s\<lparr>mem := m, video_mem := v, curr_y := y, curr_x := x, entries := e\<rparr>"
    "u = t\<lparr>mem := m', video_mem := v', curr_y := y', curr_x := x', entries := e'\<rparr>"
    unfolding heap_frame_def by blast
  then show ?thesis by (intro heap_frameI [where m = m' and v = v' and y = y' and x = x' and e = e']) simp
qed

lemma heap_frame_refl: "heap_frame s s"
  by (rule heap_frameI [where m = "mem s" and v = "video_mem s" and y = "curr_y s" and x = "curr_x s" and e = "entries s"]) simp

lemma heap_frame_entries: "heap_frame s (s\<lparr>entries := e\<rparr>)"
  by (rule heap_frameI [where m = "mem s" and v = "video_mem s" and y = "curr_y s" and x = "curr_x s" and e = e]) simp

lemma heap_frame_mem: "heap_frame s (s\<lparr>mem := m\<rparr>)"
  by (rule heap_frameI [where m = m and v = "video_mem s" and y = "curr_y s" and x = "curr_x s" and e = "entries s"]) simp

lemma heap_frame_console: "console_frame s t \<Longrightarrow> heap_frame s t"
proof -
  assume "console_frame s t"
  then obtain v y x where "t = s\<lparr>video_mem := v, curr_y := y, curr_x := x\<rparr>" by (auto simp: console_frame_def)
  then show ?thesis by (intro heap_frameI [where m = "mem s" and v = v and y = y and x = x and e = "entries s"]) simp
qed

lemma kzalloc_frame: "kzalloc sz s = (p, t) \<Longrightarrow> heap_frame s t"
  by (auto simp: kzalloc_def kmalloc_eq split: option.splits prod.splits
      intro!: heap_frame_trans [OF _ heap_frame_mem] heap_frame_entries
        heap_frame_console [OF console_frame_print])

lemma kfree_frame: "heap_frame s (snd (kfree p s))"
  by (simp add: kfree_def Let_def heap_frame_entries)

lemma pages_of_pos [simp]: "0 < pages_of sz"
  by (simp add: pages_of_def)

lemma free_run_pages: "free_run es b (blocks_of sz) \<Longrightarrow> \<forall>j < pages_of sz. is_free (es (b + j))"
  by (simp add: free_run_def pages_of_def)

lemma kmalloc_ok:
  assumes "kheap_ok s" and "kmalloc sz s = (p, s')"
  shows "kheap_ok s'"
proof (cases "p = 0")
  case True
  show ?thesis
  proof (cases "kmalloc_search (entries s) (unat (num_entries s)) (blocks_of sz) 0")
    case None
    then show ?thesis using assms
      by (auto simp: kmalloc_eq kheap_ok_def heap_geometry_def table_guard_def)
  next
    case (Some b)
    then have "p = kheap_block_to_addr s b"
      using assms(2) by (simp add: kmalloc_eq)
    moreover have "b < unat (num_entries s)"
      using Some by (simp add: kmalloc_search_Some)
    ultimately have "unat p = unat (kheap_physical_start_addr s) + 4096 * b"
      using unat_block_to_addr [of s b] assms(1) by (simp add: kheap_ok_def)
    with True assms(1) show ?thesis by (simp add: kheap_ok_def heap_geometry_def)
  qed
next
  case False
  with assms obtain b where b: "b + pages_of sz \<le> unat (num_entries s)"
    "free_run (entries s) b (blocks_of sz)"
    "s' = s\<lparr>entries := mark_region (entries s) b (pages_of sz)\<rparr>"
    by (rule kmalloc_Some)
  have "mark_region (entries s) b (pages_of sz) (unat (num_entries s)) = entries s (unat (num_entries s))"
    using b(1) by (simp add: mark_region_def)
  with assms(1) b(3) table_ok_mark [OF _ free_run_pages [OF b(2)] _ b(1)] show ?thesis
    by (simp add: kheap_ok_def heap_geometry_def table_guard_def)
qed

lemma kmalloc_live:
  assumes "kheap_ok s" and "kmalloc sz s = (p, s')" and "p \<noteq> 0"
  shows "live s' = insert (p, pages_of sz) (live s)" and "(p, pages_of sz) \<notin> live s"
proof -
  from assms obtain b where b: "p = kheap_block_to_addr s b"
    "b + pages_of sz \<le> unat (num_entries s)" "free_run (entries s) b (blocks_of sz)"
    "s' = s\<lparr>entries := mark_region (entries s) b (pages_of sz)\<rparr>"
    by (rule kmalloc_Some)
  have geo: "heap_geometry s" using assms(1) by (simp add: kheap_ok_def)
  have free: "\<forall>j < pages_of sz. is_free (entries s (b + j))" using b(3) by (rule free_run_pages)
  have reg: "region (mark_region (entries s) b (pages_of sz)) b' k' \<longleftrightarrow>
      (b', k') = (b, pages_of sz) \<or> region (entries s) b' k'" for b' k'
    using mark_region_only_new [of "entries s" b "pages_of sz" b' k'] mark_region_keeps [OF _ free, of b' k']
      region_mark [of "pages_of sz" "entries s" b] pages_of_pos [of sz] by blast
  have "live_blocks s' = insert (b, pages_of sz) (live_blocks s)"
    using b(2,4) by (auto simp: live_blocks_def reg)
  moreover have "kheap_block_to_addr s' = kheap_block_to_addr s"
    using b(4) by (simp add: kheap_block_to_addr_def fun_eq_iff)
  ultimately show "live s' = insert (p, pages_of sz) (live s)"
    using b(1) by (simp add: live_def)
  have not_region: "\<not> region (entries s) b k'" for k'
  proof
    assume "region (entries s) b k'"
    then have "entries s b = block_entry k' 0" using region_entry [of "entries s" b k' b]
      by (auto simp: region_def)
    moreover have "is_free (entries s (b + 0))" using free pages_of_pos [of sz] by blast
    ultimately show False by (simp add: block_entry_not_free)
  qed
  show "(p, pages_of sz) \<notin> live s"
  proof
    assume "(p, pages_of sz) \<in> live s"
    then obtain b' where b': "p = kheap_block_to_addr s b'" "region (entries s) b' (pages_of sz)"
      "b' + pages_of sz \<le> unat (num_entries s)"
      by (auto simp: live_def live_blocks_def)
    have "b < unat (num_entries s)" "b' < unat (num_entries s)"
      using b(2) b'(3) pages_of_pos [of sz] by linarith+
    then have "b = b'" using block_to_addr_inj [OF geo] b(1) b'(1) by blast
    with b'(2) not_region show False by blast
  qed
qed

lemma live_addr_range:
  assumes "heap_geometry s" and "(b, k) \<in> live_blocks s"
  shows "unat (kheap_block_to_addr s b) = unat (kheap_physical_start_addr s) + 4096 * b"
    and "unat (kheap_block_to_addr s b) + 4096 * k \<le> 2 ^ 32"
    and "0 < k" and "b < unat (num_entries s)"
proof -
  show pos: "0 < k" using assms(2) by (simp add: live_blocks_def region_def)
  show lt: "b < unat (num_entries s)" using assms(2) pos by (simp add: live_blocks_def)
  show eq: "unat (kheap_block_to_addr s b) = unat (kheap_physical_start_addr s) + 4096 * b"
    using assms(1) lt by (rule unat_block_to_addr)
  have "b + k \<le> unat (num_entries s)" using assms(2) by (simp add: live_blocks_def)
  then have "4096 * b + 4096 * k \<le> 4096 * unat (num_entries s)" by linarith
  then show "unat (kheap_block_to_addr s b) + 4096 * k \<le> 2 ^ 32"
    unfolding eq using assms(1) unfolding heap_geometry_def by linarith
qed

lemma live_disjoint:
  assumes "heap_geometry s" and "(p, k) \<in> live s" and "(q, l) \<in> live s" and "(p, k) \<noteq> (q, l)"
  shows "blocks_disjoint p (4096 * k) q (4096 * l)"
proof -
  from assms(2) obtain b where b: "p = kheap_block_to_addr s b" "(b, k) \<in> live_blocks s"
    by (auto simp: live_def)
  from assms(3) obtain c where c: "q = kheap_block_to_addr s c" "(c, l) \<in> live_blocks s"
    by (auto simp: live_def)
  have "(b, k) \<noteq> (c, l)" using assms(4) b(1) c(1) by auto
  then have "b + k \<le> c \<or> c + l \<le> b"
    using regions_disjoint b(2) c(2) unfolding live_blocks_def by blast
  then show ?thesis
    using live_addr_range [OF assms(1) b(2)] live_addr_range [OF assms(1) c(2)] b(1) c(1)
    by (auto simp: blocks_disjoint_def in_block_range)
qed

lemma live_aligned:
  assumes "heap_geometry s" and "(p, k) \<in> live s"
  shows "unat p mod 4096 = 0" and "4096 \<le> unat p" and "unat p + 4096 * k \<le> 2 ^ 32"
proof -
  from assms(2) obtain b where b: "p = kheap_block_to_addr s b" "(b, k) \<in> live_blocks s"
    by (auto simp: live_def)
  note range = live_addr_range [OF assms(1) b(2)]
  show "unat p mod 4096 = 0" "4096 \<le> unat p" "unat p + 4096 * k \<le> 2 ^ 32"
    using range assms(1) unfolding b(1) heap_geometry_def by (simp_all add: mod_mult_self2)
qed

lemma kfree_region:
  assumes "kheap_ok s" and "(b, k) \<in> live_blocks s" and "off < 4096"
  shows "kfree (kheap_block_to_addr s b + of_nat off) s =
           (0, s\<lparr>entries := clear_region (entries s) b k\<rparr>)"
proof -
  have geo: "heap_geometry s" using assms(1) by (simp add: kheap_ok_def)
  have "unat (kheap_addr_to_block_index s (kheap_block_to_addr s b + of_nat off)) = b"
    using addr_to_block_inverse [OF geo live_addr_range(4) [OF geo assms(2)] assms(3)] .
  moreover have "kfree_loop (entries s) b (unat (num_entries s)) = clear_region (entries s) b k"
    using assms(2) by (intro kfree_loop_clears) (auto simp: live_blocks_def)
  ultimately show ?thesis by (simp add: kfree_def Let_def)
qed

lemma kfree_live:
  assumes "kheap_ok s" and "(p, k) \<in> live s"
  shows "kheap_ok (snd (kfree p s))" and "live (snd (kfree p s)) = live s - {(p, k)}"
proof -
  have geo: "heap_geometry s" using assms(1) by (simp add: kheap_ok_def)
  from assms(2) obtain b where b: "p = kheap_block_to_addr s b" "(b, k) \<in> live_blocks s"
    by (auto simp: live_def)
  then have r: "region (entries s) b k" "b + k \<le> unat (num_entries s)"
    by (auto simp: live_blocks_def)
  have free: "snd (kfree p s) = s\<lparr>entries := clear_region (entries s) b k\<rparr>"
    using kfree_region [OF assms(1) b(2), of 0] b(1) by simp
  show "kheap_ok (snd (kfree p s))"
    using assms(1) r table_ok_clear [OF _ r(1)]
    by (auto simp: free kheap_ok_def heap_geometry_def table_guard_def clear_region_def)
  have reg: "region (clear_region (entries s) b k) b' k' \<longleftrightarrow>
      region (entries s) b' k' \<and> (b', k') \<noteq> (b, k)" for b' k'
  proof
    assume c: "region (clear_region (entries s) b k) b' k'"
    have "b' + k' \<le> b \<or> b + k \<le> b'"
      using clear_region_gone [OF c] r(1) by (metis not_le region_def)
    then have "clear_region (entries s) b k (b' + j) = entries s (b' + j)" if "j < k'" for j
      using that by (auto simp: clear_region_def)
    moreover have "(b', k') \<noteq> (b, k)"
      using \<open>b' + k' \<le> b \<or> b + k \<le> b'\<close> r(1) by (auto simp: region_def)
    ultimately show "region (entries s) b' k' \<and> (b', k') \<noteq> (b, k)"
      using c by (simp add: region_def)
  qed (use clear_region_keeps [OF r(1)] in blast)
  have lb: "live_blocks (snd (kfree p s)) = live_blocks s - {(b, k)}"
    by (auto simp: free live_blocks_def reg)
  have addr: "kheap_block_to_addr (snd (kfree p s)) = kheap_block_to_addr s"
    by (simp add: free kheap_block_to_addr_def fun_eq_iff)
  have inj: "inj_on (\<lambda>(b, k). (kheap_block_to_addr s b, k)) (live_blocks s)"
    by (auto intro!: inj_onI block_to_addr_inj [OF geo] dest: live_addr_range(4) [OF geo])
  show "live (snd (kfree p s)) = live s - {(p, k)}"
    unfolding live_def lb addr using inj_on_image_set_diff [OF inj, of "live_blocks s" "{(b, k)}"] b by auto
qed

lemma kzalloc_eq:
  "kzalloc sz s = (let (p, t) = kmalloc sz s
     in (p, t\<lparr>mem := (\<lambda>a. if in_block a p (unat sz) then 0 else mem t a)\<rparr>))"
  by (simp add: kzalloc_def memset_eq split: prod.split)

lemma kheap_mem_update [simp]:
  "kheap_ok (s\<lparr>mem := m\<rparr>) = kheap_ok s" "live (s\<lparr>mem := m\<rparr>) = live s"
  by (simp_all add: kheap_ok_def heap_geometry_def table_guard_def live_def live_blocks_def
      kheap_block_to_addr_def)

lemma kmalloc_mem: "kmalloc sz s = (p, s') \<Longrightarrow> mem s' = mem s"
  by (auto simp: kmalloc_eq split: option.splits)

lemma kmalloc_null_live: "kmalloc sz s = (0, s') \<Longrightarrow> kheap_ok s \<Longrightarrow> live s' = live s"
proof -
  assume a: "kmalloc sz s = (0, s')" and ok: "kheap_ok s"
  have "kmalloc_search (entries s) (unat (num_entries s)) (blocks_of sz) 0 = None"
  proof (cases "kmalloc_search (entries s) (unat (num_entries s)) (blocks_of sz) 0")
    case (Some b)
    then have "b < unat (num_entries s)" by (simp add: kmalloc_search_Some)
    with ok have "unat (kheap_block_to_addr s b) = unat (kheap_physical_start_addr s) + 4096 * b"
      by (intro unat_block_to_addr) (simp add: kheap_ok_def)
    moreover have "kheap_block_to_addr s b = 0" using a Some by (simp add: kmalloc_eq)
    ultimately show ?thesis using ok by (simp add: kheap_ok_def heap_geometry_def)
  qed
  with a show ?thesis
    by (auto simp: kmalloc_eq live_def live_blocks_def kheap_block_to_addr_def)
qed

lemma pages_cover: "unat sz \<le> 2 ^ 32 - 4096 \<Longrightarrow> unat sz \<le> 4096 * pages_of sz"
proof -
  assume "unat sz \<le> 2 ^ 32 - 4096"
  then have "blocks_of sz = (unat sz + 4095) div 4096" by (rule blocks_of_eq)
  moreover have "unat sz \<le> 4096 * ((unat sz + 4095) div 4096)"
    using div_mult_mod_eq [of "unat sz + 4095" 4096] mod_less_divisor [of 4096 "unat sz + 4095"]
    by linarith
  ultimately show ?thesis by (simp add: pages_of_def max_def)
qed

section \<open>The allocator interface\<close>

text \<open>
  What the rest of the kernel relies on: successful allocations are fresh, block aligned, zeroed
  and disjoint from every live allocation, whose contents they do not touch; releasing a live
  allocation removes it and nothing else.
\<close>

locale block_allocator =
  fixes alloc :: "u32 \<Rightarrow> 's \<Rightarrow> addr \<times> 's"
    and release :: "addr \<Rightarrow> 's \<Rightarrow> 's"
    and allocated :: "'s \<Rightarrow> (addr \<times> nat) set"
    and ok :: "'s \<Rightarrow> bool"
    and contents :: "'s \<Rightarrow> memory"
    and nblocks :: "u32 \<Rightarrow> nat"
  assumes alloc_ok: "ok s \<Longrightarrow> alloc n s = (p, t) \<Longrightarrow> ok t"
    and alloc_new: "ok s \<Longrightarrow> alloc n s = (p, t) \<Longrightarrow> p \<noteq> 0 \<Longrightarrow>
          allocated t = insert (p, nblocks n) (allocated s) \<and> (p, nblocks n) \<notin> allocated s"
    and alloc_null: "ok s \<Longrightarrow> alloc n s = (0, t) \<Longrightarrow> allocated t = allocated s"
    and alloc_contents: "ok s \<Longrightarrow> alloc n s = (p, t) \<Longrightarrow>
          contents t = (\<lambda>a. if in_block a p (unat n) then 0 else contents s a)"
    and nblocks_cover: "unat n \<le> 2 ^ 32 - 4096 \<Longrightarrow> unat n \<le> 4096 * nblocks n"
    and release_ok: "ok s \<Longrightarrow> (p, k) \<in> allocated s \<Longrightarrow> ok (release p s)"
    and release_gone: "ok s \<Longrightarrow> (p, k) \<in> allocated s \<Longrightarrow>
          allocated (release p s) = allocated s - {(p, k)}"
    and allocated_disjoint: "ok s \<Longrightarrow> (p, k) \<in> allocated s \<Longrightarrow> (q, l) \<in> allocated s \<Longrightarrow>
          (p, k) \<noteq> (q, l) \<Longrightarrow> blocks_disjoint p (4096 * k) q (4096 * l)"
    and allocated_aligned: "ok s \<Longrightarrow> (p, k) \<in> allocated s \<Longrightarrow>
          unat p mod 4096 = 0 \<and> 4096 \<le> unat p \<and> unat p + 4096 * k \<le> 2 ^ 32"
begin

lemma alloc_disjoint:
  assumes "ok s" and "alloc n s = (p, t)" and "p \<noteq> 0" and "(q, k) \<in> allocated s"
  shows "blocks_disjoint p (4096 * nblocks n) q (4096 * k)"
  using allocated_disjoint [OF alloc_ok [OF assms(1,2)], of p "nblocks n" q k]
    alloc_new [OF assms(1-3)] assms(4) by auto

lemma alloc_keeps_contents:
  assumes "ok s" and "alloc n s = (p, t)" and "p \<noteq> 0" and "unat n \<le> 2 ^ 32 - 4096"
    and "(q, k) \<in> allocated s" and "in_block a q (4096 * k)"
  shows "contents t a = contents s a"
proof -
  have "\<not> in_block a p (4096 * nblocks n)"
    using alloc_disjoint [OF assms(1-3,5)] assms(6) unfolding blocks_disjoint_def by blast
  then have "\<not> in_block a p (unat n)"
    using nblocks_cover [OF assms(4)] by (simp add: in_block_def)
  then show ?thesis using alloc_contents [OF assms(1,2)] by simp
qed

lemma alloc_release:
  assumes "ok s" and "alloc n s = (p, t)" and "p \<noteq> 0"
  shows "allocated (release p t) = allocated s"
  using release_gone [OF alloc_ok [OF assms(1,2)], of p "nblocks n"] alloc_new [OF assms] by auto

lemma alloc_two_disjoint:
  assumes "ok s" and "alloc n s = (p, t)" and "p \<noteq> 0" and "alloc m t = (q, u)" and "q \<noteq> 0"
  shows "blocks_disjoint q (4096 * nblocks m) p (4096 * nblocks n)"
  using alloc_disjoint [OF alloc_ok [OF assms(1,2)] assms(4,5)] alloc_new [OF assms(1-3)] by auto

end

interpretation kh: block_allocator kzalloc "\<lambda>p s. snd (kfree p s)" live kheap_ok mem pages_of
proof unfold_locales
  fix s t :: "'a kheap_st_scheme" and n p
  assume ok: "kheap_ok s" and z: "kzalloc n s = (p, t)"
  obtain u where m: "kmalloc n s = (p, u)"
    and t: "t = u\<lparr>mem := (\<lambda>a. if in_block a p (unat n) then 0 else mem u a)\<rparr>"
    using z by (auto simp: kzalloc_eq split: prod.splits)
  show "kheap_ok t" using kmalloc_ok [OF ok m] t by simp
  show "p \<noteq> 0 \<Longrightarrow> live t = insert (p, pages_of n) (live s) \<and> (p, pages_of n) \<notin> live s"
    using kmalloc_live [OF ok m] t by simp
  show "mem t = (\<lambda>a. if in_block a p (unat n) then 0 else mem s a)"
    using kmalloc_mem [OF m] t by (simp cong: if_cong)
next
  fix s t :: "'a kheap_st_scheme" and n
  assume ok: "kheap_ok s" and z: "kzalloc n s = (0, t)"
  obtain u where m: "kmalloc n s = (0, u)"
    and t: "t = u\<lparr>mem := (\<lambda>a. if in_block a 0 (unat n) then 0 else mem u a)\<rparr>"
    using z by (auto simp: kzalloc_eq split: prod.splits)
  show "live t = live s" using kmalloc_null_live [OF m ok] t by simp
next
  fix s :: "'a kheap_st_scheme" and p q k l
  assume ok: "kheap_ok s" and p: "(p, k) \<in> live s"
  show "kheap_ok (snd (kfree p s))" "live (snd (kfree p s)) = live s - {(p, k)}"
    using kfree_live [OF ok p] by simp_all
  have geo: "heap_geometry s" using ok by (simp add: kheap_ok_def)
  show "unat p mod 4096 = 0 \<and> 4096 \<le> unat p \<and> unat p + 4096 * k \<le> 2 ^ 32"
    using live_aligned [OF geo p] by simp
  assume "(q, l) \<in> live s" "(p, k) \<noteq> (q, l)"
  then show "blocks_disjoint p (4096 * k) q (4096 * l)" using live_disjoint [OF geo p] by blast
qed (rule pages_cover)

section \<open>Properties\<close>

lemmas kmalloc_pages = kmalloc_eq [folded pages_of_def]

lemma free_count_eq: "kheap_num_free_blocks s = card {i. i < unat (num_entries s) \<and> is_free (entries s i)}"
proof -
  have "fold (\<lambda>i n. if P i then Suc n else n) [0..<m] 0 = card {i. i < m \<and> P i}" for P m
  proof (induction m)
    case (Suc m)
    have "{i. i < Suc m \<and> P i} = (if P m then insert m {i. i < m \<and> P i} else {i. i < m \<and> P i})"
      by (auto simp: less_Suc_eq)
    with Suc show ?case by simp
  qed simp
  then show ?thesis by (simp add: kheap_num_free_blocks_def)
qed

lemma kmalloc_counts:
  assumes "kheap_ok s" and "kmalloc sz s = (p, s')" and "p \<noteq> 0"
  shows "kheap_num_free_blocks s' + pages_of sz = kheap_num_free_blocks s"
proof -
  from assms obtain b where b: "b + pages_of sz \<le> unat (num_entries s)"
    "free_run (entries s) b (blocks_of sz)"
    "s' = s\<lparr>entries := mark_region (entries s) b (pages_of sz)\<rparr>"
    by (rule kmalloc_Some)
  let ?A = "{i. i < unat (num_entries s) \<and> is_free (entries s i)}"
  have free: "is_free (entries s x)" if "b \<le> x" "x < b + pages_of sz" for x
    using free_run_pages [OF b(2)] that by (metis add_less_cancel_left le_Suc_ex)
  have "{i. i < unat (num_entries s') \<and> is_free (entries s' i)} = ?A - {b..<b + pages_of sz}"
    using b(3) by (auto simp: mark_region_def block_entry_not_free)
  moreover have sub: "{b..<b + pages_of sz} \<subseteq> ?A"
    using free b(1) by auto
  moreover have "finite ?A" by simp
  ultimately have "card {i. i < unat (num_entries s') \<and> is_free (entries s' i)} + pages_of sz = card ?A"
    using card_mono [OF \<open>finite ?A\<close> sub] by (simp add: card_Diff_subset)
  then show ?thesis by (simp only: free_count_eq)
qed

text \<open>C23: a successful \<^verbatim>\<open>kmalloc\<close> returns the first run of free blocks that is long enough: the
  run lies inside the heap, every block of it was free before, no earlier run would do, the table
  now records exactly this region as taken and is otherwise unchanged, and the heap invariant is
  kept.\<close>

theorem kmalloc_first_fit:
  assumes "kheap_ok s" and "kmalloc sz s = (p, s')" and "p \<noteq> 0"
  shows "\<exists>b. p = kheap_block_to_addr s b \<and> b + pages_of sz \<le> unat (num_entries s) \<and>
           (\<forall>j < pages_of sz. is_free (entries s (b + j))) \<and>
           (\<forall>c < b. \<not> free_run (entries s) c (blocks_of sz)) \<and>
           region (entries s') b (pages_of sz) \<and>
           (\<forall>x. x < b \<or> b + pages_of sz \<le> x \<longrightarrow> entries s' x = entries s x) \<and> kheap_ok s'"
proof -
  from assms obtain b where b: "p = kheap_block_to_addr s b"
    "b + pages_of sz \<le> unat (num_entries s)" "free_run (entries s) b (blocks_of sz)"
    "\<forall>k < b. \<not> free_run (entries s) k (blocks_of sz)"
    "s' = s\<lparr>entries := mark_region (entries s) b (pages_of sz)\<rparr>"
    by (rule kmalloc_Some)
  have "entries s' x = entries s x" if "x < b \<or> b + pages_of sz \<le> x" for x
    using that b(5) by (auto simp: mark_region_def)
  moreover have "region (entries s') b (pages_of sz)" using b(5) by (simp add: region_mark)
  ultimately show ?thesis
    using b free_run_pages [OF b(3)] kmalloc_ok [OF assms(1,2)] by blast
qed

text \<open>A heap of four free blocks at \<^verbatim>\<open>KHEAP_ADDR\<close>, for concrete instances.\<close>

definition demo_heap :: kheap_st where
  "demo_heap = \<lparr>mem = (\<lambda>_. 7), video_mem = (\<lambda>_. 0), curr_y = 0, curr_x = 0,
     entries = (\<lambda>i. if i < 4 then 0 else 0x41), num_entries = 4,
     kheap_physical_start_addr = KHEAP_ADDR\<rparr>"

lemma kheap_ok_demo: "kheap_ok demo_heap"
  by (simp add: kheap_ok_def demo_heap_def heap_geometry_def table_guard_def table_ok_def
      get_kheap_entry_type_def)

lemma demo_sizes: "blocks_of 5000 = 2" "pages_of 5000 = 2"
  by (simp_all add: blocks_of_alt pages_of_def)

lemma demo_kmalloc:
  "kmalloc 5000 demo_heap =
     (KHEAP_ADDR, demo_heap\<lparr>entries := mark_region (entries demo_heap) 0 2\<rparr>)"
proof -
  have "kmalloc_search (entries demo_heap) 4 2 0 = Some 0"
    by (simp add: kmalloc_search_Some free_run_def demo_heap_def get_kheap_entry_type_def)
  then show ?thesis
    by (simp add: kmalloc_pages demo_sizes(1))
      (simp add: demo_heap_def kheap_block_to_addr_def demo_sizes(2))
qed

theorem kmalloc_first_fit_witness:
  "\<exists>b. KHEAP_ADDR = kheap_block_to_addr demo_heap b \<and>
      region (entries (snd (kmalloc 5000 demo_heap))) b 2"
  using kmalloc_first_fit [OF kheap_ok_demo demo_kmalloc] by (auto simp: demo_sizes demo_kmalloc)

lemma kmalloc_null_iff:
  assumes "kheap_ok s"
  shows "fst (kmalloc sz s) = 0 \<longleftrightarrow>
           kmalloc_search (entries s) (unat (num_entries s)) (blocks_of sz) 0 = None"
proof -
  have "kheap_block_to_addr s b \<noteq> 0"
    if "kmalloc_search (entries s) (unat (num_entries s)) (blocks_of sz) 0 = Some b" for b
  proof -
    have "unat (kheap_block_to_addr s b) = unat (kheap_physical_start_addr s) + 4096 * b"
      using that assms by (intro unat_block_to_addr) (auto simp: kheap_ok_def kmalloc_search_Some)
    then show ?thesis using assms by (auto simp: kheap_ok_def heap_geometry_def)
  qed
  then show ?thesis by (auto simp: kmalloc_eq split: option.splits)
qed

lemma kzalloc_block_counts:
  assumes "kheap_ok s" and "kzalloc sz s = (q, t)" and "blocks_of sz = 1"
  shows "q = 0 \<longleftrightarrow> kheap_num_free_blocks s = 0"
    and "q \<noteq> 0 \<Longrightarrow> Suc (kheap_num_free_blocks t) = kheap_num_free_blocks s"
proof -
  obtain u where m: "kmalloc sz s = (q, u)"
    and t: "t = u\<lparr>mem := (\<lambda>a. if in_block a q (unat sz) then 0 else mem u a)\<rparr>"
    using assms(2) by (auto simp: kzalloc_eq split: prod.splits)
  have sz: "pages_of sz = 1" using assms(3) by (simp add: pages_of_def)
  show "q = 0 \<longleftrightarrow> kheap_num_free_blocks s = 0"
    using kmalloc_null_iff [OF assms(1), of sz] m
    by (auto simp: assms(3) kmalloc_search_None free_run_def free_count_eq)
  show "q \<noteq> 0 \<Longrightarrow> Suc (kheap_num_free_blocks t) = kheap_num_free_blocks s"
    using kmalloc_counts [OF assms(1) m] by (simp add: t sz free_count_eq)
qed

lemmas kzalloc_page_counts = kzalloc_block_counts [where sz = 4096, simplified blocks_of_alt, simplified]

text \<open>C25: \<^verbatim>\<open>kmalloc\<close> fails exactly when no run of free blocks of the needed length starts in the
  table; it then returns NULL and leaves the table and the memory as they were.\<close>

theorem kmalloc_fails_iff:
  assumes "kheap_ok s"
  shows "(fst (kmalloc sz s) = 0 \<longleftrightarrow>
           (\<forall>b < unat (num_entries s). \<not> free_run (entries s) b (blocks_of sz))) \<and>
         (fst (kmalloc sz s) = 0 \<longrightarrow>
           entries (snd (kmalloc sz s)) = entries s \<and> mem (snd (kmalloc sz s)) = mem s)"
  using kmalloc_null_iff [OF assms, of sz]
  by (intro conjI impI) (simp add: kmalloc_search_None, simp_all add: kmalloc_eq split: option.splits)

theorem kmalloc_fails_iff_witness:
  "fst (kmalloc 20000 demo_heap) = 0 \<and> entries (snd (kmalloc 20000 demo_heap)) = entries demo_heap"
proof -
  have sz: "blocks_of 20000 = 5" by (simp add: blocks_of_alt)
  have "\<not> free_run (entries demo_heap) b 5" if "b < 4" for b
  proof
    assume run: "free_run (entries demo_heap) b 5"
    have "4 - b < max 1 5" using that by simp
    with run have "is_free (entries demo_heap (b + (4 - b)))" unfolding free_run_def by blast
    with that show False by (simp add: demo_heap_def get_kheap_entry_type_def)
  qed
  then show ?thesis
    using kmalloc_fails_iff [OF kheap_ok_demo, of 20000] unfolding sz by (simp add: demo_heap_def)
qed

text \<open>C24: \<^verbatim>\<open>kfree\<close> undoes \<^verbatim>\<open>kmalloc\<close>: freeing any address inside the first block of what was just
  allocated restores the block table exactly.\<close>

theorem kfree_kmalloc:
  assumes "kheap_ok s" and "kmalloc sz s = (p, s')" and "p \<noteq> 0" and "off < 4096"
  shows "snd (kfree (p + of_nat off) s') = s"
proof -
  from assms(1-3) obtain b where b: "p = kheap_block_to_addr s b"
    "b + pages_of sz \<le> unat (num_entries s)" "free_run (entries s) b (blocks_of sz)"
    "s' = s\<lparr>entries := mark_region (entries s) b (pages_of sz)\<rparr>"
    by (rule kmalloc_Some)
  have zero: "\<forall>j < pages_of sz. entries s (b + j) = 0"
  proof (intro allI impI, rule ccontr)
    fix j assume j: "j < pages_of sz" and nz: "entries s (b + j) \<noteq> 0"
    moreover have "b + j < unat (num_entries s)" using j b(2) by linarith
    ultimately obtain c k where c: "region (entries s) c k" "c \<le> b + j" "b + j < c + k"
      using assms(1) unfolding kheap_ok_def table_ok_def by blast
    have "is_free (entries s (b + j))" using free_run_pages [OF b(3)] j by blast
    then show False using region_entry [OF c] by (simp add: block_entry_not_free)
  qed
  have "region (entries s') b (pages_of sz)" using b(4) by (simp add: region_mark)
  then have "(b, pages_of sz) \<in> live_blocks s'" using b(2,4) by (simp add: live_blocks_def)
  moreover have "p = kheap_block_to_addr s' b" using b(1,4) by (simp add: kheap_block_to_addr_def)
  ultimately have "snd (kfree (p + of_nat off) s') =
      s'\<lparr>entries := clear_region (entries s') b (pages_of sz)\<rparr>"
    using kfree_region [OF kmalloc_ok [OF assms(1,2)] _ assms(4)] by simp
  then show ?thesis using b(4) clear_mark_region [OF zero] by simp
qed

theorem kfree_kmalloc_witness:
  "snd (kfree (KHEAP_ADDR + of_nat 3) (snd (kmalloc 5000 demo_heap))) = demo_heap"
  using kfree_kmalloc [OF kheap_ok_demo demo_kmalloc, of 3] by (simp add: demo_kmalloc)

text \<open>C22: the allocator contract of \<^verbatim>\<open>kzalloc\<close>: the new allocation starts on a page boundary, all
  its requested bytes are zero, it shares no byte with any live allocation, and the contents of
  every live allocation are unchanged.\<close>

theorem kzalloc_contract:
  assumes "kheap_ok s" and "kzalloc sz s = (p, s')" and "p \<noteq> 0" and "unat sz \<le> 2 ^ 32 - 4096"
  shows "unat p mod 4096 = 0 \<and> (\<forall>a. in_block a p (unat sz) \<longrightarrow> mem s' a = 0) \<and>
         live s' = insert (p, pages_of sz) (live s) \<and> unat sz \<le> 4096 * pages_of sz \<and>
         (\<forall>(q, k) \<in> live s. blocks_disjoint p (4096 * pages_of sz) q (4096 * k) \<and>
            (\<forall>a. in_block a q (4096 * k) \<longrightarrow> mem s' a = mem s a))"
proof -
  have "(p, pages_of sz) \<in> live s'" using kh.alloc_new [OF assms(1-3)] by simp
  from kh.allocated_aligned [OF kh.alloc_ok [OF assms(1,2)] this]
  have "unat p mod 4096 = 0" by simp
  moreover have "\<forall>(q, k) \<in> live s. blocks_disjoint p (4096 * pages_of sz) q (4096 * k) \<and>
      (\<forall>a. in_block a q (4096 * k) \<longrightarrow> mem s' a = mem s a)"
    using kh.alloc_disjoint [OF assms(1-3)] kh.alloc_keeps_contents [OF assms] by blast
  ultimately show ?thesis
    using kh.alloc_new [OF assms(1-3)] kh.alloc_contents [OF assms(1,2)]
      kh.nblocks_cover [OF assms(4)] by simp
qed

lemma demo_kzalloc: "fst (kzalloc 5000 demo_heap) = KHEAP_ADDR"
  by (simp add: kzalloc_eq demo_kmalloc)

theorem kzalloc_contract_witness:
  "live (snd (kzalloc 5000 demo_heap)) = insert (KHEAP_ADDR, 2) (live demo_heap)"
proof -
  have "kzalloc 5000 demo_heap = (KHEAP_ADDR, snd (kzalloc 5000 demo_heap))"
    using demo_kzalloc by (metis prod.collapse)
  from kzalloc_contract [OF kheap_ok_demo this] show ?thesis by (simp add: demo_sizes)
qed

text \<open>Releasing a live allocation removes it from the live set, keeps the invariant and leaves
  all other live allocations in place.\<close>

lemma kfree_releases:
  assumes "kheap_ok s" and "(p, k) \<in> live s"
  shows "kheap_ok (snd (kfree p s)) \<and> live (snd (kfree p s)) = live s - {(p, k)} \<and>
         mem (snd (kfree p s)) = mem s"
  using kfree_live [OF assms] by (simp add: kfree_def Let_def)

lemma kfree_releases_witness:
  "live (snd (kfree KHEAP_ADDR (snd (kmalloc 5000 demo_heap)))) =
     live (snd (kmalloc 5000 demo_heap)) - {(KHEAP_ADDR, 2)}"
proof -
  have "(KHEAP_ADDR, 2) \<in> live (snd (kmalloc 5000 demo_heap))"
    using kmalloc_live(1) [OF kheap_ok_demo demo_kmalloc] by (simp add: demo_kmalloc demo_sizes)
  then show ?thesis
    using kfree_releases [OF kmalloc_ok [OF kheap_ok_demo demo_kmalloc], of KHEAP_ADDR 2]
    by (simp add: demo_kmalloc)
qed

text \<open>C26: \<^verbatim>\<open>kheap_init\<close> succeeds on every machine and sets up the heap at \<^verbatim>\<open>KHEAP_ADDR\<close>: 25600 blocks,
  all of them free, none allocated, every table entry in order, inside the address space. Of the invariant
  of the heap it does not establish the condition on the byte behind the table, which it leaves as it
  was: the invariant holds after it exactly if that byte did not look free.\<close>

theorem kheap_init_ok:
  "fst (kheap_init s) = STATUS_OK \<and> kheap_physical_start_addr (snd (kheap_init s)) = KHEAP_ADDR \<and>
   num_entries (snd (kheap_init s)) = 25600 \<and> kheap_num_free_blocks (snd (kheap_init s)) = 25600 \<and>
   live (snd (kheap_init s)) = {} \<and> heap_geometry (snd (kheap_init s)) \<and>
   table_ok (entries (snd (kheap_init s))) 25600 \<and>
   (kheap_ok (snd (kheap_init s)) \<longleftrightarrow> \<not> is_free (entries s 25600))"
proof -
  let ?t = "snd (kheap_init s)"
  have init: "kheap_init s = (STATUS_OK, s\<lparr>kheap_physical_start_addr := KHEAP_ADDR,
      num_entries := 25600, entries := (\<lambda>i. if i < 25600 then 0 else entries s i)\<rparr>)"
    by (simp add: kheap_init_def kheap_create_def validate_ptr_alignment_def
        validate_kheap_table_def Let_def KHEAP_BLOCK_TABLE_ENTRY_FREE_def
        cong: if_cong)
  have ok: "heap_geometry ?t" "table_ok (entries ?t) 25600" "table_guard ?t \<longleftrightarrow> \<not> is_free (entries s 25600)"
    by (simp_all add: init heap_geometry_def table_guard_def table_ok_def)
  have "\<not> region (entries ?t) b k" if "b + k \<le> 25600" for b k
  proof
    assume "region (entries ?t) b k"
    then have "0 < k" "entries ?t b = block_entry k 0" by (auto simp: region_def)
    with that have "block_entry k 0 = 0" by (simp add: init)
    then show False by (simp add: block_entry_def split: if_splits)
  qed
  then have "live ?t = {}" by (auto simp: init live_def live_blocks_def)
  moreover have "{i. i < 25600 \<and> is_free (entries ?t i)} = {..< 25600}" by (auto simp: init get_kheap_entry_type_def)
  then have "kheap_num_free_blocks ?t = 25600" by (simp add: free_count_eq) (simp add: init)
  ultimately show ?thesis using ok by (simp add: kheap_ok_def) (simp add: init)
qed

text \<open>Without that condition the search runs over the end of the table: on a heap of two blocks
  whose second block is free and whose following bytes are zero, a request for two blocks returns
  the last block of the heap together with one block behind it.\<close>

lemma kmalloc_past_the_end:
  "let s = demo_heap\<lparr>num_entries := 2, entries := (\<lambda>i. if i = 0 then 0x41 else 0)\<rparr>
   in fst (kmalloc 8192 s) = kheap_block_to_addr s 1 \<and>
      region (entries (snd (kmalloc 8192 s))) 1 2 \<and> unat (num_entries s) < 1 + 2"
proof -
  let ?es = "\<lambda>i::nat. if i = 0 then 0x41 else 0 :: u8"
  have "blocks_of 8192 = 2" "pages_of 8192 = 2" by (simp_all add: blocks_of_alt pages_of_def)
  moreover have "kmalloc_search ?es 2 2 0 = Some 1"
    by (auto simp: kmalloc_search_Some free_run_def get_kheap_entry_type_def)
  ultimately show ?thesis
    by (simp add: Let_def kmalloc_pages demo_heap_def kheap_block_to_addr_def region_mark)
qed

text \<open>The size computation wraps: a request of more than \<^verbatim>\<open>2^32 - 4096\<close> bytes is served with a
  single block whenever one is free.\<close>

lemma kmalloc_huge_request:
  assumes "kheap_ok s" and "2 ^ 32 - 4096 < unat sz" and "b < unat (num_entries s)"
    and "is_free (entries s b)"
  shows "fst (kmalloc sz s) \<noteq> 0 \<and> (fst (kmalloc sz s), 1) \<in> live (snd (kmalloc sz s))"
proof -
  have nb: "blocks_of sz = 0" "pages_of sz = 1" using blocks_of_wrap [OF assms(2)] by (simp_all add: pages_of_def)
  have "free_run (entries s) b 0" using assms(4) by (simp add: free_run_def)
  then have p: "fst (kmalloc sz s) \<noteq> 0"
    using assms(3) by (auto simp: kmalloc_null_iff [OF assms(1)] nb(1) kmalloc_search_None)
  then show ?thesis
    using kmalloc_live(1) [OF assms(1), of sz "fst (kmalloc sz s)" "snd (kmalloc sz s)"] nb(2) by simp
qed

lemma kmalloc_huge_request_witness:
  "(fst (kmalloc 0xFFFFFFFF demo_heap), 1) \<in> live (snd (kmalloc 0xFFFFFFFF demo_heap))"
  using kmalloc_huge_request [OF kheap_ok_demo, of "0xFFFFFFFF" 0]
  by (simp add: demo_heap_def get_kheap_entry_type_def)

end
