(* ===== verification/Paging.thy ===== *)
theory Paging
  imports Kheap_Props
begin

text \<open>
  The page tables of \<^verbatim>\<open>src/src/memory/paging/paging.c\<close>. Directories and second-level tables are
  heap pages of 1024 little-endian words in the memory of the machine, and every operation reads
  and writes them there. The state gains the kernel page table, the page table switched to, the
  registers set by \<^verbatim>\<open>paging.asm\<close> and the translations the TLB may hold; the TLB changes only by
  \<^verbatim>\<open>invlpg\<close> and by loading \<^verbatim>\<open>cr3\<close>. The assertions of \<^verbatim>\<open>invariants.h\<close> test constants that
  are true, so they never panic. The theory \<open>Paging_Props\<close> holds the facts.
\<close>

section \<open>Constants and state\<close>

definition PAGE_SIZE :: u32 where [simp]: "PAGE_SIZE = 4096"
definition PAGE_CACHE_DISABLED :: u8 where [simp]: "PAGE_CACHE_DISABLED = 0x10"
definition PAGE_CACHE_WRITE_THROUGH :: u8 where [simp]: "PAGE_CACHE_WRITE_THROUGH = 0x08"
definition PAGE_USER_ACCESS_ALLOW :: u8 where [simp]: "PAGE_USER_ACCESS_ALLOW = 0x04"
definition PAGE_WRITE_ALLOW :: u8 where [simp]: "PAGE_WRITE_ALLOW = 0x02"
definition PAGE_PRESENT :: u8 where [simp]: "PAGE_PRESENT = 0x01"
definition PAGE_FRAME_LOC_MASK :: u32 where [simp]: "PAGE_FRAME_LOC_MASK = 0xFFFFF000"
definition NUM_PAGE_TABLE_ENTRIES :: nat where "NUM_PAGE_TABLE_ENTRIES = 1024"

record page_table_32b =
  cr3 :: addr
  num_levels :: int

text \<open>\<^verbatim>\<open>current_pt\<close> keeps the page table itself instead of a pointer to it: it is only ever written.\<close>

record paging_st = kheap_st +
  kpage_table :: page_table_32b
  current_pt :: "page_table_32b option"
  cr3_reg :: addr
  paging_on :: bool
  tlb :: "u32 \<Rightarrow> u32 option"

text \<open>The bytes of one table: a page, allocated with \<^verbatim>\<open>sizeof(page_table_entry) * NUM_PAGE_TABLE_ENTRIES\<close>.\<close>

abbreviation table_bytes :: u32 where
  "table_bytes \<equiv> 4 * of_nat NUM_PAGE_TABLE_ENTRIES"

definition pte_addr :: "addr \<Rightarrow> u32 \<Rightarrow> addr" where
  "pte_addr pt i = pt + 4 * i"

definition pt_get :: "addr \<Rightarrow> u32 \<Rightarrow> 'a kheap_st_scheme \<Rightarrow> u32" where
  "pt_get pt i s = load32 (mem s) (pte_addr pt i)"

definition pt_set :: "addr \<Rightarrow> u32 \<Rightarrow> u32 \<Rightarrow> 'a kheap_st_scheme \<Rightarrow> 'a kheap_st_scheme" where
  "pt_set pt i v s = s\<lparr>mem := store32 (mem s) (pte_addr pt i) v\<rparr>"

definition paging_load_dir :: "addr \<Rightarrow> 'a paging_st_scheme \<Rightarrow> 'a paging_st_scheme" where
  "paging_load_dir dir s = s\<lparr>cr3_reg := dir, tlb := (\<lambda>_. None)\<rparr>"

definition paging_enable :: "'a paging_st_scheme \<Rightarrow> 'a paging_st_scheme" where
  "paging_enable s = s\<lparr>paging_on := True\<rparr>"

section \<open>Creating page tables\<close>

text \<open>The loop over \<open>j\<close> that fills one second-level table with identity mappings from \<open>offset\<close>.\<close>

definition paging_fill_table :: "u8 \<Rightarrow> addr \<Rightarrow> u32 \<Rightarrow> 'a kheap_st_scheme \<Rightarrow> 'a kheap_st_scheme" where
  "paging_fill_table flags pt_i offset s =
     fold (\<lambda>j s. pt_set pt_i (of_nat j) ((offset + of_nat j * PAGE_SIZE) OR ucast flags) s)
       [0..<NUM_PAGE_TABLE_ENTRIES] s"

text \<open>The clean-up loop over \<open>j\<close> that frees the tables entered in the directory so far.\<close>

definition paging_free_entries :: "addr \<Rightarrow> nat \<Rightarrow> 'a kheap_st_scheme \<Rightarrow> 'a kheap_st_scheme" where
  "paging_free_entries pt_dir i s =
     fold (\<lambda>j s. snd (kfree (pt_get pt_dir (of_nat j) s AND PAGE_FRAME_LOC_MASK) s)) [0..<i] s"

function paging_create_loop ::
    "u8 \<Rightarrow> addr \<Rightarrow> u32 \<Rightarrow> nat \<Rightarrow> 'a kheap_st_scheme \<Rightarrow> int \<times> 'a kheap_st_scheme" where
  "paging_create_loop flags pt_dir offset i s =
     (if i < NUM_PAGE_TABLE_ENTRIES
      then let (pt_i, s) = kzalloc table_bytes s
           in if pt_i = 0
              then let s = snd (kfree pt_dir s); s = paging_free_entries pt_dir i s
                   in (- STATUS_NOT_ENOUGH_MEM, s)
              else let s = paging_fill_table flags pt_i offset s;
                       pt_i_frame_num = pt_i div PAGE_SIZE;
                       s = pt_set pt_dir (of_nat i)
                             (pt_i_frame_num * PAGE_SIZE OR ucast flags OR ucast PAGE_WRITE_ALLOW) s
                   in paging_create_loop flags pt_dir (offset + PAGE_SIZE * of_nat NUM_PAGE_TABLE_ENTRIES)
                        (Suc i) s
      else (STATUS_OK, s))"
  by pat_completeness auto
termination
  by (relation "measure (\<lambda>(flags, dir, offset, i, s). NUM_PAGE_TABLE_ENTRIES - i)") auto

declare paging_create_loop.simps [simp del]

text \<open>Returns the page table that the C code writes through its pointer argument on success.\<close>

definition paging_create_4gb_page_tables ::
    "u8 \<Rightarrow> page_table_32b \<Rightarrow> 'a kheap_st_scheme \<Rightarrow> (int \<times> page_table_32b) \<times> 'a kheap_st_scheme" where
  "paging_create_4gb_page_tables flags page_table s =
     (let (pt_dir, s) = kzalloc table_bytes s
      in if pt_dir = 0 then ((- STATUS_NOT_ENOUGH_MEM, page_table), s)
         else let (res, s) = paging_create_loop flags pt_dir 0 0 s
              in if res < 0 then ((res, page_table), s)
                 else ((STATUS_OK, page_table\<lparr>cr3 := pt_dir, num_levels := 2\<rparr>), s))"

definition paging_init_new_mapping ::
    "page_table_32b \<Rightarrow> 'a kheap_st_scheme \<Rightarrow> (int \<times> page_table_32b) \<times> 'a kheap_st_scheme" where
  "paging_init_new_mapping pt s =
     (let pt = pt\<lparr>num_levels := 2\<rparr>; (pt_dir, s) = kzalloc table_bytes s
      in if pt_dir = 0 then ((- STATUS_NOT_ENOUGH_MEM, pt), s)
         else ((STATUS_OK, pt\<lparr>cr3 := pt_dir\<rparr>), s))"

section \<open>Mapping and unmapping pages\<close>

definition paging_new_vpn_to_pfn ::
    "page_table_32b \<Rightarrow> u32 \<Rightarrow> u32 \<Rightarrow> u8 \<Rightarrow> bool \<Rightarrow> 'a kheap_st_scheme \<Rightarrow> int \<times> 'a kheap_st_scheme" where
  "paging_new_vpn_to_pfn pt vpn pfn flags overwrite s =
     (let dir_idx = drop_bit 10 vpn;
          pte = pt_get (cr3 pt) dir_idx s;
          (second_level_pt, s) =
            (if pte AND ucast PAGE_PRESENT = 0 then kzalloc table_bytes s
             else (pte AND PAGE_FRAME_LOC_MASK, s))
      in if pte AND ucast PAGE_PRESENT = 0 \<and> second_level_pt = 0 then (- STATUS_NOT_ENOUGH_MEM, s)
         else let second_level_pt_idx = vpn mod push_bit 10 1;
                  second_level_pte = pt_get second_level_pt second_level_pt_idx s
              in if second_level_pte AND ucast PAGE_PRESENT \<noteq> 0 \<and> \<not> overwrite
                 then (- STATUS_INVALID_ARG, s)
                 else let page_addr = pfn * PAGE_SIZE;
                          s = pt_set second_level_pt second_level_pt_idx (page_addr OR ucast flags) s;
                          s = (if overwrite
                               then pt_set (cr3 pt) dir_idx (second_level_pt OR ucast flags) s else s)
                      in (STATUS_OK, s))"

definition native_flush_tlb_single :: "u32 \<Rightarrow> 'a paging_st_scheme \<Rightarrow> 'a paging_st_scheme" where
  "native_flush_tlb_single a s = s\<lparr>tlb := (tlb s)(a div PAGE_SIZE := None)\<rparr>"

definition paging_free_vpn :: "page_table_32b \<Rightarrow> u32 \<Rightarrow> 'a paging_st_scheme \<Rightarrow> int \<times> 'a paging_st_scheme" where
  "paging_free_vpn pt vpn s =
     (let dir_idx = drop_bit 10 vpn;
          pte = pt_get (cr3 pt) dir_idx s
      in if pte AND ucast PAGE_PRESENT = 0 then (0, s)
         else let second_level_pt = pte AND PAGE_FRAME_LOC_MASK;
                  second_level_pt_idx = vpn mod push_bit 10 1;
                  second_level_pte = pt_get second_level_pt second_level_pt_idx s
              in if second_level_pte AND ucast PAGE_PRESENT = 0 then (0, s)
                 else let s = pt_set second_level_pt second_level_pt_idx 0 s
                      in (0, native_flush_tlb_single (vpn * PAGE_SIZE) s))"

text \<open>\<^verbatim>\<open>for (j = start; j < end; j++) paging_free_vpn(pt, j)\<close>, for the clean-up and for \<^verbatim>\<open>paging_free_va\<close>.\<close>

definition paging_free_vpns :: "page_table_32b \<Rightarrow> nat \<Rightarrow> nat \<Rightarrow> 'a paging_st_scheme \<Rightarrow> 'a paging_st_scheme" where
  "paging_free_vpns pt start_vpn end_vpn s =
     fold (\<lambda>j s. snd (paging_free_vpn pt (of_nat j) s)) [start_vpn..<end_vpn] s"

function paging_alloc_loop ::
    "page_table_32b \<Rightarrow> u8 \<Rightarrow> nat \<Rightarrow> nat \<Rightarrow> nat \<Rightarrow> 'a paging_st_scheme \<Rightarrow> int \<times> 'a paging_st_scheme" where
  "paging_alloc_loop pt flags start_vpn i end_vpn s =
     (if i < end_vpn
      then let (new_paddr, s) = kzalloc PAGE_SIZE s
           in if new_paddr = 0
              then (- STATUS_NOT_ENOUGH_MEM, paging_free_vpns pt start_vpn i s)
              else let pfn = new_paddr div PAGE_SIZE;
                       (res, s) = paging_new_vpn_to_pfn pt (of_nat i) pfn flags True s
                   in if res < 0 then (res, paging_free_vpns pt start_vpn i s)
                      else paging_alloc_loop pt flags start_vpn (Suc i) end_vpn s
      else (STATUS_OK, s))"
  by pat_completeness auto
termination
  by (relation "measure (\<lambda>(pt, flags, st, i, e, s). e - i)") auto

declare paging_alloc_loop.simps [simp del]

definition paging_alloc_mapping ::
    "page_table_32b \<Rightarrow> u32 \<Rightarrow> u32 \<Rightarrow> u8 \<Rightarrow> 'a paging_st_scheme \<Rightarrow> int \<times> 'a paging_st_scheme" where
  "paging_alloc_mapping pt vaddr_start vaddr_end flags s =
     (if vaddr_start mod PAGE_SIZE \<noteq> 0 \<or> vaddr_end mod PAGE_SIZE \<noteq> 0 then (- STATUS_INVALID_ARG, s)
      else if vaddr_end \<le> vaddr_start then (- STATUS_INVALID_ARG, s)
      else let start_vpn = vaddr_start div PAGE_SIZE;
               end_vpn = vaddr_end div PAGE_SIZE;
               end_vpn = (if vaddr_end mod PAGE_SIZE \<noteq> 0 then end_vpn + 1 else end_vpn)
           in paging_alloc_loop pt flags (unat start_vpn) (unat start_vpn) (unat end_vpn) s)"

definition paging_free_page_table ::
    "page_table_32b \<Rightarrow> 'a kheap_st_scheme \<Rightarrow> ('a kheap_st_scheme, int) outcome" where
  "paging_free_page_table pt s =
     (if num_levels pt = 1 then panic ''single level pages not support yet..!'' s
      else let s = fold (\<lambda>i s. let pte = pt_get (cr3 pt) (of_nat i) s
                               in if pte AND ucast PAGE_PRESENT = 0 then s
                                  else snd (kfree (pte AND PAGE_FRAME_LOC_MASK) s))
                     [0..<NUM_PAGE_TABLE_ENTRIES] s
           in Ret 0 (snd (kfree (cr3 pt) s)))"

definition paging_free_va ::
    "page_table_32b \<Rightarrow> u32 \<Rightarrow> u32 \<Rightarrow> 'a paging_st_scheme \<Rightarrow> int \<times> 'a paging_st_scheme" where
  "paging_free_va pt vaddr_start vaddr_end s =
     (if vaddr_end < vaddr_start then (- STATUS_INVALID_ARG, s)
      else let start_vpn = vaddr_start div PAGE_SIZE;
               end_vpn = vaddr_end div PAGE_SIZE;
               end_vpn = (if vaddr_end mod PAGE_SIZE \<noteq> 0 then end_vpn + 1 else end_vpn)
           in (STATUS_OK, paging_free_vpns pt (unat start_vpn) (unat end_vpn) s))"

definition paging_switch :: "page_table_32b \<Rightarrow> 'a paging_st_scheme \<Rightarrow> 'a paging_st_scheme" where
  "paging_switch pt s = (paging_load_dir (cr3 pt) s)\<lparr>current_pt := Some pt\<rparr>"

definition paging_load_kernel_page_table :: "'a paging_st_scheme \<Rightarrow> 'a paging_st_scheme" where
  "paging_load_kernel_page_table s = paging_switch (kpage_table s) s"

definition kpaging_init :: "'a paging_st_scheme \<Rightarrow> ('a paging_st_scheme, unit) outcome" where
  "kpaging_init s =
     (let ((res, pt), s) = paging_create_4gb_page_tables (PAGE_PRESENT OR PAGE_WRITE_ALLOW) (kpage_table s) s;
          s = s\<lparr>kpage_table := pt\<rparr>
      in if res \<noteq> STATUS_OK then panic ''Failed to create kernel page table'' s
         else Ret () (paging_enable (paging_switch (kpage_table s) s)))"

definition is_page_aligned :: "u32 \<Rightarrow> bool" where
  "is_page_aligned a \<longleftrightarrow> a AND (PAGE_SIZE - 1) = 0"

definition paging_map_page ::
    "page_table_32b \<Rightarrow> u32 \<Rightarrow> u32 \<Rightarrow> u8 \<Rightarrow> 'a kheap_st_scheme \<Rightarrow> int \<times> 'a kheap_st_scheme" where
  "paging_map_page pt virt_addr phys_addr flags s =
     (if num_levels pt \<noteq> 2 then (- STATUS_INVALID_ARG, s)
      else if \<not> is_page_aligned virt_addr \<or> \<not> is_page_aligned phys_addr then (- STATUS_INVALID_ARG, s)
      else let pt_dir = cr3 pt;
               pt_dir_index = virt_addr div (PAGE_SIZE * of_nat NUM_PAGE_TABLE_ENTRIES);
               pt_index = virt_addr mod (PAGE_SIZE * of_nat NUM_PAGE_TABLE_ENTRIES) div PAGE_SIZE;
               pt_i = pt_get pt_dir pt_dir_index s AND PAGE_FRAME_LOC_MASK
           in (0, pt_set pt_i pt_index (phys_addr OR ucast flags) s))"

definition paging_down_align_addr :: "addr \<Rightarrow> addr" where
  "paging_down_align_addr a = (if a mod PAGE_SIZE \<noteq> 0 then a - a mod PAGE_SIZE else a)"

definition paging_up_align_addr :: "addr \<Rightarrow> addr" where
  "paging_up_align_addr a = (if a mod PAGE_SIZE \<noteq> 0 then a + (PAGE_SIZE - a mod PAGE_SIZE) else a)"

function paging_map_loop ::
    "page_table_32b \<Rightarrow> u32 \<Rightarrow> u32 \<Rightarrow> nat \<Rightarrow> u32 \<Rightarrow> u8 \<Rightarrow> 'a kheap_st_scheme \<Rightarrow> int \<times> 'a kheap_st_scheme" where
  "paging_map_loop pt vpn_start pfn_start i vpn_end flags s =
     (if i + unat vpn_start < unat vpn_end
      then let (res, s) = paging_new_vpn_to_pfn pt (vpn_start + of_nat i) (pfn_start + of_nat i) flags True s
           in if res \<noteq> STATUS_OK then (res, s)
              else paging_map_loop pt vpn_start pfn_start (Suc i) vpn_end flags s
      else (STATUS_OK, s))"
  by pat_completeness auto
termination
  by (relation "measure (\<lambda>(pt, vs, ps, i, ve, flags, s). unat ve - i)") auto

declare paging_map_loop.simps [simp del]

definition paging_map_memory_region ::
    "page_table_32b \<Rightarrow> addr \<Rightarrow> addr \<Rightarrow> addr \<Rightarrow> u8 \<Rightarrow> 'a kheap_st_scheme \<Rightarrow> int \<times> 'a kheap_st_scheme" where
  "paging_map_memory_region pt data_va_start data_paddr data_va_end flags s =
     (if \<not> is_page_aligned data_va_start \<or> \<not> is_page_aligned data_paddr \<or> \<not> is_page_aligned data_va_end
      then (- STATUS_INVALID_ARG, s)
      else let vpn_start = data_va_start div PAGE_SIZE;
               vpn_end = data_va_end div PAGE_SIZE;
               pfn_start = data_paddr div PAGE_SIZE
           in if vpn_end \<le> vpn_start then (- STATUS_INVALID_ARG, s)
              else paging_map_loop pt vpn_start pfn_start 0 vpn_end flags s)"

end
