(* ===== verification/Paging_Props.thy ===== *)
theory Paging_Props
  imports Paging
begin

text \<open>
  Facts about the page tables. The specification is \<open>walk\<close>, the two-level lookup of the i386 MMU;
  a page table is well formed (\<open>pt_wf\<close>) when its directory and the tables it points to are
  distinct live heap pages. On well-formed tables every operation of \<open>Paging\<close> changes
  \<open>walk\<close> exactly at the pages it names.
\<close>

section \<open>The MMU\<close>

text \<open>The frame of a virtual page number and the access bits, the conjunction of both levels.\<close>

definition frame_of :: "u32 \<Rightarrow> u32" where
  "frame_of e = e AND PAGE_FRAME_LOC_MASK"

definition present :: "u32 \<Rightarrow> bool" where
  "present e \<longleftrightarrow> e AND 1 \<noteq> 0"

definition walk :: "memory \<Rightarrow> addr \<Rightarrow> u32 \<Rightarrow> (u32 \<times> u32) option" where
  "walk m dir vpn =
     (let pde = load32 m (pte_addr dir (drop_bit 10 vpn));
          pte = load32 m (pte_addr (frame_of pde) (vpn mod 1024))
      in if present pde \<and> present pte then Some (frame_of pte, pde AND pte AND 0xFFF) else None)"

definition translate :: "memory \<Rightarrow> addr \<Rightarrow> addr \<Rightarrow> addr option" where
  "translate m dir va = map_option (\<lambda>(f, _). f + va mod 4096) (walk m dir (va div 4096))"

section \<open>Pages and their words\<close>

lemma of_nat_num_entries [simp]: "of_nat NUM_PAGE_TABLE_ENTRIES = (1024 :: u32)"
  by (simp add: NUM_PAGE_TABLE_ENTRIES_def)

lemma unat_div_1024: "unat ((w :: u32) div 1024) = unat w div 1024"
  by (subst unat_div) simp

lemma unat_div_4096: "unat ((w :: u32) div 4096) = unat w div 4096"
  by (subst unat_div) simp

lemma unat_mod_1024: "unat ((w :: u32) mod 1024) = unat w mod 1024"
  by (subst unat_mod) simp

lemma unat_mod_4096: "unat ((w :: u32) mod 4096) = unat w mod 4096"
  by (subst unat_mod) simp

lemma unat_vpn_dir: "unat (drop_bit 10 w :: u32) = unat (w :: u32) div 1024"
  by (simp add: drop_bit_eq_div unat_div_1024)


definition page_base :: "addr \<Rightarrow> bool" where
  "page_base p \<longleftrightarrow> unat p mod 4096 = 0"

lemma page_base_space: "page_base p \<Longrightarrow> unat p + 4096 \<le> 4294967296"
proof -
  assume "page_base p"
  then have "4096 dvd unat p" by (simp add: page_base_def mod_0_imp_dvd)
  then obtain k where k: "unat p = 4096 * k" by (rule dvdE)
  have "unat p < 4294967296" by simp
  then have "k < 1048576" unfolding k by simp
  then show ?thesis unfolding k by simp
qed

lemma unat_pte_addr:
  assumes "page_base p" and "i < 1024"
  shows "unat (pte_addr p i) = unat p + 4 * unat i"
proof -
  have i: "unat i < 1024" using assms(2) by (simp add: word_less_nat_alt)
  have "pte_addr p i = p + of_nat (4 * unat i)" by (simp add: pte_addr_def)
  moreover have "unat p + 4 * unat i < 2 ^ 32" using page_base_space [OF assms(1)] i by simp
  ultimately show ?thesis by (metis unat_add_small)
qed

lemma pte_addr_inj:
  assumes "page_base p" and "page_base q" and "i < 1024" and "j < 1024"
  shows "pte_addr p i = pte_addr q j \<longleftrightarrow> p = q \<and> i = j"
proof
  assume eq: "pte_addr p i = pte_addr q j"
  have ij: "unat i < 1024" "unat j < 1024" using assms(3,4) by (simp_all add: word_less_nat_alt)
  have e: "unat p + 4 * unat i = unat q + 4 * unat j"
    using unat_pte_addr [OF assms(1,3)] unat_pte_addr [OF assms(2,4)] eq by simp
  obtain k l where kl: "unat p = 4096 * k" "unat q = 4096 * l"
    using assms(1,2) unfolding page_base_def by (metis mod_0_imp_dvd dvdE)
  have "k = l" using e ij unfolding kl by linarith
  then show "p = q \<and> i = j" using e kl by (simp add: word_unat_eq_iff)
qed simp

lemma pte_addr_aligned4: "page_base p \<Longrightarrow> i < 1024 \<Longrightarrow> aligned4 (pte_addr p i)"
proof -
  assume a: "page_base p" "i < 1024"
  then obtain k where k: "unat p = 4096 * k"
    unfolding page_base_def by (metis mod_0_imp_dvd dvdE)
  have "unat p + 4 * unat i = 4 * (1024 * k + unat i)" using k by (simp add: algebra_simps)
  then show ?thesis by (simp add: aligned4_def unat_pte_addr [OF a])
qed

lemma load_store_pte:
  assumes "page_base p" and "page_base q" and "i < 1024" and "j < 1024"
  shows "load32 (store32 m (pte_addr p i) v) (pte_addr q j) =
           (if p = q \<and> i = j then v else load32 m (pte_addr q j))"
  using pte_addr_inj [OF assms] load32_store32_same [of m "pte_addr p i" v]
    load32_store32_other [OF pte_addr_aligned4 [OF assms(1,3)] pte_addr_aligned4 [OF assms(2,4)], of m v]
  by metis

lemma pt_get_set [paging_simps]:
  assumes "page_base p" and "page_base q" and "i < 1024" and "j < 1024"
  shows "pt_get q j (pt_set p i v s) = (if p = q \<and> i = j then v else pt_get q j s)"
  using load_store_pte [OF assms] by (simp add: pt_get_def pt_set_def)

lemma pte_addr_in_page:
  assumes "page_base p" and "i < 1024" and "k < 4"
  shows "in_block (pte_addr p i + of_nat k) p 4096"
proof -
  have i: "unat i < 1024" using assms(2) by (simp add: word_less_nat_alt)
  have "pte_addr p i + of_nat k - p = of_nat (4 * unat i + k)" by (simp add: pte_addr_def)
  moreover have "unat (of_nat (4 * unat i + k) :: u32) = 4 * unat i + k"
    by (rule unat_of_nat32) (use i assms(3) in simp)
  ultimately have "unat (pte_addr p i + of_nat k - p) = 4 * unat i + k" by (simp only:)
  with i assms(3) show ?thesis unfolding in_block_def by linarith
qed

lemma pt_get_cong:
  assumes "\<And>a. in_block a p 4096 \<Longrightarrow> mem s a = mem t a" and "page_base p" and "i < 1024"
  shows "pt_get p i s = pt_get p i t"
  unfolding pt_get_def by (rule load32_cong) (simp add: assms pte_addr_in_page)

lemma store_in_page:
  assumes "page_base p" and "i < 1024" and "\<not> in_block a p 4096"
  shows "store32 m (pte_addr p i) v a = m a"
  using assms pte_addr_in_page by (intro store32_other_byte) blast

text \<open>Indices taken from virtual page numbers.\<close>

lemma vpn_indices:
  assumes "unat (vpn :: u32) < 1048576"
  shows "drop_bit 10 vpn < (1024 :: u32)" and "vpn mod 1024 < (1024 :: u32)"
proof -
  show "drop_bit 10 vpn < (1024 :: u32)"
    using assms unfolding word_less_nat_alt unat_vpn_dir by simp
  show "vpn mod 1024 < (1024 :: u32)"
    unfolding word_less_nat_alt unat_mod_1024 by simp
qed

lemma vpn_split_inj:
  assumes "drop_bit 10 (v :: u32) = drop_bit 10 w" and "v mod 1024 = w mod (1024 :: u32)"
  shows "v = w"
proof -
  have "unat v div 1024 = unat w div 1024" "unat v mod 1024 = unat w mod 1024"
    using assms unat_vpn_dir unat_mod_1024 by metis+
  then have "unat v = unat w" by (metis div_mult_mod_eq)
  then show ?thesis by (simp add: word_unat_eq_iff)
qed

lemma vpn_bound: "unat ((va :: u32) div 4096) < 1048576"
proof -
  have "unat va < 4294967296" by simp
  then show ?thesis unfolding unat_div_4096 by linarith
qed

section \<open>Entries: frames and flags\<close>

lemma flags_high: "n \<ge> 8 \<Longrightarrow> \<not> bit (ucast (f :: u8) :: u32) n"
  by (auto simp: bit_simps dest: bit_imp_le_length)

lemma bit_frame_of: "bit (frame_of e) n \<longleftrightarrow> bit e n \<and> 12 \<le> n"
proof -
  have eq: "(0xFFFFF000 :: u32) = push_bit 12 (mask 20)" by (simp add: mask_eq_exp_minus_1)
  show ?thesis
    unfolding frame_of_def PAGE_FRAME_LOC_MASK_def eq bit_and_iff bit_push_bit_iff bit_mask_iff
    by (auto dest: bit_imp_le_length)
qed

lemma page_base_take_bit: "page_base p \<longleftrightarrow> take_bit 12 p = 0"
proof -
  have "take_bit 12 p = p mod 4096" by (simp add: take_bit_eq_mod)
  then show ?thesis by (simp add: page_base_def word_unat_eq_iff unat_mod_4096)
qed

lemma page_base_low_bits: "page_base p \<Longrightarrow> n < 12 \<Longrightarrow> \<not> bit p n"
  unfolding page_base_take_bit by (metis bit_take_bit_iff bit_0_eq bot_apply bot_bool_def)

lemma frame_of_entry [paging_simps]: "page_base p \<Longrightarrow> frame_of (p OR ucast (f :: u8)) = p"
proof (rule bit_word_eqI)
  fix n assume p: "page_base p" and "n < LENGTH(32)"
  show "bit (frame_of (p OR ucast f)) n \<longleftrightarrow> bit p n"
    using \<open>n < LENGTH(32)\<close> flags_high [of n f] page_base_low_bits [OF p, of n]
    by (cases "n < 12") (auto simp: bit_frame_of bit_or_iff)
qed

lemma page_base_frame_of: "page_base (frame_of e)"
  unfolding page_base_take_bit
  by (rule bit_word_eqI) (auto simp: bit_take_bit_iff bit_frame_of)

lemma and_one_bit: "(w :: u32) AND 1 \<noteq> 0 \<longleftrightarrow> bit w 0"
  by (simp add: and_one_eq bit_0 odd_iff_mod_2_eq_one)

lemma present_entry [paging_simps]:
  "page_base p \<Longrightarrow> present (p OR ucast (f :: u8)) \<longleftrightarrow> bit f 0"
  unfolding present_def and_one_bit using page_base_low_bits [of p 0] by (simp add: bit_simps)

lemma present_0 [simp]: "\<not> present 0"
  by (simp add: present_def)

lemma present_alt: "e AND 1 = 0 \<longleftrightarrow> \<not> present e"
  by (simp add: present_def)

lemma page_base_mult: "page_base (w * 4096)"
proof -
  have "w * 4096 = push_bit 12 w" by (simp add: push_bit_eq_mult)
  then show ?thesis unfolding page_base_take_bit by (simp only: take_bit_push_bit) simp
qed

lemma page_base_div_mult: "page_base p \<Longrightarrow> p div 4096 * 4096 = p"
proof -
  assume "page_base p"
  then have "p mod 4096 = 0" by (simp add: page_base_def word_unat_eq_iff unat_mod_4096)
  then show ?thesis using div_mult_mod_eq [of p 4096] by simp
qed

lemma entry_access_bits:
  assumes "page_base q"
  shows "(q OR ucast (f :: u8)) AND e AND 0xFFF = ucast f AND e"
proof (rule bit_word_eqI)
  fix n assume "n < LENGTH(32)"
  have m: "(0xFFF :: u32) = mask 12" by (simp add: mask_eq_exp_minus_1)
  show "bit ((q OR ucast f) AND e AND 0xFFF) n \<longleftrightarrow> bit (ucast f AND e) n"
    unfolding m bit_and_iff bit_or_iff bit_mask_iff
    using page_base_low_bits [OF assms, of n] flags_high [of n f] \<open>n < LENGTH(32)\<close>
    by (cases "n < 12") auto
qed

lemma flags_absorb: "ucast (f :: u8) AND (p OR ucast f) = (ucast f :: u32)"
  by (rule bit_word_eqI) (auto simp: bit_and_iff bit_or_iff)

lemma access_bits_subset: "a AND b AND c = (d :: u32) \<Longrightarrow> d AND b = d"
  by (metis and.assoc and.commute and.idem)

section \<open>Tables in the heap\<close>

lemma live_page_base: "kheap_ok s \<Longrightarrow> (p, k) \<in> live s \<Longrightarrow> page_base p"
  using kh.allocated_aligned [of s p k] by (simp add: page_base_def)

lemma pages_of_4096 [simp]: "pages_of 4096 = 1"
  by (simp add: pages_of_def blocks_of_alt)

lemma kzalloc_page:
  assumes "kheap_ok s" and "kzalloc 4096 s = (q, t)"
  shows "kheap_ok t"
    and "q = 0 \<Longrightarrow> live t = live s"
    and "q \<noteq> 0 \<Longrightarrow> live t = insert (q, 1) (live s) \<and> (q, 1) \<notin> live s \<and> page_base q"
  using kh.alloc_ok [OF assms] kh.alloc_null [of s 4096 t] kh.alloc_new [OF assms] assms
    live_page_base [OF kh.alloc_ok [OF assms], of q 1]
  by auto

lemma kzalloc_page_new:
  assumes "kheap_ok s" and "kzalloc 4096 s = (q, t)" and "q \<noteq> 0" and "i < 1024"
  shows "pt_get q i t = 0"
proof -
  have "mem t a = 0" if "in_block a q 4096" for a
    using kh.alloc_contents [OF assms(1,2)] that by simp
  moreover have "page_base q" using kzalloc_page(3) [OF assms(1-3)] by simp
  ultimately show ?thesis
    unfolding pt_get_def using assms(4) by (intro load32_zero) (simp add: pte_addr_in_page)
qed

lemma kzalloc_page_keeps:
  assumes "kheap_ok s" and "kzalloc 4096 s = (q, t)" and "(p, k) \<in> live s" and "in_block a p (4096 * k)"
  shows "mem t a = mem s a"
proof (cases "q = 0")
  case True
  have p: "4096 \<le> unat p" "unat p + 4096 * k \<le> 2 ^ 32"
    using kh.allocated_aligned [OF assms(1,3)] by auto
  then have "4096 \<le> unat a" using assms(4) by (simp add: in_block_range)
  then have "\<not> in_block a 0 4096" by (simp add: in_block_def)
  then show ?thesis using kh.alloc_contents [OF assms(1,2)] True by simp
next
  case False
  then show ?thesis using kh.alloc_keeps_contents [OF assms(1,2) _ _ assms(3,4)] by simp
qed

lemma kzalloc_pt_get:
  assumes "kheap_ok s" and "kzalloc 4096 s = (q, t)" and "(p, 1) \<in> live s" and "i < 1024"
  shows "pt_get p i t = pt_get p i s"
  using assms kzalloc_page_keeps [OF assms(1-3)] live_page_base [OF assms(1,3)]
  by (intro pt_get_cong) simp_all

lemma pt_set_heap [simp]:
  "kheap_ok (pt_set p i v s) = kheap_ok s" "live (pt_set p i v s) = live s"
  by (simp_all add: pt_set_def)

text \<open>
  A well-formed page table: the directory and the tables of its present entries are live heap
  pages, all of them different.
\<close>

definition pt_wf :: "'a kheap_st_scheme \<Rightarrow> page_table_32b \<Rightarrow> bool" where
  "pt_wf s pt \<longleftrightarrow> kheap_ok s \<and> (cr3 pt, 1) \<in> live s \<and>
     (\<forall>i < 1024. present (pt_get (cr3 pt) i s) \<longrightarrow>
        (frame_of (pt_get (cr3 pt) i s), 1) \<in> live s \<and> frame_of (pt_get (cr3 pt) i s) \<noteq> cr3 pt) \<and>
     (\<forall>i < 1024. \<forall>j < 1024. present (pt_get (cr3 pt) i s) \<longrightarrow> present (pt_get (cr3 pt) j s) \<longrightarrow>
        frame_of (pt_get (cr3 pt) i s) = frame_of (pt_get (cr3 pt) j s) \<longrightarrow> i = j)"

lemma pt_wfD:
  assumes "pt_wf s pt"
  shows "kheap_ok s" and "(cr3 pt, 1) \<in> live s" and "page_base (cr3 pt)"
    and "i < 1024 \<Longrightarrow> present (pt_get (cr3 pt) i s) \<Longrightarrow>
           (frame_of (pt_get (cr3 pt) i s), 1) \<in> live s \<and> frame_of (pt_get (cr3 pt) i s) \<noteq> cr3 pt"
    and "i < 1024 \<Longrightarrow> j < 1024 \<Longrightarrow> present (pt_get (cr3 pt) i s) \<Longrightarrow> present (pt_get (cr3 pt) j s) \<Longrightarrow>
           frame_of (pt_get (cr3 pt) i s) = frame_of (pt_get (cr3 pt) j s) \<Longrightarrow> i = j"
  using assms live_page_base unfolding pt_wf_def by blast+

lemma walk_pt:
  "walk (mem s) dir vpn =
     (let pde = pt_get dir (drop_bit 10 vpn) s; pte = pt_get (frame_of pde) (vpn mod 1024) s
      in if present pde \<and> present pte then Some (frame_of pte, pde AND pte AND 0xFFF) else None)"
  by (simp add: walk_def pt_get_def)

text \<open>The second-level table that a mapping goes to: the present one, or a new zeroed page.\<close>

definition second_level :: "page_table_32b \<Rightarrow> u32 \<Rightarrow> 'a kheap_st_scheme \<Rightarrow> addr \<times> 'a kheap_st_scheme" where
  "second_level pt i s =
     (if present (pt_get (cr3 pt) i s) then (frame_of (pt_get (cr3 pt) i s), s) else kzalloc 4096 s)"

lemma new_vpn_eq:
  "paging_new_vpn_to_pfn pt vpn pfn flags True s =
     (let (q, t) = second_level pt (drop_bit 10 vpn) s
      in if \<not> present (pt_get (cr3 pt) (drop_bit 10 vpn) s) \<and> q = 0 then (- STATUS_NOT_ENOUGH_MEM, t)
         else (STATUS_OK, pt_set (cr3 pt) (drop_bit 10 vpn) (q OR ucast flags)
                 (pt_set q (vpn mod 1024) (pfn * 4096 OR ucast flags) t)))"
  by (simp add: paging_new_vpn_to_pfn_def second_level_def present_alt frame_of_def Let_def
      split: prod.split)

lemma second_level_fresh:
  assumes "pt_wf s pt" and "i < 1024" and "second_level pt i s = (q, t)"
    and "present (pt_get (cr3 pt) i s) \<or> q \<noteq> 0"
  shows "kheap_ok t" and "(q, 1) \<in> live t" and "live s \<subseteq> live t" and "q \<noteq> cr3 pt"
    and "\<And>j. j < 1024 \<Longrightarrow> j \<noteq> i \<Longrightarrow> present (pt_get (cr3 pt) j s) \<Longrightarrow> frame_of (pt_get (cr3 pt) j s) \<noteq> q"
    and "\<And>p j. (p, 1) \<in> live s \<Longrightarrow> j < 1024 \<Longrightarrow> pt_get p j t = pt_get p j s"
    and "\<And>j. j < 1024 \<Longrightarrow> \<not> present (pt_get (cr3 pt) i s) \<Longrightarrow> pt_get q j t = 0"
proof -
  note wf = pt_wfD [OF assms(1)]
  have "kheap_ok t \<and> (q, 1) \<in> live t \<and> live s \<subseteq> live t \<and> q \<noteq> cr3 pt \<and>
    (\<forall>j. j < 1024 \<longrightarrow> j \<noteq> i \<longrightarrow> present (pt_get (cr3 pt) j s) \<longrightarrow> frame_of (pt_get (cr3 pt) j s) \<noteq> q) \<and>
    (\<forall>p j. (p, 1) \<in> live s \<longrightarrow> j < 1024 \<longrightarrow> pt_get p j t = pt_get p j s) \<and>
    (\<forall>j. j < 1024 \<longrightarrow> \<not> present (pt_get (cr3 pt) i s) \<longrightarrow> pt_get q j t = 0)"
  proof (cases "present (pt_get (cr3 pt) i s)")
    case True
    with assms(3) have "q = frame_of (pt_get (cr3 pt) i s)" "t = s" by (auto simp: second_level_def)
    with True wf(1) wf(4) [OF assms(2)] wf(5) [OF assms(2)] show ?thesis by (simp, metis)
  next
    case False
    with assms(3,4) have z: "kzalloc 4096 s = (q, t)" "q \<noteq> 0" by (simp_all add: second_level_def)
    have "live t = insert (q, 1) (live s)" "(q, 1) \<notin> live s"
      using kzalloc_page(3) [OF wf(1) z] by auto
    then show ?thesis
      using kzalloc_page(1) [OF wf(1) z(1)] wf(2,4) kzalloc_pt_get [OF wf(1) z(1)]
        kzalloc_page_new [OF wf(1) z] by fastforce
  qed
  then show "kheap_ok t" and "(q, 1) \<in> live t" and "live s \<subseteq> live t" and "q \<noteq> cr3 pt"
    and "\<And>j. j < 1024 \<Longrightarrow> j \<noteq> i \<Longrightarrow> present (pt_get (cr3 pt) j s) \<Longrightarrow> frame_of (pt_get (cr3 pt) j s) \<noteq> q"
    and "\<And>p j. (p, 1) \<in> live s \<Longrightarrow> j < 1024 \<Longrightarrow> pt_get p j t = pt_get p j s"
    and "\<And>j. j < 1024 \<Longrightarrow> \<not> present (pt_get (cr3 pt) i s) \<Longrightarrow> pt_get q j t = 0" by blast+
qed

section \<open>Mapping one page\<close>

text \<open>
  The entries after entering a mapping in table \<open>q\<close>: the directory entry and the table entry are
  rewritten, all other words of the page table are as before.
\<close>

lemma new_vpn_entries:
  assumes "pt_wf s pt" and "i < 1024" and "k < 1024" and "second_level pt i s = (q, t)"
    and "present (pt_get (cr3 pt) i s) \<or> q \<noteq> 0"
    and "u = pt_set (cr3 pt) i (q OR ucast (f :: u8)) (pt_set q k e t)"
  shows "j < 1024 \<Longrightarrow> pt_get (cr3 pt) j u = (if j = i then q OR ucast f else pt_get (cr3 pt) j s)"
    and "l < 1024 \<Longrightarrow> pt_get q l u = (if l = k then e else pt_get q l t)"
    and "j < 1024 \<Longrightarrow> j \<noteq> i \<Longrightarrow> present (pt_get (cr3 pt) j s) \<Longrightarrow> l < 1024 \<Longrightarrow>
           pt_get (frame_of (pt_get (cr3 pt) j s)) l u = pt_get (frame_of (pt_get (cr3 pt) j s)) l s"
proof -
  note wf = pt_wfD [OF assms(1)] and fresh = second_level_fresh [OF assms(1,2,4,5)]
  have q: "page_base q" using live_page_base [OF fresh(1,2)] .
  have get: "pt_get p l u = (if p = cr3 pt \<and> l = i then q OR ucast f
      else if p = q \<and> l = k then e else pt_get p l t)" if "page_base p" "l < 1024" for p l
    using assms(2,3,6) q wf(3) that by (simp add: pt_get_set)
  show "j < 1024 \<Longrightarrow> pt_get (cr3 pt) j u = (if j = i then q OR ucast f else pt_get (cr3 pt) j s)"
    using get [OF wf(3)] fresh(4,6) wf(2) by auto
  show "l < 1024 \<Longrightarrow> pt_get q l u = (if l = k then e else pt_get q l t)"
    using get [OF q] fresh(4) by simp
  show "j < 1024 \<Longrightarrow> j \<noteq> i \<Longrightarrow> present (pt_get (cr3 pt) j s) \<Longrightarrow> l < 1024 \<Longrightarrow>
      pt_get (frame_of (pt_get (cr3 pt) j s)) l u = pt_get (frame_of (pt_get (cr3 pt) j s)) l s"
    using get [OF page_base_frame_of] wf(4) fresh(5,6) by auto
qed

lemma new_vpn_wf:
  assumes "pt_wf s pt" and "i < 1024" and "k < 1024" and "second_level pt i s = (q, t)"
    and "present (pt_get (cr3 pt) i s) \<or> q \<noteq> 0"
    and "u = pt_set (cr3 pt) i (q OR ucast (f :: u8)) (pt_set q k e t)"
  shows "pt_wf u pt"
proof -
  note wf = pt_wfD [OF assms(1)] and fresh = second_level_fresh [OF assms(1,2,4,5)]
    and ent = new_vpn_entries(1) [OF assms]
  have q: "frame_of (q OR ucast f) = q" using live_page_base [OF fresh(1,2)] by (simp add: frame_of_entry)
  have live: "kheap_ok u" "live u = live t" using fresh(1) assms(6) by simp_all
  have "frame_of (pt_get (cr3 pt) j u) = (if j = i then q else frame_of (pt_get (cr3 pt) j s))"
    if "j < 1024" for j using ent [OF that] q by simp
  then show ?thesis
    unfolding pt_wf_def live using live(1) fresh(2-5) wf(2,4,5) ent by (auto 0 3) metis
qed

text \<open>What the MMU sees after a mapping has been entered.\<close>

lemma new_vpn_walk:
  assumes "pt_wf s pt" and "unat vpn < 1048576" and "unat v < 1048576" and "bit f 0"
    and "paging_new_vpn_to_pfn pt vpn pfn f True s = (STATUS_OK, u)"
  shows "v = vpn \<Longrightarrow> walk (mem u) (cr3 pt) v = Some (pfn * 4096, ucast f)"
    and "v \<noteq> vpn \<Longrightarrow> walk (mem u) (cr3 pt) v = (if drop_bit 10 v = drop_bit 10 vpn
           then map_option (\<lambda>(fr, _). (fr, ucast f AND
                  pt_get (frame_of (pt_get (cr3 pt) (drop_bit 10 v) s)) (v mod 1024) s))
                (walk (mem s) (cr3 pt) v)
           else walk (mem s) (cr3 pt) v)"
proof -
  let ?i = "drop_bit 10 vpn" and ?k = "vpn mod 1024" and ?j = "drop_bit 10 v" and ?l = "v mod 1024"
  note idx = vpn_indices [OF assms(2)] vpn_indices [OF assms(3)]
  obtain q t where sl: "second_level pt ?i s = (q, t)" by fastforce
  with assms(5) have ok: "present (pt_get (cr3 pt) ?i s) \<or> q \<noteq> 0"
    and u: "u = pt_set (cr3 pt) ?i (q OR ucast f) (pt_set q ?k (pfn * 4096 OR ucast f) t)"
    by (auto simp: new_vpn_eq split: if_splits)
  note ent = new_vpn_entries [OF assms(1) idx(1,2) sl ok u]
    and fresh = second_level_fresh [OF assms(1) idx(1) sl ok]
  have q: "page_base q" using live_page_base [OF fresh(1,2)] .
  note fr = frame_of_entry [OF q, of f] present_entry [OF q, of f] assms(4)
  show "walk (mem u) (cr3 pt) v = Some (pfn * 4096, ucast f)" if "v = vpn"
    using that ent(1) [OF idx(1)] ent(2) [OF idx(2)] fr page_base_mult [of pfn]
    by (simp add: walk_pt Let_def frame_of_entry present_entry entry_access_bits [OF q] flags_absorb)
  show "walk (mem u) (cr3 pt) v = (if ?j = ?i
           then map_option (\<lambda>(fr, _). (fr, ucast f AND pt_get (frame_of (pt_get (cr3 pt) ?j s)) ?l s))
                (walk (mem s) (cr3 pt) v)
           else walk (mem s) (cr3 pt) v)" if "v \<noteq> vpn"
  proof (cases "?j = ?i")
    case True
    then have l: "?l \<noteq> ?k" using that vpn_split_inj by blast
    have tab: "pt_get q ?l t = (if present (pt_get (cr3 pt) ?i s)
        then pt_get (frame_of (pt_get (cr3 pt) ?i s)) ?l s else 0)"
      using sl fresh(7) [OF idx(4)] by (auto simp: second_level_def split: if_splits)
    show ?thesis
      using True l ent(1) [OF idx(3)] ent(2) [OF idx(4)] fr tab
      by (simp add: walk_pt Let_def entry_access_bits [OF q])
  next
    case False
    then show ?thesis
      using ent(1) [OF idx(3)] ent(3) [OF idx(3) _ _ idx(4)]
      by (cases "present (pt_get (cr3 pt) ?j s)") (simp_all add: walk_pt Let_def)
  qed
qed

lemma new_vpn_result:
  assumes "pt_wf s pt" and "unat vpn < 1048576" and "paging_new_vpn_to_pfn pt vpn pfn f True s = (r, u)"
  shows "r = STATUS_OK \<or> r = - STATUS_NOT_ENOUGH_MEM"
    and "pt_wf u pt" and "live s \<subseteq> live u"
    and "r \<noteq> STATUS_OK \<Longrightarrow> unat v < 1048576 \<Longrightarrow> walk (mem u) (cr3 pt) v = walk (mem s) (cr3 pt) v"
proof -
  let ?i = "drop_bit 10 vpn"
  note idx = vpn_indices [OF assms(2)]
  obtain q t where sl: "second_level pt ?i s = (q, t)" by fastforce
  show "r = STATUS_OK \<or> r = - STATUS_NOT_ENOUGH_MEM"
    using assms(3) sl by (auto simp: new_vpn_eq split: if_splits)
  have "pt_wf u pt \<and> live s \<subseteq> live u \<and> (r \<noteq> STATUS_OK \<longrightarrow> (unat v < 1048576 \<longrightarrow>
          walk (mem u) (cr3 pt) v = walk (mem s) (cr3 pt) v))"
  proof (cases "present (pt_get (cr3 pt) ?i s) \<or> q \<noteq> 0")
    case True
    with assms(3) sl have "u = pt_set (cr3 pt) ?i (q OR ucast f)
        (pt_set q (vpn mod 1024) (pfn * 4096 OR ucast f) t)" "r = STATUS_OK"
      by (auto simp: new_vpn_eq split: if_splits)
    then show ?thesis
      using new_vpn_wf [OF assms(1) idx sl True] second_level_fresh(3) [OF assms(1) idx(1) sl True] by simp
  next
    case False
    with assms(3) sl have z: "kzalloc 4096 s = (0, u)"
      by (auto simp: new_vpn_eq second_level_def split: if_splits)
    note wf = pt_wfD [OF assms(1)]
    have same: "pt_get p j u = pt_get p j s" if "(p, 1) \<in> live s" "j < 1024" for p j
      using kzalloc_pt_get [OF wf(1) z that] .
    have "live u = live s" "kheap_ok u" using kzalloc_page [OF wf(1) z] by simp_all
    moreover from this have "pt_wf u pt"
      using assms(1) same [OF wf(2)] unfolding pt_wf_def by simp
    moreover have "walk (mem u) (cr3 pt) v = walk (mem s) (cr3 pt) v" if "unat v < 1048576"
      using vpn_indices [OF that] same [OF wf(2)] same wf(4)
      by (cases "present (pt_get (cr3 pt) (drop_bit 10 v) s)") (simp_all add: walk_pt Let_def)
    ultimately show ?thesis by simp
  qed
  then show "pt_wf u pt" and "live s \<subseteq> live u"
    and "r \<noteq> STATUS_OK \<Longrightarrow> unat v < 1048576 \<Longrightarrow> walk (mem u) (cr3 pt) v = walk (mem s) (cr3 pt) v"
    by blast+
qed

lemma new_vpn_keeps:
  assumes "pt_wf s pt" and "unat vpn < 1048576" and "unat v < 1048576" and "bit f 0" and "v \<noteq> vpn"
    and "paging_new_vpn_to_pfn pt vpn pfn f True s = (r, u)"
  shows "map_option fst (walk (mem u) (cr3 pt) v) = map_option fst (walk (mem s) (cr3 pt) v)"
    and "walk (mem s) (cr3 pt) v = Some (fr, ucast f) \<Longrightarrow> walk (mem u) (cr3 pt) v = Some (fr, ucast f)"
proof -
  let ?e = "pt_get (frame_of (pt_get (cr3 pt) (drop_bit 10 v) s)) (v mod 1024) s"
  have w: "walk (mem u) (cr3 pt) v = (if r = STATUS_OK \<and> drop_bit 10 v = drop_bit 10 vpn
      then map_option (\<lambda>(fr, _). (fr, ucast f AND ?e)) (walk (mem s) (cr3 pt) v)
      else walk (mem s) (cr3 pt) v)"
    using new_vpn_result(4) [OF assms(1,2,6) _ assms(3)] new_vpn_walk(2) [OF assms(1-4) _ assms(5)] assms(6)
    by (cases "r = STATUS_OK") simp_all
  show "map_option fst (walk (mem u) (cr3 pt) v) = map_option fst (walk (mem s) (cr3 pt) v)"
    unfolding w by (simp add: option.map_comp comp_def case_prod_unfold)
  assume sw: "walk (mem s) (cr3 pt) v = Some (fr, ucast f)"
  then have "pt_get (cr3 pt) (drop_bit 10 v) s AND ?e AND 0xFFF = ucast f"
    by (simp add: walk_pt Let_def split: if_splits)
  then have "ucast f AND ?e = ucast f" by (rule access_bits_subset)
  with sw show "walk (mem u) (cr3 pt) v = Some (fr, ucast f)"
    unfolding w by (simp only: option.map prod.case if_cancel)
qed

section \<open>Mapping a region\<close>

lemma map_loop_walk:
  assumes "pt_wf s pt" and "unat ve \<le> 1048576" and "bit f 0"
    and "paging_map_loop pt vs ps i ve f s = (r, u)"
  shows "pt_wf u pt \<and> live s \<subseteq> live u \<and> (r = STATUS_OK \<or> r = - STATUS_NOT_ENOUGH_MEM) \<and>
    (r = STATUS_OK \<longrightarrow> (\<forall>v. unat vs + i \<le> unat v \<longrightarrow> unat v < unat ve \<longrightarrow>
       walk (mem u) (cr3 pt) v = Some ((ps + (v - vs)) * 4096, ucast f))) \<and>
    (\<forall>v. unat v < 1048576 \<longrightarrow> (unat v < unat vs + i \<or> unat ve \<le> unat v) \<longrightarrow>
       map_option fst (walk (mem u) (cr3 pt) v) = map_option fst (walk (mem s) (cr3 pt) v) \<and>
       (\<forall>fr. walk (mem s) (cr3 pt) v = Some (fr, ucast f) \<longrightarrow> walk (mem u) (cr3 pt) v = Some (fr, ucast f)))"
  using assms
proof (induction pt vs ps i ve f s rule: paging_map_loop.induct)
  case (1 pt vs ps i ve f s)
  show ?case
  proof (cases "i + unat vs < unat ve")
    case False
    then have "r = STATUS_OK" "u = s"
      using "1.prems"(4) by (simp_all add: paging_map_loop.simps [of pt vs ps i ve f s])
    with False "1.prems"(1) show ?thesis by auto
  next
    case True
    let ?v = "vs + of_nat i"
    obtain r1 t where step: "paging_new_vpn_to_pfn pt ?v (ps + of_nat i) f True s = (r1, t)" by fastforce
    have uv: "unat ?v = unat vs + i" "unat ?v < 1048576"
      using True "1.prems"(2) unat_add_small [of vs i] by simp_all
    have at: "v = ?v \<longleftrightarrow> unat v = unat vs + i" for v using uv(1) by (metis word_unat_eq_iff)
    note res = new_vpn_result [OF "1.prems"(1) uv(2) step]
      and keep = new_vpn_keeps [OF "1.prems"(1) uv(2) _ "1.prems"(3) _ step]
    show ?thesis
    proof (cases "r1 = STATUS_OK")
      case False
      then have "r = r1" "u = t"
        using True "1.prems"(4) step by (simp_all add: paging_map_loop.simps [of pt vs ps i ve f s])
      with False res keep True uv(1) show ?thesis by (auto simp: at)
    next
      case r1: True
      then have "paging_map_loop pt vs ps (Suc i) ve f t = (r, u)"
        using True "1.prems"(4) step by (simp add: paging_map_loop.simps [of pt vs ps i ve f s])
      then have IH: "pt_wf u pt \<and> live t \<subseteq> live u \<and> (r = STATUS_OK \<or> r = - STATUS_NOT_ENOUGH_MEM) \<and>
        (r = STATUS_OK \<longrightarrow> (\<forall>v. unat vs + Suc i \<le> unat v \<longrightarrow> unat v < unat ve \<longrightarrow>
           walk (mem u) (cr3 pt) v = Some ((ps + (v - vs)) * 4096, ucast f))) \<and>
        (\<forall>v. unat v < 1048576 \<longrightarrow> (unat v < unat vs + Suc i \<or> unat ve \<le> unat v) \<longrightarrow>
           map_option fst (walk (mem u) (cr3 pt) v) = map_option fst (walk (mem t) (cr3 pt) v) \<and>
           (\<forall>fr. walk (mem t) (cr3 pt) v = Some (fr, ucast f) \<longrightarrow> walk (mem u) (cr3 pt) v = Some (fr, ucast f)))"
        using "1.IH" [OF True step [symmetric]] r1 res(2) "1.prems"(2,3) by simp
      have here: "walk (mem t) (cr3 pt) ?v = Some ((ps + (?v - vs)) * 4096, ucast f)"
        using new_vpn_walk(1) [OF "1.prems"(1) uv(2) uv(2) "1.prems"(3)] step r1 by simp
      have now: "walk (mem u) (cr3 pt) v = Some ((ps + (v - vs)) * 4096, ucast f)"
        if "unat v = unat vs + i" for v
      proof -
        have "unat ?v < unat vs + Suc i" using uv(1) by simp
        then have "walk (mem u) (cr3 pt) ?v = Some ((ps + (?v - vs)) * 4096, ucast f)"
          using IH here uv(2) by blast
        then show ?thesis using that at by metis
      qed
      show ?thesis
        using IH res(3) now keep at True
        by (intro conjI) (blast, force, blast, metis Suc_leI add_Suc_right le_neq_implies_less, simp)
    qed
  qed
qed

section \<open>Unmapping\<close>

lemma pt_get_tlb [simp]: "pt_get p i (s\<lparr>tlb := x\<rparr>) = pt_get p i s"
  by (simp add: pt_get_def)

lemma heap_tlb [simp]: "kheap_ok (s\<lparr>tlb := x\<rparr>) = kheap_ok s" "live (s\<lparr>tlb := x\<rparr>) = live s"
  by (simp_all add: kheap_ok_def heap_geometry_def table_guard_def live_def live_blocks_def
      kheap_block_to_addr_def)

lemma vpn_page: "unat vpn < 1048576 \<Longrightarrow> vpn * 4096 div 4096 = (vpn :: u32)"
  by (simp add: word_unat_eq_iff unat_div_4096 unat_word_ariths)

lemma free_vpn_eq:
  assumes "unat vpn < 1048576"
  shows "paging_free_vpn pt vpn s =
     (let pde = pt_get (cr3 pt) (drop_bit 10 vpn) s; q = frame_of pde
      in (0, if present pde \<and> present (pt_get q (vpn mod 1024) s)
             then (pt_set q (vpn mod 1024) 0 s)\<lparr>tlb := (tlb s)(vpn := None)\<rparr> else s))"
  using vpn_page [OF assms]
  by (simp add: paging_free_vpn_def native_flush_tlb_single_def frame_of_def present_alt Let_def pt_set_def)

text \<open>Removing a page: the MMU faults on it, and on every other page it sees what it saw before.\<close>

lemma free_vpn_walk:
  assumes "pt_wf s pt" and "unat vpn < 1048576" and "paging_free_vpn pt vpn s = (r, u)"
  shows "pt_wf u pt" and "live u = live s"
    and "unat v < 1048576 \<Longrightarrow>
           walk (mem u) (cr3 pt) v = (if v = vpn then None else walk (mem s) (cr3 pt) v)"
    and "tlb u v = (if v = vpn \<and> walk (mem s) (cr3 pt) v \<noteq> None then None else tlb s v)"
proof -
  let ?i = "drop_bit 10 vpn" and ?k = "vpn mod 1024"
  let ?q = "frame_of (pt_get (cr3 pt) ?i s)"
  note wf = pt_wfD [OF assms(1)] and idx = vpn_indices [OF assms(2)]
  have "pt_wf u pt \<and> live u = live s \<and> (unat v < 1048576 \<longrightarrow>
      walk (mem u) (cr3 pt) v = (if v = vpn then None else walk (mem s) (cr3 pt) v)) \<and>
      tlb u v = (if v = vpn \<and> walk (mem s) (cr3 pt) v \<noteq> None then None else tlb s v)"
  proof (cases "present (pt_get (cr3 pt) ?i s) \<and> present (pt_get ?q ?k s)")
    case False
    then have "u = s" "walk (mem s) (cr3 pt) vpn = None"
      using assms(3) by (auto simp: free_vpn_eq [OF assms(2)] Let_def walk_pt)
    with assms(1) show ?thesis by auto
  next
    case True
    have u: "u = (pt_set ?q ?k 0 s)\<lparr>tlb := (tlb s)(vpn := None)\<rparr>"
      using assms(3) True by (simp add: free_vpn_eq [OF assms(2)] Let_def)
    have get: "pt_get p j u = (if p = ?q \<and> j = ?k then 0 else pt_get p j s)"
      if "page_base p" "j < 1024" for p j
      using that idx(2) page_base_frame_of by (auto simp: u pt_get_set)
    have dir: "pt_get (cr3 pt) j u = pt_get (cr3 pt) j s" if "j < 1024" for j
      using get [OF wf(3) that] wf(4) [OF idx(1)] True by auto
    have live: "kheap_ok u" "live u = live s" using wf(1) by (simp_all add: u)
    have "pt_wf u pt" using assms(1) live dir unfolding pt_wf_def by simp
    moreover have "walk (mem u) (cr3 pt) v = (if v = vpn then None else walk (mem s) (cr3 pt) v)"
      if "unat v < 1048576"
    proof -
      note vidx = vpn_indices [OF that]
      have same: "?q = frame_of (pt_get (cr3 pt) (drop_bit 10 v) s) \<longleftrightarrow> drop_bit 10 v = ?i"
        if "present (pt_get (cr3 pt) (drop_bit 10 v) s)"
        using wf(5) [OF idx(1) vidx(1)] True that by auto
      have "v = vpn \<longleftrightarrow> drop_bit 10 v = ?i \<and> v mod 1024 = ?k" using vpn_split_inj by blast
      then show ?thesis
        using same dir [OF vidx(1)] get [OF page_base_frame_of vidx(2)]
        by (cases "present (pt_get (cr3 pt) (drop_bit 10 v) s)") (auto simp: walk_pt Let_def)
    qed
    moreover have "walk (mem s) (cr3 pt) vpn \<noteq> None" using True by (simp add: walk_pt Let_def)
    ultimately show ?thesis using live by (auto simp: u)
  qed
  then show "pt_wf u pt" and "live u = live s"
    and "unat v < 1048576 \<Longrightarrow>
           walk (mem u) (cr3 pt) v = (if v = vpn then None else walk (mem s) (cr3 pt) v)"
    and "tlb u v = (if v = vpn \<and> walk (mem s) (cr3 pt) v \<noteq> None then None else tlb s v)" by blast+
qed

lemma free_vpns_walk:
  assumes "pt_wf s pt" and "n \<le> 1048576"
  shows "pt_wf (paging_free_vpns pt m n s) pt \<and> live (paging_free_vpns pt m n s) = live s \<and>
    (\<forall>v. unat v < 1048576 \<longrightarrow> walk (mem (paging_free_vpns pt m n s)) (cr3 pt) v =
       (if m \<le> unat v \<and> unat v < n then None else walk (mem s) (cr3 pt) v)) \<and>
    (\<forall>v. tlb (paging_free_vpns pt m n s) v =
       (if m \<le> unat v \<and> unat v < n \<and> walk (mem s) (cr3 pt) v \<noteq> None then None else tlb s v))"
  using assms(2)
proof (induction n)
  case 0
  with assms(1) show ?case by (simp add: paging_free_vpns_def)
next
  case (Suc n)
  let ?t = "paging_free_vpns pt m n s"
  show ?case
  proof (cases "m \<le> n")
    case False
    then have "paging_free_vpns pt m (Suc n) s = s" by (simp add: paging_free_vpns_def)
    with False assms(1) show ?thesis by auto
  next
    case True
    then have step: "paging_free_vpns pt m (Suc n) s = snd (paging_free_vpn pt (of_nat n) ?t)"
      by (simp add: paging_free_vpns_def)
    have n: "unat (of_nat n :: u32) = n" using Suc.prems by (intro unat_of_nat32) simp
    then have at: "v = of_nat n \<longleftrightarrow> unat v = n" for v :: u32 by (metis word_unat_eq_iff)
    have IH: "pt_wf ?t pt" using Suc by simp
    have lt: "unat (of_nat n :: u32) < 1048576" using Suc.prems n by simp
    note fv = free_vpn_walk [OF IH lt prod.collapse [symmetric], unfolded at, folded step]
    show ?thesis
    proof (intro conjI allI impI)
      show "pt_wf (paging_free_vpns pt m (Suc n) s) pt" by (rule fv(1))
      show "live (paging_free_vpns pt m (Suc n) s) = live s" using fv(2) Suc by simp
      fix v :: u32
      show "walk (mem (paging_free_vpns pt m (Suc n) s)) (cr3 pt) v =
          (if m \<le> unat v \<and> unat v < Suc n then None else walk (mem s) (cr3 pt) v)" if "unat v < 1048576"
        using fv(3) [OF that] Suc that True by auto
      show "tlb (paging_free_vpns pt m (Suc n) s) v =
          (if m \<le> unat v \<and> unat v < Suc n \<and> walk (mem s) (cr3 pt) v \<noteq> None then None else tlb s v)"
        using fv(4) [of v] Suc True by auto
    qed
  qed
qed

end
