(* ===== verification/HeapStructs.thy ===== *)
theory HeapStructs
  imports Paging_Props
begin

text \<open>
  Small structures on the kernel heap. The allocator hands out whole blocks, so a structure of at
  most 4096 bytes has a block of its own. Word \<open>i\<close> of the structure at \<open>p\<close> is accessed by
  \<open>get_field\<close> and \<open>set_field\<close>, single bytes by \<open>set_byte\<close>; the lemmas say what such accesses leave
  alone.
\<close>

abbreviation get_field :: "addr \<Rightarrow> u32 \<Rightarrow> 'a kheap_st_scheme \<Rightarrow> u32" where
  "get_field \<equiv> pt_get"

abbreviation set_field :: "addr \<Rightarrow> u32 \<Rightarrow> u32 \<Rightarrow> 'a kheap_st_scheme \<Rightarrow> 'a kheap_st_scheme" where
  "set_field \<equiv> pt_set"

definition set_byte :: "addr \<Rightarrow> u8 \<Rightarrow> 'a kheap_st_scheme \<Rightarrow> 'a kheap_st_scheme" where
  "set_byte a v s = s\<lparr>mem := (mem s)(a := v)\<rparr>"

section \<open>Blocks\<close>

lemma live_page_nonnull: "kheap_ok s \<Longrightarrow> (p, k) \<in> live s \<Longrightarrow> p \<noteq> 0"
  using kh.allocated_aligned [of s p k] by auto

lemma live_same_page:
  assumes "kheap_ok s" and "(p, k) \<in> live s" and "(q, l) \<in> live s"
    and "in_block a p (4096 * k)" and "in_block a q (4096 * l)"
  shows "p = q \<and> k = l"
  using kh.allocated_disjoint [OF assms(1-3)] assms(4,5) by (auto simp: blocks_disjoint_def)

lemma live_addr_unique:
  assumes "kheap_ok s" and "(p, k) \<in> live s" and "(p, l) \<in> live s"
  shows "k = l"
proof -
  have "0 < k" "0 < l"
    using assms by (auto simp: live_def live_blocks_def region_def)
  then show ?thesis
    using live_same_page [OF assms, of p] by (simp add: in_block_def)
qed

lemma small_alloc:
  assumes "kheap_ok s" and "kzalloc sz s = (q, t)" and "blocks_of sz = 1" and "unat sz \<le> 4096"
  shows "kheap_ok t" and "q = 0 \<longleftrightarrow> kheap_num_free_blocks s = 0"
    and "q \<noteq> 0 \<Longrightarrow> live t = insert (q, 1) (live s)"
    and "q \<noteq> 0 \<Longrightarrow> (q, k) \<notin> live s"
    and "q \<noteq> 0 \<Longrightarrow> Suc (kheap_num_free_blocks t) = kheap_num_free_blocks s"
    and "q \<noteq> 0 \<Longrightarrow> (p, k) \<in> live s \<Longrightarrow> in_block a p (4096 * k) \<Longrightarrow> mem t a = mem s a"
    and "q \<noteq> 0 \<Longrightarrow> in_block a q (unat sz) \<Longrightarrow> mem t a = 0"
proof -
  have pages: "pages_of sz = 1" using assms(3) by (simp add: pages_of_def)
  show ok: "kheap_ok t" using kh.alloc_ok [OF assms(1,2)] .
  show "q = 0 \<longleftrightarrow> kheap_num_free_blocks s = 0"
    "q \<noteq> 0 \<Longrightarrow> Suc (kheap_num_free_blocks t) = kheap_num_free_blocks s"
    using kzalloc_block_counts [OF assms(1-3)] by auto
  show lv: "q \<noteq> 0 \<Longrightarrow> live t = insert (q, 1) (live s)"
    using kh.alloc_new [OF assms(1,2)] pages by simp
  show "(q, k) \<notin> live s" if "q \<noteq> 0"
  proof
    assume k: "(q, k) \<in> live s"
    then have "(q, k) \<in> live t" "(q, 1) \<in> live t" using lv [OF that] by auto
    from live_addr_unique [OF ok this] k kh.alloc_new [OF assms(1,2) that] pages show False by simp
  qed
  show "q \<noteq> 0 \<Longrightarrow> (p, k) \<in> live s \<Longrightarrow> in_block a p (4096 * k) \<Longrightarrow> mem t a = mem s a"
    using kh.alloc_keeps_contents [OF assms(1,2)] assms(4) by simp
  show "q \<noteq> 0 \<Longrightarrow> in_block a q (unat sz) \<Longrightarrow> mem t a = 0"
    using kh.alloc_contents [OF assms(1,2)] by simp
qed

lemma kfree_mem [simp]: "mem (snd (kfree p s)) = mem s"
  by (simp add: kfree_def Let_def)

lemma pt_get_kfree [simp]: "pt_get p i (snd (kfree q s)) = pt_get p i s"
  by (simp add: pt_get_def)

text \<open>Freeing any address of the first block frees the allocation.\<close>

lemma kfree_inside:
  assumes "kheap_ok s" and "(p, k) \<in> live s" and "off < 4096"
  shows "kfree (p + of_nat off) s = kfree p s"
proof -
  from assms(2) obtain b where b: "p = kheap_block_to_addr s b" "(b, k) \<in> live_blocks s"
    by (auto simp: live_def)
  show ?thesis
    using kfree_region [OF assms(1) b(2) assms(3)] kfree_region [OF assms(1) b(2), of 0] b(1) by simp
qed

section \<open>Fields and bytes\<close>

lemma free_blocks_mem_update [simp]: "kheap_num_free_blocks (s\<lparr>mem := m\<rparr>) = kheap_num_free_blocks s"
  by (simp add: kheap_num_free_blocks_def)

lemma set_byte_heap [simp]:
  "kheap_ok (set_byte a v s) = kheap_ok s" "live (set_byte a v s) = live s"
  "kheap_num_free_blocks (set_byte a v s) = kheap_num_free_blocks s"
  "mem (set_byte a v s) = (mem s)(a := v)"
  by (simp_all add: set_byte_def kheap_num_free_blocks_def)

lemma pt_set_free [simp]: "kheap_num_free_blocks (pt_set p i v s) = kheap_num_free_blocks s"
  by (simp add: pt_set_def kheap_num_free_blocks_def)

lemma set_field_other_byte:
  assumes "kheap_ok s" and "(p, 1) \<in> live s" and "(q, k) \<in> live s" and "p \<noteq> q" and "i < 1024"
    and "in_block a q (4096 * k)"
  shows "mem (set_field p i v s) a = mem s a"
proof -
  have "\<not> in_block a p 4096" using live_same_page [OF assms(1-3), of a] assms(4,6) by auto
  then show ?thesis
    using live_page_base [OF assms(1,2)] assms(5) by (simp add: pt_set_def store_in_page)
qed

lemma get_set_field:
  assumes "kheap_ok s" and "(p, 1) \<in> live s" and "(q, 1) \<in> live s" and "i < 1024" and "j < 1024"
  shows "get_field q j (set_field p i v s) = (if p = q \<and> i = j then v else get_field q j s)"
  using assms by (intro pt_get_set live_page_base [OF assms(1)])

lemma get_field_set_byte:
  assumes "kheap_ok s" and "(p, 1) \<in> live s" and "(q, k) \<in> live s" and "p \<noteq> q"
    and "in_block a q (4096 * k)" and "i < 1024"
  shows "get_field p i (set_byte a v s) = get_field p i s"
proof -
  have "\<not> in_block a p 4096" using live_same_page [OF assms(1-3), of a] assms(4,5) by auto
  then show ?thesis
    using live_page_base [OF assms(1,2)] assms(6) by (intro pt_get_cong) auto
qed

lemma get_field_alloc:
  assumes "kheap_ok s" and "kzalloc sz s = (q, t)" and "blocks_of sz = 1" and "unat sz \<le> 4096"
    and "q \<noteq> 0" and "(p, 1) \<in> live s" and "i < 1024"
  shows "get_field p i t = get_field p i s"
  using live_page_base [OF assms(1,6)] small_alloc(6) [OF assms(1-6)] assms(7)
  by (intro pt_get_cong) simp_all

end
