(* ===== verification/Paging_Tables.thy ===== *)
theory Paging_Tables
  imports HeapStructs
begin

text \<open>
  Whole page tables: building the identity map of the 4 GB address space, and releasing the
  directory and all tables. The loop invariant \<open>dir_upto\<close> describes a directory of which the
  first \<open>n\<close> entries are filled.
\<close>

section \<open>Filling one table\<close>

lemma of_nat_less_1024: "j < 1024 \<Longrightarrow> (of_nat j :: u32) < 1024"
  by (simp add: word_less_nat_alt unat_of_nat)

lemma of_nat_1024_inj:
  assumes "j < 1024" and "k < 1024"
  shows "(of_nat j :: u32) = of_nat k \<longleftrightarrow> j = k"
proof -
  have "unat (of_nat k :: u32) = k" by (rule unat_of_nat32) (use assms(2) in simp)
  moreover have "of_nat j = (of_nat k :: u32) \<longleftrightarrow> unat (of_nat k :: u32) = j"
    by (rule of_nat_eq_unat) (use assms(1) in simp)
  ultimately show ?thesis by auto
qed

lemma fill_frame [simp]:
  "kheap_ok (paging_fill_table flags p off s) = kheap_ok s"
  "live (paging_fill_table flags p off s) = live s"
proof -
  have "kheap_ok (fold (\<lambda>j s. pt_set p (g j) (h j) s) xs s) = kheap_ok s \<and>
        live (fold (\<lambda>j s. pt_set p (g j) (h j) s) xs s) = live s" for g h and xs :: "nat list"
    by (induction xs arbitrary: s) simp_all
  then show "kheap_ok (paging_fill_table flags p off s) = kheap_ok s"
    "live (paging_fill_table flags p off s) = live s"
    by (simp_all add: paging_fill_table_def)
qed

lemma fill_get:
  assumes "page_base p" and "page_base q" and "i < 1024"
  shows "pt_get q i (paging_fill_table flags p off s) =
     (if p = q then (off + i * 4096) OR ucast flags else pt_get q i s)"
proof -
  let ?f = "\<lambda>j s. pt_set p (of_nat j) ((off + of_nat j * 4096) OR ucast flags) s"
  have "pt_get q i (fold ?f [0..<n] s) =
      (if p = q \<and> unat i < n then (off + i * 4096) OR ucast flags else pt_get q i s)" if "n \<le> 1024" for n
    using that
  proof (induction n)
    case (Suc n)
    have "of_nat n = i \<longleftrightarrow> unat i = n" using Suc.prems by (intro of_nat_eq_unat) simp
    with Suc assms show ?case
      by (auto simp: pt_get_set of_nat_less_1024 less_Suc_eq)
  qed simp
  from this [of NUM_PAGE_TABLE_ENTRIES] show ?thesis
    using assms(3)
    by (simp add: paging_fill_table_def word_less_nat_alt NUM_PAGE_TABLE_ENTRIES_def [symmetric])
      (simp add: NUM_PAGE_TABLE_ENTRIES_def)
qed

section \<open>Releasing the tables of a directory\<close>

lemma free_tables_fold:
  fixes s :: "'a kheap_st_scheme"
  assumes "kheap_ok s" and "distinct js"
    and "\<forall>j \<in> set js. P (pt_get dir (of_nat j) s) \<longrightarrow> (frame_of (pt_get dir (of_nat j) s), 1) \<in> live s"
    and "\<forall>j \<in> set js. \<forall>k \<in> set js. P (pt_get dir (of_nat j) s) \<and> P (pt_get dir (of_nat k) s) \<and>
           frame_of (pt_get dir (of_nat j) s) = frame_of (pt_get dir (of_nat k) s) \<longrightarrow> j = k"
    and "u = fold (\<lambda>j s. if P (pt_get dir (of_nat j) s)
                       then snd (kfree (frame_of (pt_get dir (of_nat j) s)) s) else s) js s"
  shows "kheap_ok u \<and> mem u = mem s \<and>
     live u = live s - {(frame_of (pt_get dir (of_nat j) s), 1) | j. j \<in> set js \<and> P (pt_get dir (of_nat j) s)}"
  using assms
proof (induction js arbitrary: s)
  case (Cons j js)
  let ?e = "\<lambda>j. pt_get dir (of_nat j) s"
  show ?case
  proof (cases "P (?e j)")
    case False
    then show ?thesis using Cons.IH [of s] Cons.prems by auto
  next
    case True
    let ?t = "snd (kfree (frame_of (?e j)) s)"
    have j: "(frame_of (?e j), 1) \<in> live s" using Cons.prems(3) True by simp
    have ok: "kheap_ok ?t" "live ?t = live s - {(frame_of (?e j), 1)}"
      using kfree_live [OF Cons.prems(1) j] by simp_all
    have other: "frame_of (?e k) \<noteq> frame_of (?e j)" if "k \<in> set js" "P (?e k)" for k
      using Cons.prems(2,4) that True by (metis distinct.simps(2) list.set_intros)
    have "kheap_ok u \<and> mem u = mem ?t \<and>
        live u = live ?t - {(frame_of (pt_get dir (of_nat k) ?t), 1) | k. k \<in> set js \<and> P (pt_get dir (of_nat k) ?t)}"
      by (rule Cons.IH [OF ok(1)]) (use Cons.prems ok(2) other True in auto)
    then show ?thesis using ok(2) True by auto
  qed
qed simp

lemma free_page_table_releases:
  fixes s :: "'a kheap_st_scheme"
  assumes "pt_wf s pt" and "num_levels pt = 2"
  shows "\<exists>u. paging_free_page_table pt s = Ret 0 u \<and> kheap_ok u \<and> mem u = mem s \<and>
     live u = live s - {(cr3 pt, 1)} -
       {(frame_of (pt_get (cr3 pt) (of_nat j) s), 1) | j. j < 1024 \<and> present (pt_get (cr3 pt) (of_nat j) s)}"
proof -
  note wf = pt_wfD [OF assms(1)]
  define t where "t = fold (\<lambda>j s. if present (pt_get (cr3 pt) (of_nat j) s)
      then snd (kfree (frame_of (pt_get (cr3 pt) (of_nat j) s)) s) else s) [0..<NUM_PAGE_TABLE_ENTRIES] s"
  have num: "j \<in> set [0..<NUM_PAGE_TABLE_ENTRIES] \<longleftrightarrow> j < 1024" for j
    by (simp only: set_upt atLeastLessThan_iff NUM_PAGE_TABLE_ENTRIES_def) simp
  have inj: "j = k" if "j < 1024" "k < 1024" "(of_nat j :: u32) = of_nat k" for j k
    using that of_nat_1024_inj by blast
  have tabs: "\<forall>j \<in> set [0..<NUM_PAGE_TABLE_ENTRIES]. present (pt_get (cr3 pt) (of_nat j) s) \<longrightarrow>
      (frame_of (pt_get (cr3 pt) (of_nat j) s), 1) \<in> live s"
    using wf(4) of_nat_less_1024 num by blast
  have dist: "\<forall>j \<in> set [0..<NUM_PAGE_TABLE_ENTRIES]. \<forall>k \<in> set [0..<NUM_PAGE_TABLE_ENTRIES].
      present (pt_get (cr3 pt) (of_nat j) s) \<and> present (pt_get (cr3 pt) (of_nat k) s) \<and>
      frame_of (pt_get (cr3 pt) (of_nat j) s) = frame_of (pt_get (cr3 pt) (of_nat k) s) \<longrightarrow> j = k"
  proof (intro ballI impI, elim conjE)
    fix j k assume "j \<in> set [0..<NUM_PAGE_TABLE_ENTRIES]" "k \<in> set [0..<NUM_PAGE_TABLE_ENTRIES]"
    then have jk: "j < 1024" "k < 1024" using num by blast+
    assume "present (pt_get (cr3 pt) (of_nat j) s)" "present (pt_get (cr3 pt) (of_nat k) s)"
      "frame_of (pt_get (cr3 pt) (of_nat j) s) = frame_of (pt_get (cr3 pt) (of_nat k) s)"
    from wf(5) [OF of_nat_less_1024 of_nat_less_1024, OF jk this] show "j = k" by (rule inj [OF jk])
  qed
  have "kheap_ok t \<and> mem t = mem s \<and> live t = live s -
      {(frame_of (pt_get (cr3 pt) (of_nat j) s), 1) | j. j \<in> set [0..<NUM_PAGE_TABLE_ENTRIES] \<and> present (pt_get (cr3 pt) (of_nat j) s)}"
    by (rule free_tables_fold [OF wf(1) distinct_upt tabs dist t_def])
  then have t: "kheap_ok t \<and> mem t = mem s \<and> live t = live s -
      {(frame_of (pt_get (cr3 pt) (of_nat j) s), 1) | j. j < 1024 \<and> present (pt_get (cr3 pt) (of_nat j) s)}"
    by (simp only: num)
  have "(cr3 pt, 1) \<in> live t" using t wf(2,4) of_nat_less_1024 by auto
  then have "kheap_ok (snd (kfree (cr3 pt) t))" "live (snd (kfree (cr3 pt) t)) = live t - {(cr3 pt, 1)}"
    using kfree_live [of t "cr3 pt" 1] t by simp_all
  moreover have "(\<lambda>i s. let pte = pt_get (cr3 pt) (of_nat i) s
        in if pte AND ucast PAGE_PRESENT = 0 then s else snd (kfree (pte AND PAGE_FRAME_LOC_MASK) s)) =
      (\<lambda>j (s :: 'a kheap_st_scheme). if present (pt_get (cr3 pt) (of_nat j) s)
        then snd (kfree (frame_of (pt_get (cr3 pt) (of_nat j) s)) s) else s)"
    by (auto simp: fun_eq_iff present_alt frame_of_def Let_def)
  then have "paging_free_page_table pt s = Ret 0 (snd (kfree (cr3 pt) t))"
    unfolding paging_free_page_table_def t_def using assms(2) by (simp only: Let_def) simp
  ultimately show ?thesis using t by auto
qed

section \<open>The identity map\<close>

text \<open>The table in directory entry \<open>j\<close>, and a directory whose first \<open>n\<close> entries map the identity.\<close>

definition table_at :: "addr \<Rightarrow> nat \<Rightarrow> 'a kheap_st_scheme \<Rightarrow> addr" where
  "table_at dir j s = frame_of (pt_get dir (of_nat j) s)"

definition dir_upto :: "addr \<Rightarrow> nat \<Rightarrow> u8 \<Rightarrow> (addr \<times> nat) set \<Rightarrow> 'a kheap_st_scheme \<Rightarrow> bool" where
  "dir_upto dir n f L s \<longleftrightarrow> kheap_ok s \<and> (dir, 1) \<notin> L \<and>
     live s = insert (dir, 1) (L \<union> {(table_at dir j s, 1) | j. j < n}) \<and>
     (\<forall>j < n. pt_get dir (of_nat j) s = table_at dir j s OR ucast (f OR PAGE_WRITE_ALLOW)) \<and>
     (\<forall>j < n. (table_at dir j s, 1) \<notin> L \<and> table_at dir j s \<noteq> dir) \<and>
     (\<forall>j < n. \<forall>k < n. table_at dir j s = table_at dir k s \<longrightarrow> j = k) \<and>
     (\<forall>j < n. \<forall>k < 1024. pt_get (table_at dir j s) k s = ((of_nat j * 1024 + k) * 4096) OR ucast f)"

lemma dir_upto_step:
  assumes "dir_upto dir n f L s" and "n < 1024" and "kzalloc 4096 s = (q, t)" and "q \<noteq> 0"
    and "u = pt_set dir (of_nat n) (q div PAGE_SIZE * PAGE_SIZE OR ucast f OR ucast PAGE_WRITE_ALLOW)
               (paging_fill_table f q (of_nat n * 1024 * 4096) t)"
  shows "dir_upto dir (Suc n) f L u"
proof -
  have ok: "kheap_ok s" and dirL: "(dir, 1) \<in> live s" "(dir, 1) \<notin> L"
    using assms(1) by (auto simp: dir_upto_def)
  have z: "kheap_ok t" "live t = insert (q, 1) (live s)" "(q, 1) \<notin> live s" "page_base q"
    using kzalloc_page [OF ok assms(3)] assms(4) by auto
  have dir: "page_base dir" "q \<noteq> dir" using live_page_base [OF ok dirL(1)] dirL z(3) by auto
  have e: "q div PAGE_SIZE * PAGE_SIZE OR ucast f OR ucast PAGE_WRITE_ALLOW =
      q OR ucast (f OR PAGE_WRITE_ALLOW)"
    using page_base_div_mult [OF z(4)] by (simp add: unsigned_or_eq or.assoc)
  have get: "pt_get p k u = (if p = dir \<and> k = of_nat n then q OR ucast (f OR PAGE_WRITE_ALLOW)
      else if p = q then (of_nat n * 1024 * 4096 + k * 4096) OR ucast f else pt_get p k t)"
    if "page_base p" "k < 1024" for p k
    unfolding assms(5) e using that dir z(4) of_nat_less_1024 [OF assms(2)]
    by (auto simp: pt_get_set fill_get)
  have old: "pt_get p k t = pt_get p k s" if "(p, 1) \<in> live s" "k < 1024" for p k
    using kzalloc_pt_get [OF ok assms(3) that] .
  have inj: "(of_nat j :: u32) = of_nat n \<longleftrightarrow> j = n" if "j < 1024" for j
    using that assms(2) by (rule of_nat_1024_inj)
  have de: "pt_get dir (of_nat j) u = (if j = n then q OR ucast (f OR PAGE_WRITE_ALLOW)
      else pt_get dir (of_nat j) s)" if "j < 1024" for j
    using get [OF dir(1) of_nat_less_1024 [OF that]] dir(2) old [OF dirL(1) of_nat_less_1024 [OF that]]
      inj [OF that] by simp
  have ta: "table_at dir j u = (if j = n then q else table_at dir j s)" if "j < 1024" for j
    using de [OF that] frame_of_entry [OF z(4)] by (simp add: table_at_def)
  have tl: "(table_at dir j s, 1) \<in> live s" "table_at dir j s \<noteq> q" "table_at dir j s \<noteq> dir" if "j < n" for j
    using assms(1) that z(3) by (auto simp: dir_upto_def)
  have tab: "pt_get (table_at dir j s) k u = pt_get (table_at dir j s) k s" if "j < n" "k < 1024" for j k
    using get [OF live_page_base [OF ok tl(1) [OF that(1)]] that(2)] tl [OF that(1)] old [OF _ that(2)] by simp
  have new: "pt_get q k u = ((of_nat n * 1024 + k) * 4096) OR ucast f" if "k < 1024" for k
    using get [OF z(4) that] dir(2) by (simp add: algebra_simps)
  have tan: "table_at dir n u = q" using ta [OF assms(2)] by simp
  have taj: "table_at dir j u = table_at dir j s" if "j < n" for j
    using ta [of j] assms(2) that by simp
  have den: "pt_get dir (of_nat n) u = q OR ucast (f OR PAGE_WRITE_ALLOW)" using de [OF assms(2)] by simp
  have dej: "pt_get dir (of_nat j) u = pt_get dir (of_nat j) s" if "j < n" for j
    using de [of j] assms(2) that by simp
  have "{(table_at dir j u, 1) | j. j < Suc n} = insert (q, 1) {(table_at dir j s, 1 :: nat) | j. j < n}"
    unfolding less_Suc_eq using tan taj by (safe; metis)
  moreover have "live u = live t" using z(1) by (simp add: assms(5))
  ultimately have live: "live u = insert (dir, 1) (L \<union> {(table_at dir j u, 1) | j. j < Suc n})"
    using assms(1) z(2) by (auto simp: dir_upto_def)
  have qL: "(q, 1) \<notin> L" and ok': "kheap_ok u"
    using z(1,3) assms(1) by (auto simp: dir_upto_def assms(5))
  have old': "pt_get dir (of_nat j) s = table_at dir j s OR ucast (f OR PAGE_WRITE_ALLOW)"
    "(table_at dir j s, 1) \<notin> L" "k < n \<Longrightarrow> table_at dir j s = table_at dir k s \<Longrightarrow> j = k"
    "l < 1024 \<Longrightarrow> pt_get (table_at dir j s) l s = ((of_nat j * 1024 + l) * 4096) OR ucast f"
    if "j < n" for j k l
    using assms(1) that unfolding dir_upto_def by blast+
  show ?thesis
    unfolding dir_upto_def All_less_Suc
    by (intro conjI allI impI; (rule live | metis ok' dirL(2) tan taj den dej qL old' tab new tl dir(2)))
qed

lemma dir_upto_null:
  assumes "dir_upto dir n f L s" and "n \<le> 1024" and "kzalloc 4096 s = (q, t)" and "q = 0"
  shows "dir_upto dir n f L t"
proof -
  have ok: "kheap_ok s" "(dir, 1) \<in> live s" using assms(1) by (auto simp: dir_upto_def)
  have t: "kheap_ok t" "live t = live s" using kzalloc_page [OF ok(1) assms(3)] assms(4) by simp_all
  have get: "pt_get p k t = pt_get p k s" if "(p, 1) \<in> live s" "k < 1024" for p k
    using kzalloc_pt_get [OF ok(1) assms(3) that] .
  have e: "pt_get dir (of_nat j) t = pt_get dir (of_nat j) s" if "j < n" for j
    using get [OF ok(2) of_nat_less_1024] that assms(2) by simp
  then have ta: "table_at dir j t = table_at dir j s" if "j < n" for j
    using that by (simp add: table_at_def)
  have "(table_at dir j s, 1) \<in> live s" if "j < n" for j
    using assms(1) that by (auto simp: dir_upto_def)
  then have tab: "pt_get (table_at dir j s) k t = pt_get (table_at dir j s) k s" if "j < n" "k < 1024" for j k
    using get that by blast
  have "{(table_at dir j t, 1) | j. j < n} = {(table_at dir j s, 1 :: nat) | j. j < n}"
    using ta by (safe; metis)
  with assms(1) t e ta tab show ?thesis unfolding dir_upto_def by simp
qed

text \<open>Giving up part-way: the directory and all tables entered so far go back to the heap.\<close>

lemma dir_upto_unwind:
  assumes "dir_upto dir n f L s" and "n \<le> 1024"
  shows "live (paging_free_entries dir n (snd (kfree dir s))) = L" (is "live ?u = L")
    and "kheap_ok (paging_free_entries dir n (snd (kfree dir s)))"
proof -
  let ?t = "snd (kfree dir s)"
  have ok: "kheap_ok s" "(dir, 1) \<in> live s" and dirL: "(dir, 1) \<notin> L"
    using assms(1) by (auto simp: dir_upto_def)
  have t: "kheap_ok ?t" "live ?t = live s - {(dir, 1)}" using kfree_live [OF ok] by simp_all
  have frames: "frame_of (pt_get dir (of_nat j) ?t) = table_at dir j s" for j
    by (simp add: table_at_def)
  have tabs: "\<forall>j \<in> set [0..<n]. True \<longrightarrow> (frame_of (pt_get dir (of_nat j) ?t), 1) \<in> live ?t"
    unfolding frames t(2) using assms(1) by (auto simp: dir_upto_def)
  have dist: "\<forall>j \<in> set [0..<n]. \<forall>k \<in> set [0..<n]. True \<and> True \<and>
      frame_of (pt_get dir (of_nat j) ?t) = frame_of (pt_get dir (of_nat k) ?t) \<longrightarrow> j = k"
    unfolding frames using assms(1) by (auto simp: dir_upto_def)
  have fold: "?u = fold (\<lambda>j s. if True then snd (kfree (frame_of (pt_get dir (of_nat j) s)) s) else s) [0..<n] ?t"
    by (simp add: paging_free_entries_def frame_of_def)
  have u: "kheap_ok ?u \<and> mem ?u = mem ?t \<and> live ?u = live ?t -
      {(frame_of (pt_get dir (of_nat j) ?t), 1) | j. j \<in> set [0..<n] \<and> True}"
    by (rule free_tables_fold [where P = "\<lambda>_. True", OF t(1) distinct_upt tabs dist fold])
  then show "kheap_ok ?u" by simp
  show "live ?u = L" using u t(2) assms(1) dirL unfolding frames dir_upto_def by auto
qed

lemma create_loop_step:
  assumes "i < 1024" and "kzalloc 4096 s = (q, t)"
  shows "paging_create_loop f dir (of_nat i * 1024 * 4096) i s =
     (if q = 0 then (- STATUS_NOT_ENOUGH_MEM, paging_free_entries dir i (snd (kfree dir t)))
      else paging_create_loop f dir (of_nat (Suc i) * 1024 * 4096) (Suc i)
        (pt_set dir (of_nat i) (q div PAGE_SIZE * PAGE_SIZE OR ucast f OR ucast PAGE_WRITE_ALLOW)
              (paging_fill_table f q (of_nat i * 1024 * 4096) t)))"
proof -
  have off: "of_nat (Suc i) * 1024 * 4096 = (of_nat i * 1024 * 4096 + 4194304 :: u32)"
    by (simp add: algebra_simps)
  show ?thesis
    unfolding off using assms
    by (simp add: paging_create_loop.simps [of f dir _ i s] NUM_PAGE_TABLE_ENTRIES_def Let_def)
qed

lemma create_loop_result:
  assumes "dir_upto dir i f L s" and "i \<le> 1024"
    and "paging_create_loop f dir (of_nat i * 1024 * 4096) i s = (r, u)"
  shows "r = STATUS_OK \<and> dir_upto dir 1024 f L u \<or>
         r = - STATUS_NOT_ENOUGH_MEM \<and> kheap_ok u \<and> live u = L"
  using assms
proof (induction "1024 - i" arbitrary: i s)
  case 0
  then have "i = 1024" by simp
  moreover from this have "paging_create_loop f dir off i s = (STATUS_OK, s)" for off
    by (simp add: paging_create_loop.simps [of f dir off] NUM_PAGE_TABLE_ENTRIES_def)
  ultimately show ?case using 0 by simp
next
  case (Suc n)
  then have i: "i < 1024" by simp
  obtain q t where z: "kzalloc 4096 s = (q, t)" by fastforce
  let ?u = "pt_set dir (of_nat i) (q div PAGE_SIZE * PAGE_SIZE OR ucast f OR ucast PAGE_WRITE_ALLOW)
              (paging_fill_table f q (of_nat i * 1024 * 4096) t)"
  note unf = create_loop_step [OF i z, of f dir]
  show ?case
  proof (cases "q = 0")
    case True
    have "dir_upto dir i f L t" using dir_upto_null [OF Suc.prems(1,2) z] True by simp
    from dir_upto_unwind [OF this Suc.prems(2)] show ?thesis
      using Suc.prems(3) unf True by auto
  next
    case False
    have "paging_create_loop f dir (of_nat (Suc i) * 1024 * 4096) (Suc i) ?u = (r, u)"
      using Suc.prems(3) unf False by (simp only: if_False)
    moreover have "dir_upto dir (Suc i) f L ?u"
      using dir_upto_step [OF Suc.prems(1) i z False] by simp
    ultimately show ?thesis using Suc.hyps(1) [of "Suc i" ?u] Suc.hyps(2) i by simp
  qed
qed

lemma ident_access_bits:
  assumes "page_base p"
  shows "ucast (f OR PAGE_WRITE_ALLOW) AND (p OR ucast f) = (ucast (f :: u8) :: u32)"
proof (rule bit_word_eqI)
  fix n assume "n < LENGTH(32)"
  show "bit (ucast (f OR PAGE_WRITE_ALLOW) AND (p OR ucast f) :: u32) n \<longleftrightarrow> bit (ucast f :: u32) n"
    using page_base_low_bits [OF assms, of n] flags_high [of n "f OR PAGE_WRITE_ALLOW"]
    by (cases "n < 12") (auto simp: bit_and_iff bit_or_iff unsigned_or_eq)
qed

text \<open>A full directory is well formed and maps every page to itself with the given access bits.\<close>

lemma dir_upto_full:
  assumes "dir_upto dir 1024 f L s" and "bit f 0"
  shows "pt_wf s \<lparr>cr3 = dir, num_levels = l\<rparr>"
    and "unat v < 1048576 \<Longrightarrow> walk (mem s) dir v = Some (v * 4096, ucast f)"
proof -
  have tab: "(table_at dir j s, 1) \<in> live s" "table_at dir j s \<noteq> dir" "page_base (table_at dir j s)"
    "pt_get dir (of_nat j) s = table_at dir j s OR ucast (f OR PAGE_WRITE_ALLOW)"
    "k < 1024 \<Longrightarrow> table_at dir j s = table_at dir k s \<Longrightarrow> j = k"
    "m < 1024 \<Longrightarrow> pt_get (table_at dir j s) m s = ((of_nat j * 1024 + m) * 4096) OR ucast f"
    if "j < 1024" for j k m
    using assms(1) that unfolding dir_upto_def table_at_def
    by (blast, blast, simp add: page_base_frame_of, blast+)
  have nat: "\<exists>j < 1024. i = of_nat j" if "i < 1024" for i :: u32
    using that by (intro exI [of _ "unat i"]) (simp add: word_less_nat_alt)
  show "pt_wf s \<lparr>cr3 = dir, num_levels = l\<rparr>"
    unfolding pt_wf_def page_table_32b.select_convs
  proof (intro conjI allI impI)
    show "kheap_ok s" "(dir, 1) \<in> live s" using assms(1) by (auto simp: dir_upto_def)
    fix i :: u32 assume "i < 1024"
    then obtain j where j: "j < 1024" "i = of_nat j" using nat by blast
    then show "(frame_of (pt_get dir i s), 1) \<in> live s" "frame_of (pt_get dir i s) \<noteq> dir"
      using tab(1,2) [OF j(1)] by (simp_all add: table_at_def)
    fix i' :: u32 assume "i' < 1024" "frame_of (pt_get dir i s) = frame_of (pt_get dir i' s)"
    moreover from this obtain j' where "j' < 1024" "i' = of_nat j'" using nat by blast
    ultimately show "i = i'" using tab(5) [OF j(1), of j'] j(2) by (simp add: table_at_def)
  qed
  assume v: "unat v < 1048576"
  obtain j where j: "j < 1024" "drop_bit 10 v = of_nat j" using nat [OF vpn_indices(1) [OF v]] by blast
  have "of_nat j * 1024 + v mod 1024 = v"
    using div_mult_mod_eq [of v 1024] j(2) by (simp add: drop_bit_eq_div)
  then have e: "pt_get (table_at dir j s) (v mod 1024) s = v * 4096 OR ucast f"
    using tab(6) [OF j(1) vpn_indices(2) [OF v]] by simp
  have "bit (f OR PAGE_WRITE_ALLOW) 0" using assms(2) by (simp add: bit_or_iff)
  then show "walk (mem s) dir v = Some (v * 4096, ucast f)"
    unfolding walk_pt j(2) Let_def tab(4) [OF j(1)] frame_of_entry [OF tab(3) [OF j(1)]] e
    using present_entry [OF tab(3) [OF j(1)]] present_entry [OF page_base_mult [of v]] assms(2)
      entry_access_bits [OF tab(3) [OF j(1)]] ident_access_bits [OF page_base_mult [of v]]
      frame_of_entry [OF page_base_mult [of v]] by simp
qed

lemma translate_ident:
  assumes "\<And>v. unat v < 1048576 \<Longrightarrow> walk m dir v = Some (v * 4096, x)"
  shows "translate m dir va = Some va"
  using assms [OF vpn_bound [of va]] div_mult_mod_eq [of va 4096] by (simp add: translate_def)

lemma create_4gb_result:
  assumes "kheap_ok s" and "bit f 0" and "paging_create_4gb_page_tables f pt s = ((r, pt'), u)"
  shows "r = STATUS_OK \<and> pt_wf u pt' \<and> num_levels pt' = 2 \<and> live s \<subseteq> live u \<and>
           (\<forall>v. unat v < 1048576 \<longrightarrow> walk (mem u) (cr3 pt') v = Some (v * 4096, ucast f)) \<or>
         r = - STATUS_NOT_ENOUGH_MEM \<and> pt' = pt \<and> kheap_ok u \<and> live u = live s"
proof -
  obtain dir t where z: "kzalloc 4096 s = (dir, t)" by fastforce
  show ?thesis
  proof (cases "dir = 0")
    case True
    then show ?thesis
      using assms(3) z kzalloc_page [OF assms(1) z] by (simp add: paging_create_4gb_page_tables_def)
  next
    case False
    obtain r' u' where l: "paging_create_loop f dir 0 0 t = (r', u')" by fastforce
    have "live t = insert (dir, 1) (live s)" "(dir, 1) \<notin> live s" "kheap_ok t"
      using kzalloc_page [OF assms(1) z] False by auto
    then have "dir_upto dir 0 f (live s) t" by (simp add: dir_upto_def)
    then have loop: "r' = STATUS_OK \<and> dir_upto dir 1024 f (live s) u' \<or>
         r' = - STATUS_NOT_ENOUGH_MEM \<and> kheap_ok u' \<and> live u' = live s"
      using create_loop_result [of dir 0 f "live s" t r' u'] l by simp
    have res: "((r, pt'), u) = (if r' < 0 then ((r', pt), u') else ((STATUS_OK, pt\<lparr>cr3 := dir, num_levels := 2\<rparr>), u'))"
      using assms(3) z l False by (simp add: paging_create_4gb_page_tables_def)
    from loop show ?thesis
    proof (elim disjE conjE)
      assume ok: "r' = STATUS_OK" "dir_upto dir 1024 f (live s) u'"
      have "live s \<subseteq> live u'" using ok(2) by (auto simp: dir_upto_def)
      with ok res dir_upto_full [OF ok(2) assms(2)] show ?thesis by (cases pt) simp
    qed (use res in simp)
  qed
qed

section \<open>How many blocks the identity map needs\<close>

lemma free_count_pt_set [simp]: "kheap_num_free_blocks (pt_set p i v s) = kheap_num_free_blocks s"
  by (simp add: pt_set_def free_count_eq)

lemma free_count_fill [simp]: "kheap_num_free_blocks (paging_fill_table f p off s) = kheap_num_free_blocks s"
proof -
  have "kheap_num_free_blocks (fold (\<lambda>j s. pt_set p (g j) (h j) s) xs s) = kheap_num_free_blocks s"
    for g h and xs :: "nat list"
    by (induction xs arbitrary: s) simp_all
  then show ?thesis by (simp add: paging_fill_table_def)
qed

lemma create_loop_count:
  assumes "dir_upto dir i f L s" and "i \<le> 1024"
    and "paging_create_loop f dir (of_nat i * 1024 * 4096) i s = (r, u)"
  shows "(r = STATUS_OK \<longleftrightarrow> 1024 - i \<le> kheap_num_free_blocks s) \<and>
         (r = STATUS_OK \<longrightarrow> kheap_num_free_blocks u + (1024 - i) = kheap_num_free_blocks s)"
  using assms
proof (induction "1024 - i" arbitrary: i s)
  case 0
  then have "i = 1024" by simp
  moreover from this have "paging_create_loop f dir off i s = (STATUS_OK, s)" for off
    by (simp add: paging_create_loop.simps [of f dir off] NUM_PAGE_TABLE_ENTRIES_def)
  ultimately show ?case using 0 by simp
next
  case (Suc n)
  then have i: "i < 1024" by simp
  obtain q t where z: "kzalloc 4096 s = (q, t)" by fastforce
  have ok: "kheap_ok s" using Suc.prems(1) by (simp add: dir_upto_def)
  note unf = create_loop_step [OF i z, of f dir]
  show ?case
  proof (cases "q = 0")
    case True
    then show ?thesis using Suc.prems(3) unf i kzalloc_page_counts(1) [OF ok z] by auto
  next
    case False
    let ?u = "pt_set dir (of_nat i) (q div PAGE_SIZE * PAGE_SIZE OR ucast f OR ucast PAGE_WRITE_ALLOW)
                (paging_fill_table f q (of_nat i * 1024 * 4096) t)"
    have "paging_create_loop f dir (of_nat (Suc i) * 1024 * 4096) (Suc i) ?u = (r, u)"
      using Suc.prems(3) unf False by (simp only: if_False)
    moreover have "dir_upto dir (Suc i) f L ?u"
      using dir_upto_step [OF Suc.prems(1) i z False] by simp
    ultimately have "(r = STATUS_OK \<longleftrightarrow> 1024 - Suc i \<le> kheap_num_free_blocks ?u) \<and>
        (r = STATUS_OK \<longrightarrow> kheap_num_free_blocks u + (1024 - Suc i) = kheap_num_free_blocks ?u)"
      using Suc.hyps(2) i by (intro Suc.hyps(1)) simp_all
    moreover have "Suc (kheap_num_free_blocks ?u) = kheap_num_free_blocks s"
      using kzalloc_page_counts(2) [OF ok z False] by simp
    moreover have "1024 - i = Suc (1024 - Suc i)" using i by simp
    ultimately show ?thesis by (metis Suc_le_mono add_Suc_right)
  qed
qed

lemma create_4gb_count:
  assumes "kheap_ok s" and "paging_create_4gb_page_tables f pt s = ((r, pt'), u)"
  shows "(r = STATUS_OK \<longleftrightarrow> 1025 \<le> kheap_num_free_blocks s) \<and>
         (r = STATUS_OK \<longrightarrow> kheap_num_free_blocks u + 1025 = kheap_num_free_blocks s)"
proof -
  obtain dir t where z: "kzalloc 4096 s = (dir, t)" by fastforce
  obtain r' u' where l: "paging_create_loop f dir 0 0 t = (r', u')" by fastforce
  have res: "((r, pt'), u) = (if dir = 0 then ((- STATUS_NOT_ENOUGH_MEM, pt), t)
      else if r' < 0 then ((r', pt), u') else ((STATUS_OK, pt\<lparr>cr3 := dir, num_levels := 2\<rparr>), u'))"
    using assms(2) z l by (cases "dir = 0") (simp_all add: paging_create_4gb_page_tables_def)
  show ?thesis
  proof (cases "dir = 0")
    case True
    then show ?thesis using res kzalloc_page_counts(1) [OF assms(1) z] by simp
  next
    case False
    have "live t = insert (dir, 1) (live s)" "(dir, 1) \<notin> live s" "kheap_ok t"
      using kzalloc_page [OF assms(1) z] False by auto
    then have d: "dir_upto dir 0 f (live s) t" by (simp add: dir_upto_def)
    have "r' = STATUS_OK \<or> r' = - STATUS_NOT_ENOUGH_MEM"
      using create_loop_result [of dir 0 f "live s" t r' u'] d l by auto
    then show ?thesis
      using create_loop_count [of dir 0 f "live s" t r' u'] d l res False
        kzalloc_page_counts(2) [OF assms(1) z False] by (auto split: if_splits)
  qed
qed

section \<open>Properties\<close>

text \<open>A heap of 2000 free blocks, and a page table built on it.\<close>

definition big_heap :: kheap_st where
  "big_heap = \<lparr>mem = (\<lambda>_. 7), video_mem = (\<lambda>_. 0), curr_y = 0, curr_x = 0,
     entries = (\<lambda>i. if i < 2000 then 0 else 0x41), num_entries = 2000,
     kheap_physical_start_addr = KHEAP_ADDR\<rparr>"

lemma kheap_ok_big: "kheap_ok big_heap"
  by (simp add: kheap_ok_def big_heap_def heap_geometry_def table_guard_def table_ok_def
      get_kheap_entry_type_def)

lemma free_count_big: "kheap_num_free_blocks big_heap = 2000"
proof -
  have "{i. i < 2000 \<and> is_free (entries big_heap i)} = {..<2000}"
    by (auto simp: big_heap_def get_kheap_entry_type_def)
  then show ?thesis by (simp add: free_count_eq big_heap_def)
qed

definition no_table :: page_table_32b where
  "no_table = \<lparr>cr3 = 0, num_levels = 0\<rparr>"

definition big_table :: page_table_32b where
  "big_table = snd (fst (paging_create_4gb_page_tables 7 no_table big_heap))"

definition big_state :: kheap_st where
  "big_state = snd (paging_create_4gb_page_tables 7 no_table big_heap)"

lemma big_create: "paging_create_4gb_page_tables 7 no_table big_heap = ((STATUS_OK, big_table), big_state)"
proof -
  obtain r where r: "paging_create_4gb_page_tables 7 no_table big_heap = ((r, big_table), big_state)"
    unfolding big_table_def big_state_def by (metis prod.collapse)
  with create_4gb_count [OF kheap_ok_big r] show ?thesis by (simp add: free_count_big)
qed

lemma big_table_wf: "pt_wf big_state big_table" "num_levels big_table = 2"
  using create_4gb_result [OF kheap_ok_big _ big_create] by auto

text \<open>C27: \<^verbatim>\<open>paging_create_4gb_page_tables\<close> succeeds exactly when the heap has 1025 free blocks; then every
  virtual address translates to itself with the given access bits through a well-formed page
  table; when it fails, it has given back every page it took and left the page table alone.\<close>

theorem create_4gb_identity:
  assumes "kheap_ok s" and "bit f 0" and "paging_create_4gb_page_tables f pt s = ((r, pt'), u)"
  shows "(r = STATUS_OK \<longleftrightarrow> 1025 \<le> kheap_num_free_blocks s) \<and>
         (r = STATUS_OK \<longrightarrow> pt_wf u pt' \<and> live s \<subseteq> live u \<and>
            (\<forall>va. translate (mem u) (cr3 pt') va = Some va) \<and>
            (\<forall>va. walk (mem u) (cr3 pt') (va div 4096) = Some (va div 4096 * 4096, ucast f))) \<and>
         (r \<noteq> STATUS_OK \<longrightarrow> r = - STATUS_NOT_ENOUGH_MEM \<and> live u = live s \<and> pt' = pt)"
  using create_4gb_result [OF assms] create_4gb_count [OF assms(1,3)] translate_ident vpn_bound
  by auto

theorem create_4gb_identity_witness:
  "translate (mem big_state) (cr3 big_table) 0xB8000 = Some 0xB8000"
  using create_4gb_identity [OF kheap_ok_big _ big_create] by simp

text \<open>The allocations that make up a page table.\<close>

definition pt_pages :: "'a kheap_st_scheme \<Rightarrow> page_table_32b \<Rightarrow> (addr \<times> nat) set" where
  "pt_pages s pt = insert (cr3 pt, 1)
     {(frame_of (pt_get (cr3 pt) (of_nat j) s), 1) | j. j < 1024 \<and> present (pt_get (cr3 pt) (of_nat j) s)}"

lemma free_page_table_pages:
  fixes s :: "'a kheap_st_scheme"
  assumes "pt_wf s pt" and "num_levels pt = 2"
  shows "\<exists>u. paging_free_page_table pt s = Ret 0 u \<and> kheap_ok u \<and> mem u = mem s \<and> live u = live s - pt_pages s pt"
proof -
  have "live s - pt_pages s pt = live s - {(cr3 pt, 1)} -
      {(frame_of (pt_get (cr3 pt) (of_nat j) s), 1) | j. j < 1024 \<and> present (pt_get (cr3 pt) (of_nat j) s)}"
    unfolding pt_pages_def by (rule Diff_insert2)
  then show ?thesis using free_page_table_releases [OF assms] by metis
qed

lemma create_4gb_pages:
  assumes "kheap_ok s" and "bit f 0" and "paging_create_4gb_page_tables f pt s = ((STATUS_OK, pt'), u)"
  shows "live u = live s \<union> pt_pages u pt' \<and> live s \<inter> pt_pages u pt' = {}"
proof -
  obtain dir t where z: "kzalloc 4096 s = (dir, t)" by fastforce
  obtain r' u' where l: "paging_create_loop f dir 0 0 t = (r', u')" by fastforce
  have dir: "dir \<noteq> 0" using assms(3) z by (auto simp: paging_create_4gb_page_tables_def)
  have "live t = insert (dir, 1) (live s)" "(dir, 1) \<notin> live s" "kheap_ok t"
    using kzalloc_page [OF assms(1) z] dir by auto
  then have "dir_upto dir 0 f (live s) t" by (simp add: dir_upto_def)
  then have "r' = STATUS_OK \<and> dir_upto dir 1024 f (live s) u' \<or> r' < 0"
    using create_loop_result [of dir 0 f "live s" t r' u'] l by auto
  then have d: "dir_upto dir 1024 f (live s) u" and pt': "cr3 pt' = dir"
    using assms(3) z l dir by (auto simp: paging_create_4gb_page_tables_def)
  have "present (pt_get dir (of_nat j) u)" if "j < 1024" for j
  proof -
    have "pt_get dir (of_nat j) u = table_at dir j u OR ucast (f OR PAGE_WRITE_ALLOW)"
      using d that by (simp only: dir_upto_def)
    moreover have "page_base (table_at dir j u)" by (simp add: table_at_def page_base_frame_of)
    ultimately show ?thesis using present_entry assms(2) by (simp add: bit_or_iff)
  qed
  then have p: "pt_pages u pt' = insert (dir, 1) {(table_at dir j u, 1) | j. j < 1024}"
    unfolding pt_pages_def pt' table_at_def by blast
  have l: "live u = insert (dir, 1) (live s \<union> {(table_at dir j u, 1) | j. j < 1024})"
    using d unfolding dir_upto_def by (elim conjE)
  have "(dir, 1) \<notin> live s" using d unfolding dir_upto_def by (elim conjE)
  moreover have "\<forall>j < 1024. (table_at dir j u, 1) \<notin> live s \<and> table_at dir j u \<noteq> dir"
    using d unfolding dir_upto_def by (elim conjE)
  ultimately have "live s \<inter> pt_pages u pt' = {}" unfolding p by blast
  then show ?thesis by (simp only: l p Un_insert_right)
qed

text \<open>C28: releasing the page table just created gives the heap exactly the live allocations it had
  before.\<close>

theorem create_free_page_table:
  assumes "kheap_ok s" and "bit f 0" and "paging_create_4gb_page_tables f pt s = ((STATUS_OK, pt'), u)"
  shows "\<exists>w. paging_free_page_table pt' u = Ret 0 w \<and> kheap_ok w \<and> live w = live s"
proof -
  have "pt_wf u pt'" "num_levels pt' = 2" using create_4gb_result [OF assms] by auto
  from free_page_table_pages [OF this] show ?thesis using create_4gb_pages [OF assms] by auto
qed

theorem create_free_page_table_witness:
  "\<exists>w. paging_free_page_table big_table big_state = Ret 0 w \<and> live w = live big_heap"
  using create_free_page_table [OF kheap_ok_big _ big_create] by auto

lemma page_order:
  assumes "page_base x"
  shows "(a :: u32) < x \<longleftrightarrow> unat (a div 4096) < unat (x div 4096)"
proof -
  obtain k where k: "unat x = 4096 * k" using assms unfolding page_base_def by (metis mod_0_imp_dvd dvdE)
  have "unat a < 4096 * k \<longleftrightarrow> unat a div 4096 < k" by (simp add: div_less_iff_less_mult mult.commute)
  then show ?thesis unfolding word_less_nat_alt unat_div_4096 k by simp
qed

lemma page_aligned_base: "is_page_aligned w \<longleftrightarrow> page_base w"
  unfolding is_page_aligned_def page_base_take_bit take_bit_eq_mask by (simp add: mask_eq_exp_minus_1)

lemma map_region_result:
  assumes "pt_wf s pt" and "bit f 0" and "is_page_aligned va" and "is_page_aligned pa"
    and "is_page_aligned ve" and "va < ve"
    and "paging_map_memory_region pt va pa ve f s = (r, u)"
  shows "pt_wf u pt \<and> live s \<subseteq> live u \<and> (r = STATUS_OK \<or> r = - STATUS_NOT_ENOUGH_MEM) \<and>
    (r = STATUS_OK \<longrightarrow> (\<forall>a. va \<le> a \<longrightarrow> a < ve \<longrightarrow>
       translate (mem u) (cr3 pt) a = Some (pa + (a - va)) \<and>
       map_option snd (walk (mem u) (cr3 pt) (a div 4096)) = Some (ucast f))) \<and>
    (\<forall>a. a < va \<or> ve \<le> a \<longrightarrow> translate (mem u) (cr3 pt) a = translate (mem s) (cr3 pt) a)"
proof -
  note al = assms(3-5) [unfolded page_aligned_base]
  have "\<not> ve div 4096 \<le> va div 4096"
    using assms(6) unfolding page_order [OF al(3)] by (simp add: word_le_nat_alt)
  then have loop: "paging_map_loop pt (va div 4096) (pa div 4096) 0 (ve div 4096) f s = (r, u)"
    using assms(3-5,7) by (simp add: paging_map_memory_region_def Let_def)
  have "unat (ve div 4096) \<le> 1048576" using vpn_bound [of ve] by simp
  note res = map_loop_walk [OF assms(1) this assms(2) loop]
  have range: "va \<le> a \<longleftrightarrow> unat (va div 4096) \<le> unat (a div 4096)"
    "a < ve \<longleftrightarrow> unat (a div 4096) < unat (ve div 4096)" for a
    using page_order [OF al(1)] page_order [OF al(3)] by (metis not_le)+
  have inside: "translate (mem u) (cr3 pt) a = Some (pa + (a - va)) \<and>
      map_option snd (walk (mem u) (cr3 pt) (a div 4096)) = Some (ucast f)"
    if "r = STATUS_OK" "va \<le> a" "a < ve" for a
  proof -
    have "walk (mem u) (cr3 pt) (a div 4096) =
        Some ((pa div 4096 + (a div 4096 - va div 4096)) * 4096, ucast f)"
      using res that range by simp
    moreover have "(pa div 4096 + (a div 4096 - va div 4096)) * 4096 + a mod 4096 = pa + (a - va)"
      using page_base_div_mult [OF al(1)] page_base_div_mult [OF al(2)] div_mult_mod_eq [of a 4096]
      by (simp add: algebra_simps)
    ultimately show ?thesis by (simp add: translate_def)
  qed
  have "translate (mem u) (cr3 pt) a = translate (mem s) (cr3 pt) a" if "a < va \<or> ve \<le> a" for a
  proof -
    have "unat (a div 4096) < unat (va div 4096) + 0 \<or> unat (ve div 4096) \<le> unat (a div 4096)"
      using that range by (metis add_0_right not_le)
    then have "map_option fst (walk (mem u) (cr3 pt) (a div 4096)) =
        map_option fst (walk (mem s) (cr3 pt) (a div 4096))" using res vpn_bound by blast
    moreover have "translate m d a = map_option (\<lambda>f. f + a mod 4096) (map_option fst (walk m d (a div 4096)))" for m d
      by (simp add: translate_def option.map_comp comp_def case_prod_unfold)
    ultimately show ?thesis by simp
  qed
  with res inside show ?thesis by blast
qed

text \<open>C29: \<^verbatim>\<open>paging_map_memory_region\<close> with page-aligned bounds either maps every page of
  \<^verbatim>\<open>[va_start, va_end)\<close> to the corresponding frame with the given access bits, or runs out of memory;
  either way the page table stays well formed and no page outside the range changes its frame.\<close>

theorem map_memory_region:
  assumes "pt_wf s pt" and "bit f 0" and "is_page_aligned va" and "is_page_aligned pa"
    and "is_page_aligned ve" and "va < ve"
    and "paging_map_memory_region pt va pa ve f s = (r, u)"
  shows "pt_wf u pt \<and> (r = STATUS_OK \<or> r = - STATUS_NOT_ENOUGH_MEM) \<and>
    (r = STATUS_OK \<longrightarrow> (\<forall>a. va \<le> a \<longrightarrow> a < ve \<longrightarrow>
       translate (mem u) (cr3 pt) a = Some (pa + (a - va)) \<and>
       map_option snd (walk (mem u) (cr3 pt) (a div 4096)) = Some (ucast f))) \<and>
    (\<forall>a. a < va \<or> ve \<le> a \<longrightarrow> translate (mem u) (cr3 pt) a = translate (mem s) (cr3 pt) a)"
  using map_region_result [OF assms] by blast

theorem map_memory_region_witness:
  "pt_wf (snd (paging_map_memory_region big_table 0x8400000 0x2000000 0x8402000 7 big_state)) big_table"
  using map_memory_region [OF big_table_wf(1), of 7 "0x8400000" "0x2000000" "0x8402000"]
  by (simp add: is_page_aligned_def prod_eq_iff)

lemma free_va_result:
  assumes "pt_wf s pt" and "va \<le> ve" and "paging_free_va pt va ve s = (r, u)"
  shows "r = STATUS_OK \<and> pt_wf u pt \<and> live u = live s \<and>
    (\<forall>a. va div 4096 \<le> a div 4096 \<and> (a div 4096 < ve div 4096 \<or> a div 4096 = ve div 4096 \<and> ve mod 4096 \<noteq> 0) \<longrightarrow>
       translate (mem u) (cr3 pt) a = None \<and>
       (translate (mem s) (cr3 pt) a \<noteq> None \<longrightarrow> tlb u (a div 4096) = None)) \<and>
    (\<forall>a. a div 4096 < va div 4096 \<or> ve div 4096 < a div 4096 \<or> ve div 4096 = a div 4096 \<and> ve mod 4096 = 0 \<longrightarrow>
       translate (mem u) (cr3 pt) a = translate (mem s) (cr3 pt) a \<and> tlb u (a div 4096) = tlb s (a div 4096))"
proof -
  define e where "e = (if ve mod 4096 \<noteq> 0 then ve div 4096 + 1 else ve div 4096)"
  have ue: "unat e = unat (ve div 4096) + (if ve mod 4096 \<noteq> 0 then 1 else 0)"
    using vpn_bound [of ve] unat_add_small [of "ve div 4096" 1] by (simp add: e_def)
  then have le: "unat e \<le> 1048576" using vpn_bound [of ve] by simp
  have "\<not> ve < va" using assms(2) by simp
  then have u: "r = STATUS_OK" "u = paging_free_vpns pt (unat (va div 4096)) (unat e) s"
    using assms(3) by (auto simp: paging_free_va_def e_def Let_def)
  note res = free_vpns_walk [OF assms(1) le, of "unat (va div 4096)", folded u(2)]
  have tr: "translate m d a = None \<longleftrightarrow> walk m d (a div 4096) = None" for m d a by (simp add: translate_def)
  have w: "walk (mem u) (cr3 pt) (a div 4096) = (if unat (va div 4096) \<le> unat (a div 4096) \<and>
      unat (a div 4096) < unat e then None else walk (mem s) (cr3 pt) (a div 4096))" for a
    using res vpn_bound by blast
  have rng: "va div 4096 \<le> a div 4096 \<longleftrightarrow> unat (va div 4096) \<le> unat (a div 4096)"
    "(a div 4096 < ve div 4096 \<or> a div 4096 = ve div 4096 \<and> ve mod 4096 \<noteq> 0) \<longleftrightarrow> unat (a div 4096) < unat e" for a
    unfolding ue by (auto simp: word_le_nat_alt word_less_nat_alt word_unat_eq_iff less_Suc_eq)
  have out: "a div 4096 < va div 4096 \<or> ve div 4096 < a div 4096 \<or> ve div 4096 = a div 4096 \<and> ve mod 4096 = 0 \<longleftrightarrow>
      \<not> (unat (va div 4096) \<le> unat (a div 4096) \<and> unat (a div 4096) < unat e)" for a
    unfolding ue by (auto simp: word_less_nat_alt word_unat_eq_iff)
  show ?thesis
    unfolding rng out using u(1) res w tr by (simp add: translate_def)
qed

text \<open>C30: \<^verbatim>\<open>paging_free_va\<close> removes exactly the pages that meet \<^verbatim>\<open>[start, end)\<close>: the MMU and the TLB no
  longer translate any address of them, all other addresses translate as before, and no page of
  the heap is released.\<close>

theorem free_va_unmaps:
  assumes "pt_wf s pt" and "va \<le> ve" and "paging_free_va pt va ve s = (r, u)"
  shows "r = STATUS_OK \<and> pt_wf u pt \<and> live u = live s \<and>
    (\<forall>a. va div 4096 \<le> a div 4096 \<and> (a div 4096 < ve div 4096 \<or> a div 4096 = ve div 4096 \<and> ve mod 4096 \<noteq> 0) \<longrightarrow>
       translate (mem u) (cr3 pt) a = None \<and>
       (translate (mem s) (cr3 pt) a \<noteq> None \<longrightarrow> tlb u (a div 4096) = None)) \<and>
    (\<forall>a. a div 4096 < va div 4096 \<or> ve div 4096 < a div 4096 \<or> ve div 4096 = a div 4096 \<and> ve mod 4096 = 0 \<longrightarrow>
       translate (mem u) (cr3 pt) a = translate (mem s) (cr3 pt) a \<and> tlb u (a div 4096) = tlb s (a div 4096))"
  using free_va_result [OF assms] by blast

text \<open>The same page table on a machine with paging registers, for concrete instances.\<close>

definition paged :: "kheap_st \<Rightarrow> page_table_32b \<Rightarrow> paging_st" where
  "paged s pt = kheap_st.extend s \<lparr>kpage_table = pt, current_pt = None, cr3_reg = 0, paging_on = False,
     tlb = (\<lambda>_. Some 1)\<rparr>"

lemma paged_simps [simp]:
  "mem (paged s pt) = mem s" "kheap_ok (paged s pt) = kheap_ok s" "live (paged s pt) = live s"
  "kheap_num_free_blocks (paged s pt) = kheap_num_free_blocks s"
  by (simp_all add: paged_def kheap_st.extend_def kheap_ok_def heap_geometry_def table_guard_def
      live_def live_blocks_def kheap_block_to_addr_def free_count_eq)

lemma pt_wf_cong:
  assumes "kheap_ok t = kheap_ok s" and "live t = live s" and "mem t = mem s"
  shows "pt_wf t pt = pt_wf s pt"
  using assms by (simp add: pt_wf_def pt_get_def)

theorem free_va_unmaps_witness:
  "translate (mem (snd (paging_free_va big_table 0x1000 0x2000 (paged big_state big_table)))) (cr3 big_table)
     0x1234 = None"
proof -
  have "pt_wf (paged big_state big_table) big_table"
    using big_table_wf(1) by (simp add: pt_wf_cong [of "paged big_state big_table" big_state])
  from free_va_unmaps [OF this, of "0x1000" "0x2000" "fst (paging_free_va big_table 0x1000 0x2000 (paged big_state big_table))"]
  show ?thesis by auto
qed

text \<open>C31: booting: when the heap has 1025 free blocks, \<^verbatim>\<open>kpaging_init\<close> returns with paging enabled, the
  directory register on the kernel page table, and every address mapped to itself; with fewer it
  panics.\<close>

theorem kpaging_init_identity:
  assumes "kheap_ok s"
  shows "(1025 \<le> kheap_num_free_blocks s \<longrightarrow> (\<exists>u. kpaging_init s = Ret () u \<and> paging_on u \<and>
            cr3_reg u = cr3 (kpage_table u) \<and> current_pt u = Some (kpage_table u) \<and> pt_wf u (kpage_table u) \<and>
            (\<forall>va. translate (mem u) (cr3_reg u) va = Some va))) \<and>
         (kheap_num_free_blocks s < 1025 \<longrightarrow>
            (\<exists>u. kpaging_init s = Panic ''Failed to create kernel page table'' u))"
proof -
  obtain r pt' u where c: "paging_create_4gb_page_tables (PAGE_PRESENT OR PAGE_WRITE_ALLOW) (kpage_table s) s = ((r, pt'), u)"
    by (metis prod.collapse)
  have bit: "bit (PAGE_PRESENT OR PAGE_WRITE_ALLOW) 0" by (simp add: bit_or_iff)
  note res = create_4gb_result [OF assms bit c] create_4gb_count [OF assms c]
  let ?w = "paging_enable (paging_switch pt' (u\<lparr>kpage_table := pt'\<rparr>))"
  have w: "kpage_table ?w = pt'" "cr3_reg ?w = cr3 pt'" "paging_on ?w" "current_pt ?w = Some pt'" "mem ?w = mem u"
    by (simp_all add: paging_enable_def paging_switch_def paging_load_dir_def)
  have "pt_wf ?w pt' = pt_wf u pt'"
    by (rule pt_wf_cong) (simp_all add: paging_enable_def paging_switch_def paging_load_dir_def
      kheap_ok_def heap_geometry_def table_guard_def live_def live_blocks_def kheap_block_to_addr_def)
  then have "kpaging_init s = Ret () ?w \<and> pt_wf ?w (kpage_table ?w) \<and>
      (\<forall>va. translate (mem ?w) (cr3_reg ?w) va = Some va)" if "r = STATUS_OK"
    using res that c translate_ident w by (auto simp: kpaging_init_def)
  moreover have "\<exists>u. kpaging_init s = Panic ''Failed to create kernel page table'' u" if "r \<noteq> STATUS_OK"
    using that c by (simp add: kpaging_init_def panic_def)
  ultimately show ?thesis using res(2) w by (metis not_less)
qed

theorem kpaging_init_identity_witness:
  "\<exists>u. kpaging_init (paged big_heap no_table) = Ret () u \<and> translate (mem u) (cr3_reg u) 0xB8000 = Some 0xB8000"
  using kpaging_init_identity [of "paged big_heap no_table"] by (auto simp: kheap_ok_big free_count_big)

text \<open>C32: \<^verbatim>\<open>paging_new_vpn_to_pfn\<close> with \<^verbatim>\<open>overwrite\<close> maps the page, but it also rewrites the directory
  entry with the new flags: the other pages of the same 4 MB keep their frames and lose every
  access right that the new flags do not have. Pages of other directories are untouched.\<close>

theorem new_vpn_maps:
  assumes "pt_wf s pt" and "unat vpn < 1048576" and "bit f 0"
    and "paging_new_vpn_to_pfn pt vpn pfn f True s = (STATUS_OK, u)"
  shows "pt_wf u pt \<and> walk (mem u) (cr3 pt) vpn = Some (pfn * 4096, ucast f) \<and>
    (\<forall>v. unat v < 1048576 \<longrightarrow> drop_bit 10 v \<noteq> drop_bit 10 vpn \<longrightarrow> walk (mem u) (cr3 pt) v = walk (mem s) (cr3 pt) v) \<and>
    (\<forall>v. unat v < 1048576 \<longrightarrow> v \<noteq> vpn \<longrightarrow> drop_bit 10 v = drop_bit 10 vpn \<longrightarrow>
       map_option fst (walk (mem u) (cr3 pt) v) = map_option fst (walk (mem s) (cr3 pt) v) \<and>
       (\<forall>fr a. walk (mem u) (cr3 pt) v = Some (fr, a) \<longrightarrow> a AND ucast f = a))"
proof (intro conjI allI impI)
  show "pt_wf u pt" using new_vpn_result(2) [OF assms(1,2,4)] .
  show "walk (mem u) (cr3 pt) vpn = Some (pfn * 4096, ucast f)"
    using new_vpn_walk(1) [OF assms(1,2,2,3,4)] by simp
  fix v :: u32 assume v: "unat v < 1048576"
  note w = new_vpn_walk(2) [OF assms(1,2) v assms(3,4)]
  show "walk (mem u) (cr3 pt) v = walk (mem s) (cr3 pt) v" if "drop_bit 10 v \<noteq> drop_bit 10 vpn"
  proof -
    have "v \<noteq> vpn" using that by blast
    with that show ?thesis using w by simp
  qed
  assume ne: "v \<noteq> vpn" and eq: "drop_bit 10 v = drop_bit 10 vpn"
  show "map_option fst (walk (mem u) (cr3 pt) v) = map_option fst (walk (mem s) (cr3 pt) v)"
    using new_vpn_keeps(1) [OF assms(1,2) v assms(3) ne assms(4)] .
  fix fr a assume "walk (mem u) (cr3 pt) v = Some (fr, a)"
  then obtain e where "a = ucast f AND e" using w [OF ne] eq by (auto split: if_splits)
  then show "a AND ucast f = a" by (simp add: and.left_commute and.commute)
qed

lemma new_vpn_present_ok:
  "walk (mem s) (cr3 pt) vpn \<noteq> None \<Longrightarrow> fst (paging_new_vpn_to_pfn pt vpn pfn f True s) = STATUS_OK"
  by (auto simp: new_vpn_eq second_level_def walk_pt Let_def split: if_splits)

lemma big_walk: "walk (mem big_state) (cr3 big_table) 0x8400 = Some (0x8400000, 7)"
  using create_4gb_result [OF kheap_ok_big _ big_create] by simp

theorem new_vpn_maps_witness:
  "walk (mem (snd (paging_new_vpn_to_pfn big_table 0x8400 5 1 True big_state))) (cr3 big_table) 0x8400 =
     Some (0x5000, 1)"
proof -
  have "paging_new_vpn_to_pfn big_table 0x8400 5 1 True big_state =
      (STATUS_OK, snd (paging_new_vpn_to_pfn big_table 0x8400 5 1 True big_state))"
    using new_vpn_present_ok [of big_state big_table "0x8400" 5 1] big_walk by (simp add: prod_eq_iff)
  from new_vpn_maps [OF big_table_wf(1) _ _ this] show ?thesis by simp
qed

text \<open>Without \<^verbatim>\<open>overwrite\<close> the call reports success on a page of an absent table but never enters
  the new table in the directory: the page stays unmapped and the table is lost.\<close>

lemma new_vpn_no_overwrite_lost:
  assumes "pt_wf s pt" and "unat vpn < 1048576" and "\<not> present (pt_get (cr3 pt) (drop_bit 10 vpn) s)"
    and "kheap_num_free_blocks s \<noteq> 0"
  shows "\<exists>q u. paging_new_vpn_to_pfn pt vpn pfn f False s = (STATUS_OK, u) \<and>
    walk (mem u) (cr3 pt) vpn = None \<and> live u = insert (q, 1) (live s) \<and> (q, 1) \<notin> live s"
proof -
  note wf = pt_wfD [OF assms(1)] and idx = vpn_indices [OF assms(2)]
  obtain q t where z: "kzalloc 4096 s = (q, t)" by fastforce
  have q: "q \<noteq> 0" using kzalloc_page_counts(1) [OF wf(1) z] assms(4) by simp
  let ?u = "pt_set q (vpn mod 1024) (pfn * 4096 OR ucast f) t"
  have "pt_get q (vpn mod 1024) t = 0" using kzalloc_page_new [OF wf(1) z q idx(2)] .
  then have res: "paging_new_vpn_to_pfn pt vpn pfn f False s = (STATUS_OK, ?u)"
    using assms(3) z q by (simp add: paging_new_vpn_to_pfn_def present_alt Let_def)
  have live: "live t = insert (q, 1) (live s)" "(q, 1) \<notin> live s" "page_base q"
    using kzalloc_page(3) [OF wf(1) z q] by auto
  then have "q \<noteq> cr3 pt" using wf(2) by auto
  then have "pt_get (cr3 pt) (drop_bit 10 vpn) ?u = pt_get (cr3 pt) (drop_bit 10 vpn) s"
    using kzalloc_pt_get [OF wf(1) z wf(2) idx(1)] by (simp add: pt_get_set [OF live(3) wf(3) idx(2,1)])
  then have "walk (mem ?u) (cr3 pt) vpn = None" using assms(3) by (simp add: walk_pt)
  then show ?thesis using res live by auto
qed

text \<open>A page table with an empty directory.\<close>

definition bare_table :: page_table_32b where
  "bare_table = snd (fst (paging_init_new_mapping no_table big_heap))"

definition bare_state :: kheap_st where
  "bare_state = snd (paging_init_new_mapping no_table big_heap)"

lemma init_new_mapping_wf:
  assumes "kheap_ok s" and "paging_init_new_mapping pt s = ((r, pt'), u)"
  shows "r = STATUS_OK \<longleftrightarrow> kheap_num_free_blocks s \<noteq> 0"
    and "r = STATUS_OK \<Longrightarrow> pt_wf u pt' \<and> num_levels pt' = 2 \<and> Suc (kheap_num_free_blocks u) = kheap_num_free_blocks s \<and>
           (\<forall>i < 1024. pt_get (cr3 pt') i u = 0)"
proof -
  obtain q t where z: "kzalloc 4096 s = (q, t)" by fastforce
  show iff: "r = STATUS_OK \<longleftrightarrow> kheap_num_free_blocks s \<noteq> 0"
    using assms(2) z kzalloc_page_counts(1) [OF assms(1) z]
    by (auto simp: paging_init_new_mapping_def split: if_splits)
  assume "r = STATUS_OK"
  then have q: "q \<noteq> 0" using iff kzalloc_page_counts(1) [OF assms(1) z] by simp
  then have "u = t" "pt' = pt\<lparr>num_levels := 2, cr3 := q\<rparr>"
    using assms(2) z by (auto simp: paging_init_new_mapping_def)
  then show "pt_wf u pt' \<and> num_levels pt' = 2 \<and> Suc (kheap_num_free_blocks u) = kheap_num_free_blocks s \<and>
      (\<forall>i < 1024. pt_get (cr3 pt') i u = 0)"
    using kzalloc_page [OF assms(1) z] kzalloc_page_new [OF assms(1) z q] kzalloc_page_counts(2) [OF assms(1) z q] q
    by (simp add: pt_wf_def)
qed

lemma new_vpn_no_overwrite_lost_witness:
  "\<exists>u. paging_new_vpn_to_pfn bare_table 0x8400 5 7 False bare_state = (STATUS_OK, u) \<and>
     walk (mem u) (cr3 bare_table) 0x8400 = None"
proof -
  obtain r where r: "paging_init_new_mapping no_table big_heap = ((r, bare_table), bare_state)"
    unfolding bare_table_def bare_state_def by (metis prod.collapse)
  note wf = init_new_mapping_wf [OF kheap_ok_big r]
  have "r = STATUS_OK" using wf(1) by (simp add: free_count_big)
  from wf(2) [OF this] have "pt_wf bare_state bare_table" "kheap_num_free_blocks bare_state \<noteq> 0"
    "\<not> present (pt_get (cr3 bare_table) (drop_bit 10 0x8400) bare_state)"
    using vpn_indices(1) [of "0x8400"] by (simp_all add: free_count_big)
  from new_vpn_no_overwrite_lost [OF this(1) _ this(3,2), of 5 7] show ?thesis by auto
qed

text \<open>The alignment helpers round an address to the page boundary at or below it, and at or above
  it when that boundary is below 4 GB.\<close>

lemma page_alignment:
  "is_page_aligned (paging_down_align_addr a) \<and> paging_down_align_addr a \<le> a \<and> a - paging_down_align_addr a < 4096 \<and>
   is_page_aligned (paging_up_align_addr a) \<and> paging_up_align_addr a - a < 4096"
proof -
  have d: "a div 4096 * 4096 + a mod 4096 = a" by (rule div_mult_mod_eq)
  have down: "paging_down_align_addr a = a div 4096 * 4096"
    unfolding paging_down_align_addr_def PAGE_SIZE_def using d
    by (cases "a mod 4096 = 0") (simp, metis add_diff_cancel_right' if_P)
  have up: "paging_up_align_addr a = (if a mod 4096 = 0 then a div 4096 * 4096 else (a div 4096 + 1) * 4096)"
    unfolding paging_up_align_addr_def PAGE_SIZE_def using d
    by (cases "a mod 4096 = 0") (simp, simp add: algebra_simps)
  have m: "a mod 4096 < 4096" unfolding word_less_nat_alt unat_mod_4096 by simp
  have "a div 4096 * 4096 \<le> a"
    by (simp add: word_le_nat_alt unat_word_ariths unat_div_4096)
  moreover have "a - a div 4096 * 4096 = a mod 4096" using div_mult_mod_eq [of a 4096] by (simp add: algebra_simps)
  moreover have "(if a mod 4096 = 0 then a div 4096 * 4096 else (a div 4096 + 1) * 4096) - a =
      (if a mod 4096 = 0 then 0 else 4096 - a mod 4096)"
    using d by (cases "a mod 4096 = 0") (simp, simp add: algebra_simps)
  moreover have "(if a mod 4096 = 0 then 0 else 4096 - a mod 4096) < (4096 :: u32)"
    using m by (auto simp: word_less_nat_alt unat_sub word_le_nat_alt unat_mod_4096 word_unat_eq_iff)
  ultimately show ?thesis
    unfolding page_aligned_base down up
    using m page_base_mult [of "a div 4096"] page_base_mult [of "a div 4096 + 1"] by (auto split: if_splits)
qed

end
