(* ===== verification/Disk.thy ===== *)
theory Disk
  imports Paging_Tables
begin

text \<open>
  The disk driver \<^verbatim>\<open>src/src/disk/disk.c\<close> and the byte streams of \<^verbatim>\<open>src/src/disk/streamer.c\<close>.
  The ATA drive is hardware: its sectors are the field \<open>ata_data\<close> (sector, word index), its
  command registers are the field \<open>ata\<close>, written by the port output of the driver; it becomes
  ready after every command, so the polling loop is not modelled. Stream structures are kept by
  their address in \<open>streams\<close>; there is one disk, so a disk pointer is NULL or that disk.
\<close>

section \<open>State\<close>

datatype disk_ptr = NullDisk | TheDisk
datatype fs_ptr = NullFs | Fat16_fs

record ata_regs =
  reg_count :: u8
  reg_lba_lo :: u8
  reg_lba_mid :: u8
  reg_lba_hi :: u8
  reg_head :: u8
  reg_command :: u8

record disk_stream =
  stream_disk :: disk_ptr
  byte_offset :: u32

record disk_st = paging_st +
  disk_id :: int
  disk_type :: u32
  disk_sector_size :: u32
  disk_fs :: fs_ptr
  disk_fs_private :: addr
  ata :: ata_regs
  ata_data :: "nat \<Rightarrow> nat \<Rightarrow> u16"
  streams :: "addr \<Rightarrow> disk_stream"

definition DISK_SECTOR_SIZE :: u32 where [simp]: "DISK_SECTOR_SIZE = 512"

section \<open>The driver\<close>

definition get_disk :: "int \<Rightarrow> 'a disk_st_scheme \<Rightarrow> disk_ptr \<times> 'a disk_st_scheme" where
  "get_disk index s =
     (if index \<noteq> 0
      then (NullDisk, print (lit ''ERROR: non zero disk index not supported yet'' @ [10]) s)
      else (TheDisk, s))"

text \<open>The port writes of a read command, and the sector number that the drive takes from them.\<close>

definition ata_command :: "u32 \<Rightarrow> u32 \<Rightarrow> ata_regs" where
  "ata_command start_lba count =
     \<lparr>reg_count = ucast count, reg_lba_lo = ucast (start_lba AND 0xFF),
      reg_lba_mid = ucast (drop_bit 8 start_lba), reg_lba_hi = ucast (drop_bit 16 start_lba),
      reg_head = ucast (signed_drop_bit 24 start_lba OR 0xE0), reg_command = 0x20\<rparr>"

definition ata_lba :: "ata_regs \<Rightarrow> nat" where
  "ata_lba r = unat (reg_lba_lo r) + 256 * unat (reg_lba_mid r) + 65536 * unat (reg_lba_hi r)
               + 16777216 * (unat (reg_head r) mod 16)"

definition store16 :: "memory \<Rightarrow> addr \<Rightarrow> u16 \<Rightarrow> memory" where
  "store16 m a v = m(a := ucast v, a + 1 := ucast (drop_bit 8 v))"

text \<open>The transfer of \<open>count\<close> sectors of 256 words each to consecutive addresses.\<close>

definition ata_transfer :: "(nat \<Rightarrow> nat \<Rightarrow> u16) \<Rightarrow> nat \<Rightarrow> nat \<Rightarrow> addr \<Rightarrow> memory \<Rightarrow> memory" where
  "ata_transfer d lba count buffer m =
     fold (\<lambda>i m. store16 m (buffer + of_nat (2 * i)) (d (lba + i div 256) (i mod 256))) [0..<256 * count] m"

definition disk_read_sectors ::
    "disk_ptr \<Rightarrow> u32 \<Rightarrow> u32 \<Rightarrow> addr \<Rightarrow> 'a disk_st_scheme \<Rightarrow> int \<times> 'a disk_st_scheme" where
  "disk_read_sectors idisk start_lba count buffer s =
     (if idisk \<noteq> TheDisk
      then (- STATUS_IO_ERROR, print (lit ''ERROR: non zero disk index not supported yet'' @ [10]) s)
      else let s = s\<lparr>ata := ata_command start_lba count\<rparr>
           in (0, s\<lparr>mem := ata_transfer (ata_data s) (ata_lba (ata s)) (nat (sint count)) buffer (mem s)\<rparr>))"

section \<open>Streams\<close>

definition disk_stream_new :: "int \<Rightarrow> 'a disk_st_scheme \<Rightarrow> addr \<times> 'a disk_st_scheme" where
  "disk_stream_new disk_no s =
     (let (disk, s) = get_disk disk_no s
      in if disk = NullDisk then (0, s)
         else let (stream, s) = kzalloc 8 s
              in (stream, s\<lparr>streams := (streams s)(stream := \<lparr>stream_disk = disk, byte_offset = 0\<rparr>)\<rparr>))"

definition disk_stream_seek :: "addr \<Rightarrow> u32 \<Rightarrow> 'a disk_st_scheme \<Rightarrow> int \<times> 'a disk_st_scheme" where
  "disk_stream_seek stream pos s =
     (0, s\<lparr>streams := (streams s)(stream := (streams s stream)\<lparr>byte_offset := pos\<rparr>)\<rparr>)"

definition read_bytes :: "memory \<Rightarrow> addr \<Rightarrow> nat \<Rightarrow> u8 list" where
  "read_bytes m p n = map (\<lambda>i. m (p + of_nat i)) [0..<n]"

text \<open>
  The bytes one round takes: up to the end of the request or of the sector. The comparison is
  done in unsigned 32-bit arithmetic.
\<close>

definition stream_to_copy :: "u32 \<Rightarrow> u32 \<Rightarrow> u32 \<Rightarrow> u32" where
  "stream_to_copy sector off end_off =
     (let lba_offset = off mod sector; to_copy = end_off - off
      in if lba_offset + to_copy > sector then sector - lba_offset else to_copy)"

lemma stream_to_copy_less:
  assumes "off < end_off" and "sector \<noteq> 0"
  shows "unat (end_off - (off + stream_to_copy sector off end_off)) < unat (end_off - off)"
proof -
  let ?l = "off mod sector" and ?d = "end_off - off"
  have l: "unat ?l < unat sector" using assms(2) by (simp add: unat_mod word_unat_eq_iff)
  have d: "0 < unat ?d" using assms(1) by (simp add: unat_gt_0)
  show ?thesis
  proof (cases "?l + ?d > sector")
    case False
    then have "stream_to_copy sector off end_off = ?d" by (simp add: stream_to_copy_def Let_def)
    then show ?thesis using d by simp
  next
    case True
    then have t: "stream_to_copy sector off end_off = sector - ?l" by (simp add: stream_to_copy_def Let_def)
    have sub: "unat (sector - ?l) = unat sector - unat ?l"
      using l by (intro unat_sub) (simp add: word_le_nat_alt)
    have "unat sector < unat (?l + ?d)" using True by (simp add: word_less_nat_alt)
    moreover have "unat (?l + ?d) \<le> unat ?l + unat ?d" by (simp add: unat_word_ariths)
    moreover have "unat ?l < unat (?l + ?d)" using l calculation(1) by linarith
    ultimately have lt: "unat (sector - ?l) < unat ?d" using sub l by linarith
    have eq: "end_off - (off + (sector - ?l)) = ?d - (sector - ?l)" by (simp only: diff_diff_add)
    have "unat (?d - (sector - ?l)) = unat ?d - unat (sector - ?l)"
      using lt by (intro unat_sub) (simp add: word_le_nat_alt)
    then show ?thesis unfolding t eq using sub l lt by linarith
  qed
qed

text \<open>
  Where \<^verbatim>\<open>disk_stream_read\<close> copies to: an address, which moves on with every copy, or a local variable
  of the caller, which is not part of the modelled memory; then the bytes copied so far.
\<close>

datatype out_buf = At addr | Local "u8 list"

fun copy_out :: "out_buf \<Rightarrow> addr \<Rightarrow> u32 \<Rightarrow> 'a machine_scheme \<Rightarrow> out_buf \<times> 'a machine_scheme" where
  "copy_out (At p) src num s = (At (p + num), s\<lparr>mem := memcpy (mem s) p src num\<rparr>)"
| "copy_out (Local bs) src num s = (Local (bs @ read_bytes (mem s) src (unat num)), s)"

text \<open>
  The loop of \<^verbatim>\<open>disk_stream_read\<close>: every round reads a sector into the heap block \<open>buf\<close> and copies the
  part asked for from there. (A disk with sector size 0 would divide by zero in C; the loop gives up
  then.)
\<close>

function disk_stream_loop ::
    "addr \<Rightarrow> addr \<Rightarrow> u32 \<Rightarrow> u32 \<Rightarrow> out_buf \<Rightarrow> 'a disk_st_scheme \<Rightarrow> int \<times> out_buf \<times> 'a disk_st_scheme" where
  "disk_stream_loop stream buf off end_off out s =
     (if off < end_off \<and> disk_sector_size s \<noteq> 0
      then let lba = off div disk_sector_size s;
               lba_offset = off mod disk_sector_size s;
               to_copy = stream_to_copy (disk_sector_size s) off end_off;
               (ret, t) = disk_read_sectors (stream_disk (streams s stream)) lba 1 buf s
           in if ret \<noteq> 0 then (ret, out, t)
              else let (out, t) = copy_out out (buf + lba_offset) to_copy t;
                       t = snd (disk_stream_seek stream (off + to_copy) t)
                   in disk_stream_loop stream buf (off + to_copy) end_off out t
      else (0, out, s))"
  by pat_completeness auto
termination
  by (relation "measure (\<lambda>(stream, buf, off, end_off, out, s). unat (end_off - off))")
    (auto intro!: stream_to_copy_less [simplified])

declare disk_stream_loop.simps [simp del]

definition disk_stream_read_to ::
    "addr \<Rightarrow> out_buf \<Rightarrow> u32 \<Rightarrow> 'a disk_st_scheme \<Rightarrow> int \<times> out_buf \<times> 'a disk_st_scheme" where
  "disk_stream_read_to stream out sz s =
     (let (buf, s) = kzalloc (disk_sector_size s) s;
          off = byte_offset (streams s stream);
          (ret, out, s) = disk_stream_loop stream buf off (off + sz) out s
      in (ret, out, snd (kfree buf s)))"

definition disk_stream_read :: "addr \<Rightarrow> addr \<Rightarrow> u32 \<Rightarrow> 'a disk_st_scheme \<Rightarrow> int \<times> 'a disk_st_scheme" where
  "disk_stream_read stream out_buf sz s =
     (let (ret, _, s) = disk_stream_read_to stream (At out_buf) sz s in (ret, s))"

definition disk_stream_read_bytes ::
    "addr \<Rightarrow> u32 \<Rightarrow> 'a disk_st_scheme \<Rightarrow> int \<times> u8 list \<times> 'a disk_st_scheme" where
  "disk_stream_read_bytes stream sz s =
     (let (ret, out, s) = disk_stream_read_to stream (Local []) sz s
      in (ret, case out of Local bs \<Rightarrow> bs | At _ \<Rightarrow> [], s))"

text \<open>Storing a list of bytes.\<close>

definition put_bytes :: "memory \<Rightarrow> addr \<Rightarrow> u8 list \<Rightarrow> memory" where
  "put_bytes m p bs = fold (\<lambda>i m. m(p + of_nat i := bs ! i)) [0..<length bs] m"

definition disk_stream_close :: "addr \<Rightarrow> 'a disk_st_scheme \<Rightarrow> 'a disk_st_scheme" where
  "disk_stream_close stream s = snd (kfree stream s)"

end
