(* ===== verification/Disk_Props.thy ===== *)
theory Disk_Props
  imports Disk
begin

text \<open>
  Reading through a stream returns the bytes of the disk image: the LBA registers denote the
  sector asked for, a sector transfer puts its 512 bytes into the buffer, and the loop of
  \<^verbatim>\<open>disk_stream_read\<close> concatenates the right slices across sector boundaries.
\<close>

section \<open>Addressing\<close>

lemma ata_lba_command:
  assumes "unat lba < 2 ^ 28"
  shows "ata_lba (ata_command lba c) = unat lba"
proof -
  have lo: "unat (ucast (lba AND 0xFF) :: u8) = unat lba mod 256"
  proof -
    have "lba AND 0xFF = take_bit 8 lba" by (simp add: take_bit_eq_mask mask_eq_exp_minus_1)
    then have "ucast (lba AND 0xFF) = (ucast lba :: u8)" 
      by (simp add: unsigned_take_bit_eq take_bit_word_eq_self)
    then show ?thesis by (simp add: unsigned_ucast_eq take_bit_eq_mod)
  qed
  have d: "unat (lba div 256) = unat lba div 256" "unat (lba div 65536) = unat lba div 65536"
    "unat (lba div 16777216) = unat lba div 16777216"
    by (subst unat_div, simp)+
  have mid: "unat (ucast (drop_bit 8 lba) :: u8) = unat lba div 256 mod 256"
    by (simp add: unsigned_ucast_eq take_bit_eq_mod drop_bit_eq_div d)
  have hi: "unat (ucast (drop_bit 16 lba) :: u8) = unat lba div 65536 mod 256"
    by (simp add: unsigned_ucast_eq take_bit_eq_mod drop_bit_eq_div d)
  have head: "unat (ucast (signed_drop_bit 24 lba OR 0xE0) :: u8) mod 16 = unat lba div 16777216"
  proof -
    have high: "\<not> bit lba n" if "28 \<le> n" for n
    proof
      assume "bit lba n"
      then have "bit (unat lba) n" by (simp add: bit_unsigned_iff)
      moreover have "take_bit 28 (unat lba) = unat lba" using assms by (rule take_bit_nat_eq_self)
      ultimately have "n < 28" by (metis bit_take_bit_iff)
      with that show False by simp
    qed
    have high': "bit lba (24 + n) \<Longrightarrow> n < 4" for n using high [of "24 + n"] by linarith
    have e0: "(0xE0 :: u32) = push_bit 5 (mask 3)" by (simp add: mask_eq_exp_minus_1)
    have "take_bit 4 (ucast (signed_drop_bit 24 lba OR 0xE0) :: u8) = ucast (drop_bit 24 lba)"
      unfolding e0 by (rule bit_word_eqI)
        (use high' in \<open>auto simp: bit_simps\<close>)
    moreover have "unat w mod 16 = unat (take_bit 4 w)" for w :: u8
      by (simp add: take_bit_eq_mod) (subst unat_mod, simp)
    ultimately have "unat (ucast (signed_drop_bit 24 lba OR 0xE0) :: u8) mod 16 = unat (ucast (drop_bit 24 lba) :: u8)"
      by (simp only:)
    also have "\<dots> = unat lba div 16777216"
      using assms by (simp add: unsigned_ucast_eq take_bit_eq_mod drop_bit_eq_div d)
    finally show ?thesis .
  qed
  have parts: "unat lba div 256 div 256 = unat lba div 65536" "unat lba div 65536 div 256 = unat lba div 16777216"
    by (simp_all add: div_mult2_eq [symmetric])
  show ?thesis
    unfolding ata_lba_def ata_command_def ata_regs.select_convs lo mid hi head
    using div_mult_mod_eq [of "unat lba" 256] div_mult_mod_eq [of "unat lba div 256" 256]
      div_mult_mod_eq [of "unat lba div 65536" 256] parts by linarith
qed

section \<open>Transferring a sector\<close>

text \<open>The disk as an array of bytes.\<close>

definition disk_byte :: "(nat \<Rightarrow> nat \<Rightarrow> u16) \<Rightarrow> nat \<Rightarrow> u8" where
  "disk_byte d k = (let w = d (k div 512) (k mod 512 div 2)
     in if even k then ucast w else ucast (drop_bit 8 w))"

lemma ata_transfer_eq:
  assumes "512 * count \<le> 2 ^ 32"
  shows "ata_transfer d lba count p m =
     (\<lambda>a. if unat (a - p) < 512 * count then disk_byte d (512 * lba + unat (a - p)) else m a)"
proof -
  have "fold (\<lambda>i m. store16 m (p + of_nat (2 * i)) (d (lba + i div 256) (i mod 256))) [0..<n] m =
      (\<lambda>a. if unat (a - p) < 2 * n then disk_byte d (512 * lba + unat (a - p)) else m a)" if "2 * n \<le> 2 ^ 32" for n
    using that
  proof (induction n)
    case (Suc n)
    let ?w = "d (lba + n div 256) (n mod 256)"
    have at0: "a = p + of_nat (2 * n) \<longleftrightarrow> unat (a - p) = 2 * n" for a
      by (rule offset_eq_iff) (use Suc.prems in simp)
    have at1: "a = p + of_nat (2 * n) + 1 \<longleftrightarrow> unat (a - p) = 2 * n + 1" for a
      using offset_eq_iff [of "2 * n + 1" a p] Suc.prems by (simp add: ac_simps)
    have q: "(512 * lba + 2 * n) div 512 = lba + n div 256" "(512 * lba + 2 * n) mod 512 div 2 = n mod 256"
      "(512 * lba + (2 * n + 1)) div 512 = lba + n div 256" "(512 * lba + (2 * n + 1)) mod 512 div 2 = n mod 256"
    proof -
      define a b where ab: "a = n div 256" "b = n mod 256"
      then have n: "n = 256 * a + b" and b: "b < 256" by simp_all
      have e: "512 * lba + 2 * n = 2 * b + 512 * (lba + a)" "512 * lba + (2 * n + 1) = 2 * b + 1 + 512 * (lba + a)"
        by (simp_all add: n)
      show "(512 * lba + 2 * n) div 512 = lba + n div 256" "(512 * lba + 2 * n) mod 512 div 2 = n mod 256"
        "(512 * lba + (2 * n + 1)) div 512 = lba + n div 256" "(512 * lba + (2 * n + 1)) mod 512 div 2 = n mod 256"
        unfolding e ab [symmetric] mod_mult_self2 using b by simp_all
    qed
    have b0: "disk_byte d (512 * lba + 2 * n) = ucast ?w"
      unfolding disk_byte_def Let_def q by simp
    have b1: "disk_byte d (512 * lba + (2 * n + 1)) = ucast (drop_bit 8 ?w)"
      unfolding disk_byte_def Let_def q by simp
    let ?f = "\<lambda>i m. store16 m (p + of_nat (2 * i)) (d (lba + i div 256) (i mod 256))"
    have IH: "fold ?f [0..<n] m = (\<lambda>a. if unat (a - p) < 2 * n then disk_byte d (512 * lba + unat (a - p)) else m a)"
      using Suc by simp
    have "fold ?f [0..<Suc n] m = store16 (fold ?f [0..<n] m) (p + of_nat (2 * n)) ?w" by simp
    also have "\<dots> = (\<lambda>a. if unat (a - p) < 2 * Suc n then disk_byte d (512 * lba + unat (a - p)) else m a)"
      unfolding IH unfolding store16_def using b0 b1
      by (auto simp: fun_eq_iff at0 [simplified] at1 [simplified] less_Suc_eq)
    finally show ?case .
  qed simp
  from this [of "256 * count"] show ?thesis using assms by (simp add: ata_transfer_def)
qed

lemma disk_read_sectors_ok:
  assumes "unat lba < 2 ^ 28"
  shows "disk_read_sectors TheDisk lba 1 buf s = (0, s\<lparr>ata := ata_command lba 1,
     mem := (\<lambda>a. if in_block a buf 512 then disk_byte (ata_data s) (512 * unat lba + unat (a - buf)) else mem s a)\<rparr>)"
  using ata_transfer_eq [of 1 "ata_data s" "unat lba" buf "mem s"]
  by (simp add: disk_read_sectors_def ata_lba_command [OF assms] in_block_def)

section \<open>Reading a stream\<close>

text \<open>The slice of the disk image that a read of \<open>n\<close> bytes at offset \<open>off\<close> returns.\<close>

definition disk_slice :: "(nat \<Rightarrow> nat \<Rightarrow> u16) \<Rightarrow> nat \<Rightarrow> nat \<Rightarrow> u8 list" where
  "disk_slice d off n = map (\<lambda>i. disk_byte d (off + i)) [0..<n]"

lemma disk_slice_append: "disk_slice d off (m + n) = disk_slice d off m @ disk_slice d (off + m) n"
  by (rule nth_equalityI) (auto simp: disk_slice_def nth_append)

lemma length_disk_slice [simp]: "length (disk_slice d off n) = n"
  by (simp add: disk_slice_def)

text \<open>One round of the loop: the bytes from the sector buffer.\<close>

lemma sector_bytes:
  assumes "unat off mod 512 + n \<le> 512"
    and "\<And>a. in_block a buf 512 \<Longrightarrow> m a = disk_byte d (512 * (unat off div 512) + unat (a - buf))"
  shows "read_bytes m (buf + off mod 512) n = disk_slice d (unat off) n"
  unfolding read_bytes_def disk_slice_def
proof (rule map_cong [OF refl])
  fix i assume "i \<in> set [0..<n]"
  then have i: "unat off mod 512 + i < 512" using assms(1) by simp
  have u: "unat (off mod 512) = unat off mod 512" by (subst unat_mod) simp
  have "buf + off mod 512 + of_nat i - buf = of_nat (unat (off mod 512) + i)" by simp
  then have "buf + off mod 512 + of_nat i - buf = of_nat (unat off mod 512 + i)" unfolding u .
  moreover have "unat (of_nat (unat off mod 512 + i) :: u32) = unat off mod 512 + i"
    by (rule unat_of_nat32) (use i in simp)
  ultimately have d: "unat (buf + off mod 512 + of_nat i - buf) = unat off mod 512 + i" by (simp only:)
  then have "in_block (buf + off mod 512 + of_nat i) buf 512" using i by (simp only: in_block_def)
  from assms(2) [OF this] show "m (buf + off mod 512 + of_nat i) = disk_byte d (unat off + i)"
    unfolding d using mult_div_mod_eq [of 512 "unat off"] by (simp add: add.assoc [symmetric])
qed

lemma to_copy_512:
  assumes "off < end_off"
  shows "stream_to_copy 512 off end_off = of_nat (min (unat end_off - unat off) (512 - unat off mod 512))"
    and "unat (stream_to_copy 512 off end_off) = min (unat end_off - unat off) (512 - unat off mod 512)"
proof -
  define d l where d: "d = unat end_off - unat off" and l: "l = unat off mod 512"
  have le: "unat off < unat end_off" using assms by (simp add: word_less_nat_alt)
  have ud: "unat (end_off - off) = d" unfolding d using le by (intro unat_sub) (simp add: word_le_nat_alt)
  have ul: "unat (off mod 512) = l" unfolding l by (subst unat_mod) simp
  have l512: "l < 512" unfolding l by simp
  have "l \<le> unat off" unfolding l by simp
  then have "l + d < 4294967296" using le unat_u32_bound [of end_off] unfolding d by linarith
  then have sum: "unat (off mod 512 + (end_off - off)) = l + d"
    using ul ud by (simp add: unat_word_ariths)
  have sub: "unat (512 - off mod 512 :: u32) = 512 - l"
    using ul l512 by (subst unat_sub) (simp_all add: word_le_nat_alt)
  have c: "512 < off mod 512 + (end_off - off) \<longleftrightarrow> 512 < l + d" unfolding word_less_nat_alt sum by simp
  show u: "unat (stream_to_copy 512 off end_off) = min (unat end_off - unat off) (512 - unat off mod 512)"
    unfolding stream_to_copy_def Let_def c d [symmetric] l [symmetric]
    using sub ud l512 by auto
  show "stream_to_copy 512 off end_off = of_nat (min (unat end_off - unat off) (512 - unat off mod 512))"
    by (simp flip: u)
qed

section \<open>Storing bytes\<close>

lemma put_bytes_eq:
  assumes "length bs \<le> 2 ^ 32"
  shows "put_bytes m p bs = (\<lambda>a. if in_block a p (length bs) then bs ! unat (a - p) else m a)"
proof -
  have "fold (\<lambda>i m. m(p + of_nat i := bs ! i)) [0..<n] m = (\<lambda>a. if unat (a - p) < n then bs ! unat (a - p) else m a)"
    if "n \<le> 2 ^ 32" for n
    using that
  proof (induction n)
    case (Suc n)
    have at: "a = p + of_nat n \<longleftrightarrow> unat (a - p) = n" for a
      by (rule offset_eq_iff) (use Suc.prems in simp)
    from Suc show ?case by (auto simp: fun_eq_iff at less_Suc_eq)
  qed simp
  with assms show ?thesis by (simp add: put_bytes_def in_block_def)
qed

lemma put_bytes_snoc: "put_bytes m p (xs @ [x]) = (put_bytes m p xs)(p + of_nat (length xs) := x)"
proof -
  have "fold (\<lambda>i m. m(p + of_nat i := (xs @ [x]) ! i)) [0..<length xs] m = put_bytes m p xs"
    unfolding put_bytes_def by (rule fold_cong) (auto simp: nth_append)
  then show ?thesis by (simp add: put_bytes_def)
qed

lemma put_bytes_append: "put_bytes m p (xs @ ys) = put_bytes (put_bytes m p xs) (p + of_nat (length xs)) ys"
proof (induction ys rule: rev_induct)
  case Nil
  then show ?case by (simp add: put_bytes_def)
next
  case (snoc y ys)
  then show ?case using put_bytes_snoc [of m p "xs @ ys" y] by (simp add: put_bytes_snoc add.assoc)
qed

lemma put_bytes_local: "m a = m' a \<Longrightarrow> put_bytes m p xs a = put_bytes m' p xs a"
  by (induction xs rule: rev_induct) (simp_all add: put_bytes_snoc, simp add: put_bytes_def)

lemma memcpy_put:
  assumes "blocks_disjoint d (unat num) src (unat num)"
  shows "memcpy m d src num = put_bytes m d (read_bytes m src (unat num))"
proof -
  have "m (src + (a - d)) = read_bytes m src (unat num) ! unat (a - d)" if "in_block a d (unat num)" for a
    using that by (simp add: read_bytes_def in_block_def)
  moreover have "length (read_bytes m src (unat num)) = unat num" by (simp add: read_bytes_def)
  moreover have "unat num \<le> 2 ^ 32" using unat_u32_bound [of num] by simp
  ultimately show ?thesis
    using put_bytes_eq [of "read_bytes m src (unat num)" m d] by (simp add: memcpy_eq [OF assms] fun_eq_iff)
qed

lemma in_block_split:
  assumes "x + y \<le> 2 ^ 32"
  shows "in_block a p (x + y) \<longleftrightarrow> in_block a p x \<or> in_block a (p + of_nat x) y"
    and "in_block a (p + of_nat x) y \<Longrightarrow> unat (a - p) = x + unat (a - (p + of_nat x))"
proof -
  have off: "unat (a - p) = x + j" if "a = p + of_nat x + of_nat j" "j < y" for j
  proof -
    have "a - p = of_nat (x + j)" using that(1) by simp
    then show ?thesis using that(2) assms by (simp only: unat_of_nat32)
  qed
  show "in_block a (p + of_nat x) y \<Longrightarrow> unat (a - p) = x + unat (a - (p + of_nat x))"
    using assms off in_block_iff [of y a "p + of_nat x"] unat_of_nat32 by (auto simp: in_block_def)
  have y: "y \<le> 2 ^ 32" using assms by simp
  show "in_block a p (x + y) \<longleftrightarrow> in_block a p x \<or> in_block a (p + of_nat x) y"
  proof
    assume b: "in_block a p (x + y)"
    then obtain k where k: "k < x + y" "a = p + of_nat k" using in_block_iff [OF assms] by blast
    show "in_block a p x \<or> in_block a (p + of_nat x) y"
    proof (cases "k < x")
      case True
      then show ?thesis using k assms by (simp add: in_block_offset)
    next
      case False
      then have "a = p + of_nat x + of_nat (k - x)" "k - x < y" using k by simp_all
      then show ?thesis using in_block_iff [OF y] by blast
    qed
  next
    assume "in_block a p x \<or> in_block a (p + of_nat x) y"
    then show "in_block a p (x + y)" using off in_block_iff [OF y, of a "p + of_nat x"] by (auto simp: in_block_def)
  qed
qed

section \<open>The loop\<close>

text \<open>The destination after \<open>bs\<close> was copied to it, the memory then, and that it does not meet the sector buffer.\<close>

fun out_after :: "out_buf \<Rightarrow> u8 list \<Rightarrow> out_buf" where
  "out_after (At p) bs = At (p + of_nat (length bs))"
| "out_after (Local xs) bs = Local (xs @ bs)"

fun out_mem :: "out_buf \<Rightarrow> u8 list \<Rightarrow> memory \<Rightarrow> memory" where
  "out_mem (At p) bs m = put_bytes m p bs"
| "out_mem (Local xs) bs m = m"

fun out_apart :: "out_buf \<Rightarrow> nat \<Rightarrow> addr \<Rightarrow> bool" where
  "out_apart (At p) n buf \<longleftrightarrow> (\<forall>a. in_block a p n \<longrightarrow> \<not> in_block a buf 512)"
| "out_apart (Local xs) n buf \<longleftrightarrow> True"

lemma out_append:
  "out_after out (xs @ ys) = out_after (out_after out xs) ys"
  "out_mem out (xs @ ys) m = out_mem (out_after out xs) ys (out_mem out xs m)"
  by (cases out; simp add: put_bytes_append)+

lemma out_mem_local: "m a = m' a \<Longrightarrow> out_mem out bs m a = out_mem out bs m' a"
  using put_bytes_local [of m a m'] by (cases out) auto

lemma out_apart_split:
  assumes "out_apart out (length bs + n) buf" and "length bs + n \<le> 2 ^ 32"
  shows "out_apart out (length bs) buf" and "out_apart (out_after out bs) n buf"
  using assms(1) in_block_split(1) [OF assms(2)] by (cases out; auto)+

lemma out_empty: "out_after out [] = out" "out_mem out [] m = m"
  by (cases out; simp add: put_bytes_def)+

text \<open>Copying from the sector buffer.\<close>

lemma copy_out_slice:
  assumes "unat off mod 512 + unat num \<le> 512" and "out_apart out (unat num) buf"
    and "\<And>a. in_block a buf 512 \<Longrightarrow> mem s a = disk_byte d (512 * (unat off div 512) + unat (a - buf))"
  shows "copy_out out (buf + off mod 512) num s =
    (out_after out (disk_slice d (unat off) (unat num)), s\<lparr>mem := out_mem out (disk_slice d (unat off) (unat num)) (mem s)\<rparr>)"
proof -
  let ?src = "buf + off mod 512"
  have bytes: "read_bytes (mem s) ?src (unat num) = disk_slice d (unat off) (unat num)"
    by (rule sector_bytes [OF assms(1,3)])
  have u: "unat (off mod 512) = unat off mod 512" by (subst unat_mod) simp
  have "in_block a buf 512" if "in_block a ?src (unat num)" for a
  proof -
    have "unat off mod 512 + unat num \<le> 2 ^ 32" using assms(1) by simp
    from in_block_split(1) [OF this, of a buf] have "in_block a buf (unat off mod 512 + unat num)"
      using that by (simp flip: u)
    then show ?thesis using assms(1) by (simp add: in_block_def)
  qed
  then have "blocks_disjoint p (unat num) ?src (unat num)" if "out = At p" for p
    using assms(2) that by (auto simp: blocks_disjoint_def)
  then show ?thesis using bytes memcpy_put by (cases out) simp_all
qed

lemma stream_loop_step:
  fixes s :: "'a disk_st_scheme" and off end_off :: u32
  defines "n \<equiv> min (unat end_off - unat off) (512 - unat off mod 512)"
  defines "bs \<equiv> disk_slice (ata_data s) (unat off) n"
  assumes "stream_disk (streams s st) = TheDisk" and "disk_sector_size s = 512" and "off < end_off" and "out_apart out n buf"
  shows "\<exists>r m. disk_stream_loop st buf off end_off out s =
      disk_stream_loop st buf (off + of_nat n) end_off (out_after out bs)
        (s\<lparr>ata := r, mem := m, streams := (streams s)(st := (streams s st)\<lparr>byte_offset := off + of_nat n\<rparr>)\<rparr>) \<and>
      (\<forall>a. \<not> in_block a buf 512 \<longrightarrow> m a = out_mem out bs (mem s) a)"
proof -
  note tc = to_copy_512 [OF assms(5), folded n_def]
  have lba: "unat (off div 512) = unat off div 512" by (subst unat_div) simp
  have "unat off div 512 < 8388608" by (rule less_mult_imp_div_less) simp
  then have lba_lt: "unat (off div 512) < 2 ^ 28" unfolding lba by simp
  let ?m = "\<lambda>a. if in_block a buf 512 then disk_byte (ata_data s) (512 * unat (off div 512) + unat (a - buf)) else mem s a"
  let ?t = "s\<lparr>ata := ata_command (off div 512) 1, mem := ?m\<rparr>"
  have rd: "disk_read_sectors TheDisk (off div 512) 1 buf s = (0, ?t)" by (rule disk_read_sectors_ok [OF lba_lt])
  have un: "unat (of_nat n :: u32) = n" using tc by simp
  have cp: "copy_out out (buf + off mod 512) (of_nat n) ?t = (out_after out bs, ?t\<lparr>mem := out_mem out bs ?m\<rparr>)"
  proof -
    have "n \<le> 512 - unat off mod 512" by (simp add: n_def)
    moreover have "unat off mod 512 < 512" by simp
    ultimately have "unat off mod 512 + unat (of_nat n :: u32) \<le> 512" unfolding un by linarith
    from copy_out_slice [OF this, of out buf ?t "ata_data s"] show ?thesis
      unfolding un bs_def using assms(6) by (simp add: lba)
  qed
  have "disk_stream_loop st buf off end_off out s =
      disk_stream_loop st buf (off + of_nat n) end_off (out_after out bs)
        (snd (disk_stream_seek st (off + of_nat n) (?t\<lparr>mem := out_mem out bs ?m\<rparr>)))"
    by (subst disk_stream_loop.simps) (simp add: assms(3-5) rd cp tc(1) Let_def)
  moreover have "out_mem out bs ?m a = out_mem out bs (mem s) a" if "\<not> in_block a buf 512" for a
    using that by (intro out_mem_local) simp
  ultimately show ?thesis
    by (intro exI [of _ "ata_command (off div 512) 1"] exI [of _ "out_mem out bs ?m"]) (simp add: disk_stream_seek_def)
qed

lemma stream_loop_slice:
  assumes "stream_disk (streams s st) = TheDisk" and "disk_sector_size s = 512"
    and "byte_offset (streams s st) = off" and "off \<le> end_off" and "out_apart out (unat end_off - unat off) buf"
  shows "\<exists>r m. disk_stream_loop st buf off end_off out s =
      (0, out_after out (disk_slice (ata_data s) (unat off) (unat end_off - unat off)),
       s\<lparr>ata := r, mem := m, streams := (streams s)(st := (streams s st)\<lparr>byte_offset := end_off\<rparr>)\<rparr>) \<and>
      (\<forall>a. \<not> in_block a buf 512 \<longrightarrow>
         m a = out_mem out (disk_slice (ata_data s) (unat off) (unat end_off - unat off)) (mem s) a)"
  using assms
proof (induction "unat end_off - unat off" arbitrary: off out s rule: less_induct)
  case less
  show ?case
  proof (cases "off < end_off")
    case False
    then have e: "end_off = off" using less.prems(4) by simp
    have "disk_stream_loop st buf off end_off out s = (0, out, s)" using False by (simp add: disk_stream_loop.simps)
    moreover have "(streams s)(st := (streams s st)\<lparr>byte_offset := off\<rparr>) = streams s"
      using less.prems(3) by auto
    ultimately show ?thesis unfolding e
      by (intro exI [of _ "ata s"] exI [of _ "mem s"]) (simp add: disk_slice_def out_empty)
  next
    case True
    define n where "n = min (unat end_off - unat off) (512 - unat off mod 512)"
    let ?bs = "disk_slice (ata_data s) (unat off) n"
    have lt: "unat off < unat end_off" using True by (simp add: word_less_nat_alt)
    then have len: "unat end_off - unat off = n + (unat end_off - (unat off + n))" and n: "0 < n" "n \<le> unat end_off - unat off"
      by (auto simp: n_def)
    have "unat off + n < 4294967296" using n(2) lt unat_u32_bound [of end_off] by linarith
    then have off': "unat (off + of_nat n) = unat off + n" by (intro unat_add_small) simp
    have "n + (unat end_off - (unat off + n)) \<le> 4294967296" using len unat_u32_bound [of end_off] by linarith
    then have "length ?bs + (unat end_off - (unat off + n)) \<le> 2 ^ 32" by simp
    note ap = out_apart_split [OF _ this, of out buf, unfolded length_disk_slice, folded len, OF less.prems(5)]
    obtain r m where step: "disk_stream_loop st buf off end_off out s =
        disk_stream_loop st buf (off + of_nat n) end_off (out_after out ?bs)
          (s\<lparr>ata := r, mem := m, streams := (streams s)(st := (streams s st)\<lparr>byte_offset := off + of_nat n\<rparr>)\<rparr>)"
        (is "_ = disk_stream_loop _ _ _ _ _ ?u") and m: "\<forall>a. \<not> in_block a buf 512 \<longrightarrow> m a = out_mem out ?bs (mem s) a"
      using stream_loop_step [OF less.prems(1,2) True, of out buf] ap(1) unfolding n_def by blast
    have le: "off + of_nat n \<le> end_off" unfolding word_le_nat_alt off' using n lt by linarith
    let ?rest = "disk_slice (ata_data s) (unat off + n) (unat end_off - (unat off + n))"
    have "unat end_off - unat (off + of_nat n) < unat end_off - unat off" unfolding off' using n lt by linarith
    from less.hyps [OF this, of ?u "out_after out ?bs"] obtain r' m' where
      IH: "disk_stream_loop st buf (off + of_nat n) end_off (out_after out ?bs) ?u = (0, out_after (out_after out ?bs) ?rest,
         ?u\<lparr>ata := r', mem := m', streams := (streams ?u)(st := (streams ?u st)\<lparr>byte_offset := end_off\<rparr>)\<rparr>)"
        "\<forall>a. \<not> in_block a buf 512 \<longrightarrow> m' a = out_mem (out_after out ?bs) ?rest m a"
      using less.prems(1,2) le ap(2) by (auto simp: off')
    have "disk_slice (ata_data s) (unat off) (unat end_off - unat off) = ?bs @ ?rest"
      by (subst len) (rule disk_slice_append)
    moreover have "out_mem (out_after out ?bs) ?rest m a = out_mem (out_after out ?bs) ?rest (out_mem out ?bs (mem s)) a"
      if "\<not> in_block a buf 512" for a using m that by (intro out_mem_local) simp
    ultimately show ?thesis unfolding step IH(1) using IH(2)
      by (intro exI [of _ r'] exI [of _ m']) (simp add: out_append)
  qed
qed

section \<open>The whole read\<close>

lemma heap_disk_update [simp]:
  "kheap_ok (s\<lparr>ata := r\<rparr>) = kheap_ok s" "live (s\<lparr>ata := r\<rparr>) = live s"
  "kheap_ok (s\<lparr>streams := x\<rparr>) = kheap_ok s" "live (s\<lparr>streams := x\<rparr>) = live s"
  by (simp_all add: kheap_ok_def heap_geometry_def table_guard_def live_def live_blocks_def
      kheap_block_to_addr_def)

text \<open>The number of free blocks is determined by the live allocations.\<close>

lemma free_iff_not_live:
  assumes "kheap_ok s" and "i < unat (num_entries s)"
  shows "is_free (entries s i) \<longleftrightarrow> \<not> (\<exists>(b, k) \<in> live_blocks s. b \<le> i \<and> i < b + k)"
proof (cases "entries s i = 0")
  case True
  then have "is_free (entries s i)" by (simp add: get_kheap_entry_type_def)
  moreover have "\<not> (region (entries s) b k \<and> b \<le> i \<and> i < b + k)" for b k
    using calculation region_entry [of "entries s" b k i] by (auto simp: block_entry_not_free)
  ultimately show ?thesis by (auto simp: live_blocks_def)
next
  case False
  then obtain b k where b: "region (entries s) b k" "b \<le> i" "i < b + k" "b + k \<le> unat (num_entries s)"
    using assms unfolding kheap_ok_def table_ok_def by blast
  then have "\<not> is_free (entries s i)" using region_entry [OF b(1-3)] by (simp add: block_entry_not_free)
  then show ?thesis using b by (auto simp: live_blocks_def)
qed

lemma free_count_live:
  assumes "kheap_ok s" and "kheap_ok t" and "live t = live s" and "num_entries t = num_entries s"
    and "kheap_physical_start_addr t = kheap_physical_start_addr s"
  shows "kheap_num_free_blocks t = kheap_num_free_blocks s"
proof -
  let ?f = "\<lambda>(b, k :: nat). (kheap_block_to_addr s b, k)" and ?C = "{(b, k :: nat). b < unat (num_entries s)}"
  have geo: "heap_geometry s" using assms(1) by (simp add: kheap_ok_def)
  have inj: "inj_on ?f ?C" by (auto intro!: inj_onI block_to_addr_inj [OF geo])
  have "live_blocks s \<subseteq> ?C" "live_blocks t \<subseteq> ?C" using assms(4) by (auto simp: live_blocks_def region_def)
  moreover have "?f ` live_blocks t = ?f ` live_blocks s"
    using assms(3,5) by (simp add: live_def kheap_block_to_addr_def)
  ultimately have "live_blocks t = live_blocks s" using inj_on_image_eq_iff [OF inj] by blast
  then have "{i. i < unat (num_entries t) \<and> is_free (entries t i)} = {i. i < unat (num_entries s) \<and> is_free (entries s i)}"
    using free_iff_not_live [OF assms(1)] free_iff_not_live [OF assms(2)] assms(4) by auto
  then show ?thesis by (simp add: free_count_eq)
qed

lemma blocks_of_512 [simp]: "blocks_of 512 = 1" "pages_of 512 = 1"
  by (simp_all add: blocks_of_alt pages_of_def)

text \<open>Reading: the bytes returned, and what the call leaves behind.\<close>

lemma stream_read_to:
  assumes "kheap_ok s" and "kheap_num_free_blocks s \<noteq> 0"
    and "stream_disk (streams s st) = TheDisk" and "disk_sector_size s = 512"
    and "unat (byte_offset (streams s st)) + unat n < 2 ^ 32" and "out_apart out (unat n) (fst (kzalloc 512 s))"
  shows "\<exists>t. disk_stream_read_to st out n s =
      (0, out_after out (disk_slice (ata_data s) (unat (byte_offset (streams s st))) (unat n)), t) \<and>
      kheap_ok t \<and> live t = live s \<and> ata_data t = ata_data s \<and> disk_sector_size t = 512 \<and>
      streams t = (streams s)(st := (streams s st)\<lparr>byte_offset := byte_offset (streams s st) + n\<rparr>) \<and>
      kheap_num_free_blocks t = kheap_num_free_blocks s \<and> disk_fs_private t = disk_fs_private s \<and>
      (\<forall>a. \<not> in_block a (fst (kzalloc 512 s)) 512 \<longrightarrow>
         mem t a = out_mem out (disk_slice (ata_data s) (unat (byte_offset (streams s st))) (unat n)) (mem s) a)"
proof -
  let ?off = "byte_offset (streams s st)"
  let ?bs = "disk_slice (ata_data s) (unat ?off) (unat n)"
  obtain buf u where z: "kzalloc 512 s = (buf, u)" by fastforce
  have buf: "buf \<noteq> 0" using kzalloc_block_counts(1) [OF assms(1) z] assms(2) by simp
  note new = kh.alloc_new [OF assms(1) z buf, simplified]
  have oku: "kheap_ok u" by (rule kh.alloc_ok [OF assms(1) z])
  have fr: "streams u = streams s" "ata_data u = ata_data s" "disk_sector_size u = disk_sector_size s"
    "disk_fs_private u = disk_fs_private s" "num_entries u = num_entries s"
    "kheap_physical_start_addr u = kheap_physical_start_addr s"
    using kzalloc_frame [OF z] by (auto simp: heap_frame_def)
  have sum: "unat (?off + n) = unat ?off + unat n" using assms(5) by (simp add: unat_word_ariths)
  then have le: "?off \<le> ?off + n" by (simp add: word_le_nat_alt)
  obtain r m where loop: "disk_stream_loop st buf ?off (?off + n) out u = (0, out_after out ?bs,
       u\<lparr>ata := r, mem := m, streams := (streams s)(st := (streams s st)\<lparr>byte_offset := ?off + n\<rparr>)\<rparr>)"
      (is "_ = (0, _, ?v)") and m: "\<forall>a. \<not> in_block a buf 512 \<longrightarrow> m a = out_mem out ?bs (mem u) a"
    using stream_loop_slice [of u st ?off "?off + n" out buf] le assms(3,4,6) fr sum z by auto
  have okv: "kheap_ok ?v" "live ?v = insert (buf, 1) (live s)" using oku new by simp_all
  then have free: "kheap_ok (snd (kfree buf ?v))" "live (snd (kfree buf ?v)) = live s"
    using kfree_live [of ?v buf 1] new by auto
  have "mem u a = mem s a" if "\<not> in_block a buf 512" for a
    using kh.alloc_contents [OF assms(1) z] that by simp
  then have kept: "m a = out_mem out ?bs (mem s) a" if "\<not> in_block a buf 512" for a
    using m that out_mem_local [of "mem u" a "mem s" out ?bs] by simp
  have "disk_stream_read_to st out n s = (0, out_after out ?bs, snd (kfree buf ?v))"
    using z loop fr assms(4) by (simp add: disk_stream_read_to_def Let_def)
  moreover have "streams (snd (kfree buf ?v)) = streams ?v" "ata_data (snd (kfree buf ?v)) = ata_data ?v"
    "disk_sector_size (snd (kfree buf ?v)) = disk_sector_size ?v" "disk_fs_private (snd (kfree buf ?v)) = disk_fs_private ?v"
    by (simp_all add: kfree_def Let_def)
  moreover have "mem (snd (kfree buf ?v)) = m" by simp
  moreover have "kheap_num_free_blocks (snd (kfree buf ?v)) = kheap_num_free_blocks s"
    using free fr by (intro free_count_live [OF assms(1)]) (simp_all add: kfree_def Let_def)
  ultimately show ?thesis using free kept fr assms(4) z by auto
qed

lemma stream_read_bytes:
  assumes "kheap_ok s" and "kheap_num_free_blocks s \<noteq> 0"
    and "stream_disk (streams s st) = TheDisk" and "disk_sector_size s = 512"
    and "unat (byte_offset (streams s st)) + unat n < 2 ^ 32"
  shows "\<exists>t. disk_stream_read_bytes st n s =
      (0, disk_slice (ata_data s) (unat (byte_offset (streams s st))) (unat n), t)"
  using stream_read_to [OF assms, of "Local []"] by (auto simp: disk_stream_read_bytes_def)

text \<open>Live memory does not meet the sector buffer.\<close>

lemma live_outside_new:
  assumes "kheap_ok s" and "kheap_num_free_blocks s \<noteq> 0" and "(q, k) \<in> live s" and "in_block a q (4096 * k)"
  shows "\<not> in_block a (fst (kzalloc 512 s)) 512"
proof -
  obtain buf u where z: "kzalloc 512 s = (buf, u)" by fastforce
  have buf: "buf \<noteq> 0" using kzalloc_block_counts(1) [OF assms(1) z] assms(2) by simp
  have "\<not> in_block a buf 4096"
    using kh.alloc_disjoint [OF assms(1) z buf assms(3)] assms(4) unfolding blocks_disjoint_def by auto
  then show ?thesis by (simp add: z in_block_def)
qed

lemma live_apart:
  assumes "kheap_ok s" and "kheap_num_free_blocks s \<noteq> 0"
    and "\<And>a. in_block a p n \<Longrightarrow> \<exists>(q, k) \<in> live s. in_block a q (4096 * k)"
  shows "out_apart (At p) n (fst (kzalloc 512 s))"
  using assms(3) live_outside_new [OF assms(1,2)] by fastforce

text \<open>C33: \<^verbatim>\<open>disk_stream_read\<close> fills the output buffer with the bytes of the disk from the stream position
  on, across any number of sector boundaries; it advances the position by the bytes read, gives
  its sector buffer back, and leaves all memory outside the output buffer and the sector buffer alone,
  all live memory among it. The output buffer must not meet the sector buffer, which is taken from
  the free part of the heap: the copies are made between the transfers.\<close>

theorem stream_read:
  assumes "kheap_ok s" and "kheap_num_free_blocks s \<noteq> 0"
    and "stream_disk (streams s st) = TheDisk" and "disk_sector_size s = 512"
    and "unat (byte_offset (streams s st)) + unat n < 2 ^ 32"
    and "\<forall>a. in_block a out (unat n) \<longrightarrow> \<not> in_block a (fst (kzalloc 512 s)) 512"
  shows "\<exists>t. disk_stream_read st out n s = (0, t) \<and>
      (\<forall>i < unat n. mem t (out + of_nat i) = disk_byte (ata_data s) (unat (byte_offset (streams s st)) + i)) \<and>
      byte_offset (streams t st) = byte_offset (streams s st) + n \<and> kheap_ok t \<and> live t = live s \<and>
      (\<forall>a. \<not> in_block a (fst (kzalloc 512 s)) 512 \<longrightarrow> \<not> in_block a out (unat n) \<longrightarrow> mem t a = mem s a) \<and>
      (\<forall>(q, k) \<in> live s. \<forall>a. in_block a q (4096 * k) \<longrightarrow> \<not> in_block a out (unat n) \<longrightarrow> mem t a = mem s a)"
proof -
  let ?off = "byte_offset (streams s st)"
  let ?bs = "disk_slice (ata_data s) (unat ?off) (unat n)"
  obtain t where t: "disk_stream_read st out n s = (0, t)" "kheap_ok t" "live t = live s"
    "streams t = (streams s)(st := (streams s st)\<lparr>byte_offset := ?off + n\<rparr>)"
    "\<And>a. \<not> in_block a (fst (kzalloc 512 s)) 512 \<Longrightarrow> mem t a = put_bytes (mem s) out ?bs a"
    using stream_read_to [OF assms(1-5), of "At out"] assms(6) by (auto simp: disk_stream_read_def)
  have put: "put_bytes (mem s) out ?bs = (\<lambda>a. if in_block a out (unat n) then ?bs ! unat (a - out) else mem s a)"
    using put_bytes_eq [of ?bs "mem s" out] by simp
  have at: "unat (out + of_nat i - out) = i" if "i < unat n" for i
    using that unat_of_nat32 [of i] less_trans [OF that unat_u32_bound] by simp
  have byte: "mem t (out + of_nat i) = disk_byte (ata_data s) (unat ?off + i)" if "i < unat n" for i
  proof -
    have "in_block (out + of_nat i) out (unat n)" using that at [OF that] by (simp add: in_block_def)
    then show ?thesis using that at [OF that] t(5) assms(6) unfolding put by (simp add: disk_slice_def)
  qed
  have same: "mem t a = mem s a" if "\<not> in_block a (fst (kzalloc 512 s)) 512" "\<not> in_block a out (unat n)" for a
    using t(5) [OF that(1)] that(2) unfolding put by simp
  then show ?thesis
    using t(1-4) byte live_outside_new [OF assms(1,2)] by (intro exI [of _ t]) auto
qed

text \<open>A machine with a disk whose sector \<open>l\<close> holds the number \<open>l\<close> in every word, and a stream.\<close>

definition demo_disk :: "(addr \<Rightarrow> disk_stream) \<Rightarrow> disk_st" where
  "demo_disk str = paging_st.extend (paged big_heap no_table)
     \<lparr>disk_id = 0, disk_type = 0, disk_sector_size = 512, disk_fs = NullFs, disk_fs_private = 0,
      ata = ata_command 0 0, ata_data = (\<lambda>l i. of_nat l), streams = str\<rparr>"

lemma demo_disk_simps [simp]:
  "kheap_ok (demo_disk str)" "kheap_num_free_blocks (demo_disk str) = 2000"
  "streams (demo_disk str) = str" "disk_sector_size (demo_disk str) = 512"
  "ata_data (demo_disk str) = (\<lambda>l i. of_nat l)"
proof -
  have "kheap_ok (demo_disk str) = kheap_ok big_heap"
    "kheap_num_free_blocks (demo_disk str) = kheap_num_free_blocks big_heap"
    by (simp_all add: demo_disk_def paging_st.extend_def paged_def kheap_st.extend_def kheap_ok_def
        heap_geometry_def table_guard_def free_count_eq)
  then show "kheap_ok (demo_disk str)" "kheap_num_free_blocks (demo_disk str) = 2000"
    using kheap_ok_big free_count_big by simp_all
qed (simp_all add: demo_disk_def paging_st.extend_def)

lemma demo_disk_alloc: "fst (kzalloc 512 (demo_disk str)) = 0x1000000"
proof -
  have "kmalloc_search (entries (demo_disk str)) 2000 1 0 = Some 0"
    by (simp add: kmalloc_search_Some free_run_def demo_disk_def paging_st.extend_def paged_def kheap_st.extend_def
        big_heap_def get_kheap_entry_type_def)
  moreover have "unat (num_entries (demo_disk str)) = 2000" "kheap_block_to_addr (demo_disk str) 0 = 0x1000000"
    by (simp_all add: demo_disk_def paging_st.extend_def paged_def kheap_st.extend_def big_heap_def kheap_block_to_addr_def)
  ultimately have "fst (kmalloc 512 (demo_disk str)) = 0x1000000" by (simp add: kmalloc_pages)
  then show ?thesis by (simp add: kzalloc_def split_def Let_def)
qed

theorem stream_read_witness:
  "let s = demo_disk (\<lambda>_. \<lparr>stream_disk = TheDisk, byte_offset = 511\<rparr>);
       t = snd (disk_stream_read 0x2000000 0x3000000 2 s)
   in mem t 0x3000000 = disk_byte (ata_data s) 511 \<and> mem t 0x3000001 = disk_byte (ata_data s) 512"
proof -
  let ?s = "demo_disk (\<lambda>_. \<lparr>stream_disk = TheDisk, byte_offset = 511\<rparr>)"
  have "\<forall>a. in_block a 0x3000000 2 \<longrightarrow> \<not> in_block a (fst (kzalloc 512 ?s)) 512"
    unfolding demo_disk_alloc by (auto simp: in_block_range)
  then obtain t where "disk_stream_read 0x2000000 0x3000000 2 ?s = (0, t)"
    "\<forall>i < 2. mem t (0x3000000 + of_nat i) = disk_byte (ata_data ?s) (511 + i)"
    using stream_read [of ?s "0x2000000" 2 "0x3000000"] by auto
  then show ?thesis by (auto simp: Let_def dest: spec [of _ 0] spec [of _ 1])
qed

end
