(* ===== verification/CString.thy ===== *)
theory CString
  imports KMemory
begin

text \<open>
  The string routines of \<^verbatim>\<open>src/src/lib/string/string.c\<close> on the memory of the machine. Lengths
  and indices are \<^verbatim>\<open>int\<close> in C; \<^verbatim>\<open>strlen\<close> and \<^verbatim>\<open>strcpy\<close>, which have no bound, are partial.
  \<^verbatim>\<open>char\<close> is signed. The predicate \<open>cstr_at\<close> says which byte list a pointer denotes as a C
  string, and the lemmas describe every routine on such lists.
\<close>

section \<open>The routines\<close>

partial_function (option) strlen_loop :: "memory \<Rightarrow> addr \<Rightarrow> nat \<Rightarrow> nat option" where
  "strlen_loop m str i = (if m (str + of_nat i) \<noteq> 0 then strlen_loop m str (Suc i) else Some i)"

definition strlen :: "memory \<Rightarrow> addr \<Rightarrow> nat option" where
  "strlen m str = strlen_loop m str 0"

function strnlen_loop :: "memory \<Rightarrow> addr \<Rightarrow> int \<Rightarrow> nat \<Rightarrow> nat" where
  "strnlen_loop m str maxlen i =
     (if m (str + of_nat i) \<noteq> 0 \<and> int i < maxlen then strnlen_loop m str maxlen (Suc i) else i)"
  by pat_completeness auto
termination
  by (relation "measure (\<lambda>(m, str, maxlen, i). nat (maxlen - int i))") auto

definition strnlen :: "memory \<Rightarrow> addr \<Rightarrow> int \<Rightarrow> int" where
  "strnlen m str maxlen = int (strnlen_loop m str maxlen 0)"

partial_function (option) strcpy_loop :: "memory \<Rightarrow> addr \<Rightarrow> addr \<Rightarrow> nat \<Rightarrow> (nat \<times> memory) option" where
  "strcpy_loop m dst src i =
     (if m (src + of_nat i) \<noteq> 0
      then strcpy_loop (m(dst + of_nat i := m (src + of_nat i))) dst src (Suc i)
      else Some (i, m))"

definition strcpy :: "memory \<Rightarrow> addr \<Rightarrow> addr \<Rightarrow> memory option" where
  "strcpy m dst src =
     (case strcpy_loop m dst src 0 of None \<Rightarrow> None
      | Some (i, m) \<Rightarrow> Some (m(dst + of_nat i := 0)))"

function strncpy_loop :: "memory \<Rightarrow> addr \<Rightarrow> addr \<Rightarrow> int \<Rightarrow> nat \<Rightarrow> nat \<times> memory" where
  "strncpy_loop m dst src maxlen i =
     (if int i < maxlen \<and> m (src + of_nat i) \<noteq> 0
      then strncpy_loop (m(dst + of_nat i := m (src + of_nat i))) dst src maxlen (Suc i)
      else (i, m))"
  by pat_completeness auto
termination
  by (relation "measure (\<lambda>(m, dst, src, maxlen, i). nat (maxlen - int i))") auto

definition strncpy :: "memory \<Rightarrow> addr \<Rightarrow> addr \<Rightarrow> int \<Rightarrow> memory" where
  "strncpy m dst src maxlen =
     (let (i, m) = strncpy_loop m dst src maxlen 0
      in if int i = maxlen \<and> i > 0 then m(dst + of_nat (i - 1) := 0)
         else if int i < maxlen then m(dst + of_nat i := 0)
         else if i = 0 \<and> maxlen > 0 then m(dst + of_nat i := 0)
         else m)"

text \<open>
  The comparisons read their arguments by index, so that one of them may be a local array: a
  string is given by its characters \<open>chars m p\<close> in memory or \<open>local_chars xs\<close> of an array.
\<close>

definition chars :: "memory \<Rightarrow> addr \<Rightarrow> nat \<Rightarrow> u8" where
  "chars m p i = m (p + of_nat i)"

definition local_chars :: "u8 list \<Rightarrow> nat \<Rightarrow> u8" where
  "local_chars xs i = (if i < length xs then xs ! i else 0)"

function strncmp_loop :: "(nat \<Rightarrow> u8) \<Rightarrow> (nat \<Rightarrow> u8) \<Rightarrow> int \<Rightarrow> nat \<Rightarrow> int" where
  "strncmp_loop str1 str2 maxlen i =
     (if int i < maxlen \<and> str1 i \<noteq> 0 \<and> str2 i \<noteq> 0
      then if str1 i \<noteq> str2 i then sint (str1 i) - sint (str2 i)
           else strncmp_loop str1 str2 maxlen (Suc i)
      else if int i = maxlen then 0
      else if str1 i = 0 \<and> str2 i = 0 then 0
      else if str1 i = 0 then - 1
      else 1)"
  by pat_completeness auto
termination
  by (relation "measure (\<lambda>(s1, s2, maxlen, i). nat (maxlen - int i))") auto

definition strncmp :: "memory \<Rightarrow> addr \<Rightarrow> addr \<Rightarrow> int \<Rightarrow> int" where
  "strncmp m str1 str2 maxlen = strncmp_loop (chars m str1) (chars m str2) maxlen 0"

function strnlen_terminator_loop :: "memory \<Rightarrow> addr \<Rightarrow> int \<Rightarrow> u8 \<Rightarrow> nat \<Rightarrow> nat" where
  "strnlen_terminator_loop m str maxlen terminator i =
     (if int i < maxlen \<and> m (str + of_nat i) \<noteq> 0 \<and> m (str + of_nat i) \<noteq> terminator
      then strnlen_terminator_loop m str maxlen terminator (Suc i) else i)"
  by pat_completeness auto
termination
  by (relation "measure (\<lambda>(m, str, maxlen, t, i). nat (maxlen - int i))") auto

definition strnlen_terminator :: "memory \<Rightarrow> addr \<Rightarrow> int \<Rightarrow> u8 \<Rightarrow> int" where
  "strnlen_terminator m str maxlen terminator = int (strnlen_terminator_loop m str maxlen terminator 0)"

text \<open>Signed comparison with the letters coincides with the unsigned one: a byte from 128 on is negative.\<close>

definition to_lower :: "u8 \<Rightarrow> u8" where
  "to_lower c = (if sint c \<ge> 65 \<and> sint c \<le> 90 then c + 32 else c)"

function istrncmp_loop :: "(nat \<Rightarrow> u8) \<Rightarrow> (nat \<Rightarrow> u8) \<Rightarrow> int \<Rightarrow> nat \<Rightarrow> int" where
  "istrncmp_loop str1 str2 maxlen i =
     (if int i < maxlen \<and> str1 i \<noteq> 0 \<and> str2 i \<noteq> 0
      then if to_lower (str1 i) \<noteq> to_lower (str2 i) then sint (str1 i) - sint (str2 i)
           else istrncmp_loop str1 str2 maxlen (Suc i)
      else if int i = maxlen then 0
      else if str1 i = 0 \<and> str2 i = 0 then 0
      else if str1 i = 0 then - 1
      else 1)"
  by pat_completeness auto
termination
  by (relation "measure (\<lambda>(s1, s2, maxlen, i). nat (maxlen - int i))") auto

definition istrncmp :: "memory \<Rightarrow> addr \<Rightarrow> addr \<Rightarrow> int \<Rightarrow> int" where
  "istrncmp m str1 str2 maxlen = istrncmp_loop (chars m str1) (chars m str2) maxlen 0"

definition is_digit :: "u8 \<Rightarrow> bool" where
  "is_digit c \<longleftrightarrow> sint c \<ge> 48 \<and> sint c \<le> 57"

declare strnlen_loop.simps [simp del] strncpy_loop.simps [simp del] strncmp_loop.simps [simp del]
  strnlen_terminator_loop.simps [simp del] istrncmp_loop.simps [simp del]

section \<open>Strings in memory\<close>

definition cstr_at :: "memory \<Rightarrow> addr \<Rightarrow> u8 list \<Rightarrow> bool" where
  "cstr_at m p xs \<longleftrightarrow> (\<forall>i < length xs. m (p + of_nat i) = xs ! i \<and> xs ! i \<noteq> 0) \<and>
     m (p + of_nat (length xs)) = 0"

lemma cstr_at_byte: "cstr_at m p xs \<Longrightarrow> i \<le> length xs \<Longrightarrow> m (p + of_nat i) = (if i < length xs then xs ! i else 0)"
  by (auto simp: cstr_at_def)

lemma cstr_at_end_iff: "cstr_at m p xs \<Longrightarrow> i \<le> length xs \<Longrightarrow> m (p + of_nat i) = 0 \<longleftrightarrow> i = length xs"
  unfolding cstr_at_def by (metis le_neq_implies_less)

lemma cstr_at_unique:
  assumes "cstr_at m p xs" and "cstr_at m p ys"
  shows "xs = ys"
proof -
  have "length xs = length ys"
    using cstr_at_end_iff [OF assms(1), of "length ys"] cstr_at_end_iff [OF assms(2), of "length xs"] assms
    unfolding cstr_at_def by (metis linorder_le_cases)
  then show ?thesis using assms unfolding cstr_at_def by (metis nth_equalityI)
qed

lemma strlen_loop_eq:
  assumes "cstr_at m p xs" and "i \<le> length xs"
  shows "strlen_loop m p i = Some (length xs)"
  using assms
proof (induction "length xs - i" arbitrary: i)
  case 0
  then show ?case by (subst strlen_loop.simps) (simp add: cstr_at_end_iff)
next
  case (Suc n)
  then show ?case by (subst strlen_loop.simps) (simp add: cstr_at_end_iff)
qed

lemma strlen_cstr: "cstr_at m p xs \<Longrightarrow> strlen m p = Some (length xs)"
  by (simp add: strlen_def strlen_loop_eq)

lemma strnlen_loop_eq:
  assumes "cstr_at m p xs" and "i \<le> length xs" and "int i \<le> maxlen"
  shows "strnlen_loop m p maxlen i = min (nat maxlen) (length xs)"
  using assms
proof (induction m p maxlen i rule: strnlen_loop.induct)
  case (1 m p maxlen i)
  then show ?case
    unfolding strnlen_loop.simps [of m p maxlen i]
    using cstr_at_end_iff [OF "1.prems"(1,2)] by (cases "i = length xs") auto
qed

lemma strnlen_cstr: "cstr_at m p xs \<Longrightarrow> 0 \<le> n \<Longrightarrow> strnlen m p n = min n (int (length xs))"
  using strnlen_loop_eq [of m p xs 0 n] by (simp add: strnlen_def)

text \<open>The length up to a terminator.\<close>

lemma drop_take_step:
  "int i < n \<Longrightarrow> i < length xs \<Longrightarrow> drop i (take (nat n) xs) = xs ! i # drop (Suc i) (take (nat n) xs)"
  by (metis Cons_nth_drop_Suc length_take min_less_iff_conj nth_take zless_nat_eq_int_zless)

lemma strnlen_terminator_loop_eq:
  assumes "cstr_at m p xs" and "i \<le> length xs" and "int i \<le> maxlen"
  shows "strnlen_terminator_loop m p maxlen t i = i + length (takeWhile (\<lambda>c. c \<noteq> t) (drop i (take (nat maxlen) xs)))"
  using assms
proof (induction m p maxlen t i rule: strnlen_terminator_loop.induct)
  case (1 m p maxlen t i)
  note unf = strnlen_terminator_loop.simps [of m p maxlen t i]
  have byte: "m (p + of_nat i) = (if i < length xs then xs ! i else 0)"
    using cstr_at_byte [OF "1.prems"(1,2)] .
  show ?case
  proof (cases "int i < maxlen \<and> i < length xs")
    case False
    then have "drop i (take (nat maxlen) xs) = []" using "1.prems"(2,3) by auto
    then show ?thesis using False byte unf by auto
  next
    case True
    have nz: "xs ! i \<noteq> 0" using "1.prems"(1) True by (auto simp: cstr_at_def)
    have d: "drop i (take (nat maxlen) xs) = xs ! i # drop (Suc i) (take (nat maxlen) xs)"
      using True drop_take_step by blast
    show ?thesis
      using True byte nz "1.IH" "1.prems" unfolding unf d by auto
  qed
qed

section \<open>Comparing\<close>

lemma sint_diff_0: "sint (a :: u8) - sint b = 0 \<longleftrightarrow> a = b"
  by (simp add: signed_word_eqI) (metis signed_word_eqI)

text \<open>The characters up to the terminator.\<close>

definition str_of :: "(nat \<Rightarrow> u8) \<Rightarrow> u8 list \<Rightarrow> bool" where
  "str_of f xs \<longleftrightarrow> (\<forall>i < length xs. f i = xs ! i \<and> xs ! i \<noteq> 0) \<and> f (length xs) = 0"

lemma str_of_chars [simp]: "str_of (chars m p) xs \<longleftrightarrow> cstr_at m p xs"
  by (simp add: str_of_def cstr_at_def chars_def)

lemma str_of_local: "list_all (\<lambda>c. c \<noteq> 0) xs \<Longrightarrow> str_of (local_chars xs) xs"
  by (simp add: str_of_def local_chars_def list_all_length)

lemma strncmp_loop_0:
  assumes "str_of f xs" and "str_of g ys" and "i \<le> length xs" and "i \<le> length ys" and "int i \<le> n"
  shows "strncmp_loop f g n i = 0 \<longleftrightarrow> drop i (take (nat n) xs) = drop i (take (nat n) ys)"
  using assms
proof (induction f g n i rule: strncmp_loop.induct)
  case (1 f g n i)
  note unf = strncmp_loop.simps [of f g n i]
  have byte: "f i = (if i < length xs then xs ! i else 0)" "g i = (if i < length ys then ys ! i else 0)"
    using "1.prems" by (auto simp: str_of_def)
  have nz: "i < length xs \<Longrightarrow> xs ! i \<noteq> 0" "i < length ys \<Longrightarrow> ys ! i \<noteq> 0"
    using "1.prems"(1,2) by (auto simp: str_of_def)
  show ?case
  proof (cases "int i < n \<and> i < length xs \<and> i < length ys")
    case True
    then have "drop i (take (nat n) xs) = xs ! i # drop (Suc i) (take (nat n) xs)"
      "drop i (take (nat n) ys) = ys ! i # drop (Suc i) (take (nat n) ys)"
      by (simp_all add: drop_take_step)
    then show ?thesis
      using True byte nz "1.IH" "1.prems" sint_diff_0 [of "xs ! i" "ys ! i"] unfolding unf by auto
  next
    case False
    then show ?thesis
      using byte nz "1.prems"(3-5) unfolding unf
      by (cases "int i < n"; cases "i < length xs"; cases "i < length ys") (auto simp: drop_take_step)
  qed
qed

lemma strncmp_cstr:
  "cstr_at m p xs \<Longrightarrow> cstr_at m q ys \<Longrightarrow> 0 \<le> n \<Longrightarrow>
     strncmp m p q n = 0 \<longleftrightarrow> take (nat n) xs = take (nat n) ys"
  using strncmp_loop_0 [of "chars m p" xs "chars m q" ys 0 n] by (simp add: strncmp_def)

lemma to_lower_0: "to_lower c = 0 \<longleftrightarrow> c = 0"
proof -
  have "c + 32 \<noteq> 0" if "sint c \<ge> 65" "sint c \<le> 90"
  proof
    assume "c + 32 = 0"
    then have "c = - 32" by (simp add: eq_neg_iff_add_eq_0)
    with that show False by simp
  qed
  then show ?thesis by (auto simp: to_lower_def)
qed

lemma istrncmp_loop_0:
  assumes "str_of f xs" and "str_of g ys" and "i \<le> length xs" and "i \<le> length ys" and "int i \<le> n"
  shows "istrncmp_loop f g n i = 0 \<longleftrightarrow> 
           map to_lower (drop i (take (nat n) xs)) = map to_lower (drop i (take (nat n) ys))"
  using assms
proof (induction f g n i rule: istrncmp_loop.induct)
  case (1 f g n i)
  note unf = istrncmp_loop.simps [of f g n i]
  have byte: "f i = (if i < length xs then xs ! i else 0)" "g i = (if i < length ys then ys ! i else 0)"
    using "1.prems" by (auto simp: str_of_def)
  have nz: "i < length xs \<Longrightarrow> xs ! i \<noteq> 0" "i < length ys \<Longrightarrow> ys ! i \<noteq> 0"
    using "1.prems"(1,2) by (auto simp: str_of_def)
  show ?case
  proof (cases "int i < n \<and> i < length xs \<and> i < length ys")
    case True
    then have "drop i (take (nat n) xs) = xs ! i # drop (Suc i) (take (nat n) xs)"
      "drop i (take (nat n) ys) = ys ! i # drop (Suc i) (take (nat n) ys)"
      by (simp_all add: drop_take_step)
    then show ?thesis
      using True byte nz "1.IH" "1.prems" sint_diff_0 [of "xs ! i" "ys ! i"] unfolding unf by auto
  next
    case False
    then show ?thesis
      using byte nz "1.prems"(3-5) unfolding unf
      by (cases "int i < n"; cases "i < length xs"; cases "i < length ys") (auto simp: drop_take_step)
  qed
qed

lemma istrncmp_cstr:
  "cstr_at m p xs \<Longrightarrow> cstr_at m q ys \<Longrightarrow> 0 \<le> n \<Longrightarrow>
     istrncmp m p q n = 0 \<longleftrightarrow> map to_lower (take (nat n) xs) = map to_lower (take (nat n) ys)"
  using istrncmp_loop_0 [of "chars m p" xs "chars m q" ys 0 n] by (simp add: istrncmp_def)

section \<open>Copying\<close>

lemma strncpy_loop_eq:
  assumes "cstr_at m src xs" and "i \<le> length xs" and "int i \<le> n" and "n \<le> 2 ^ 31" and "length xs < 2 ^ 31"
    and "blocks_disjoint dst (nat n) src (Suc (length xs))"
  shows "strncpy_loop m dst src n i = (min (nat n) (length xs),
     \<lambda>a. if i \<le> unat (a - dst) \<and> unat (a - dst) < min (nat n) (length xs) then xs ! unat (a - dst) else m a)"
  using assms
proof (induction m dst src n i rule: strncpy_loop.induct)
  case (1 m dst src n i)
  note unf = strncpy_loop.simps [of m dst src n i]
  have byte: "m (src + of_nat i) = (if i < length xs then xs ! i else 0)"
    using cstr_at_byte [OF "1.prems"(1,2)] .
  have nz: "i < length xs \<Longrightarrow> xs ! i \<noteq> 0" using "1.prems"(1) by (auto simp: cstr_at_def)
  show ?case
  proof (cases "int i < n \<and> i < length xs")
    case False
    then have k: "min (nat n) (length xs) = i" using "1.prems"(2,3) by auto
    have "strncpy_loop m dst src n i = (i, m)" using False byte unf by auto
    then show ?thesis unfolding k by (auto simp: fun_eq_iff)
  next
    case True
    let ?m = "m(dst + of_nat i := xs ! i)"
    have at: "a = dst + of_nat i \<longleftrightarrow> unat (a - dst) = i" for a
      by (rule offset_eq_iff) (use True "1.prems"(5) in simp)
    have "?m (src + of_nat j) = m (src + of_nat j)" if "j \<le> length xs" for j
    proof -
      have "in_block (src + of_nat j) src (Suc (length xs))"
        using that "1.prems"(5) by (subst in_block_offset) simp_all
      moreover have "in_block (dst + of_nat i) dst (nat n)"
        using True "1.prems"(4) by (subst in_block_offset) auto
      ultimately have "src + of_nat j \<noteq> dst + of_nat i"
        using "1.prems"(6) unfolding blocks_disjoint_def by metis
      then show ?thesis by simp
    qed
    then have cs: "cstr_at ?m src xs" using "1.prems"(1) by (simp add: cstr_at_def)
    have b: "m (src + of_nat i) = xs ! i" and c: "int i < n \<and> m (src + of_nat i) \<noteq> 0"
      using True byte nz by simp_all
    have IH: "strncpy_loop ?m dst src n (Suc i) = (min (nat n) (length xs),
       \<lambda>a. if Suc i \<le> unat (a - dst) \<and> unat (a - dst) < min (nat n) (length xs) then xs ! unat (a - dst) else ?m a)"
      by (rule "1.IH" [OF c, unfolded b, OF cs]) (use True "1.prems" in simp_all)
    have "strncpy_loop m dst src n i = strncpy_loop ?m dst src n (Suc i)"
      using True byte nz unf by simp
    then show ?thesis
      unfolding IH using True by (auto simp: fun_eq_iff at zless_nat_eq_int_zless)
  qed
qed

text \<open>\<^verbatim>\<open>strncpy\<close> leaves the longest terminated prefix that fits into the buffer and touches nothing else.\<close>

lemma strncpy_cstr:
  assumes "cstr_at m src xs" and "0 < n" and "n \<le> 2 ^ 31" and "length xs < 2 ^ 31"
    and "blocks_disjoint dst (nat n) src (Suc (length xs))"
  shows "cstr_at (strncpy m dst src n) dst (take (nat n - 1) xs)"
    and "\<not> in_block a dst (nat n) \<Longrightarrow> strncpy m dst src n a = m a"
proof -
  let ?k = "min (nat n) (length xs)" and ?e = "min (nat n - 1) (length xs)"
  let ?m = "\<lambda>a. if unat (a - dst) < ?k then xs ! unat (a - dst) else m a"
  have loop: "strncpy_loop m dst src n 0 = (?k, ?m)"
    using strncpy_loop_eq [OF assms(1) _ _ assms(3-5), of 0] assms(2) by simp
  have eq: "strncpy m dst src n = ?m(dst + of_nat ?e := 0)"
  proof (cases "nat n \<le> length xs")
    case True
    then have "?k = nat n" "?e = nat n - 1" by simp_all
    then show ?thesis unfolding strncpy_def loop using assms(2) by simp
  next
    case False
    then have "?k = length xs" "?e = length xs" "int (length xs) < n" by simp_all
    then show ?thesis unfolding strncpy_def loop by simp
  qed
  have e: "?e < 2 ^ 32" "?e < nat n" using assms(2,4) by auto
  have off: "unat (dst + of_nat i - dst) = i" if "i \<le> ?e" for i
    using le_less_trans [OF that e(1)] by (simp add: unat_of_nat)
  have ne: "dst + of_nat i \<noteq> dst + of_nat ?e" if "i < ?e" for i
    using off [of i] off [of ?e] that by auto
  have nz: "xs ! i \<noteq> 0" if "i < length xs" for i using assms(1) that by (auto simp: cstr_at_def)
  show "cstr_at (strncpy m dst src n) dst (take (nat n - 1) xs)"
    unfolding cstr_at_def eq using off ne nz e by (auto simp: min.commute)
  assume a: "\<not> in_block a dst (nat n)"
  then have "\<not> unat (a - dst) < nat n" by (simp add: in_block_def)
  moreover have "a \<noteq> dst + of_nat ?e" using a in_block_offset [OF e(1)] e(2) by metis
  ultimately show "strncpy m dst src n a = m a" unfolding eq by simp
qed

section \<open>Properties\<close>

text \<open>C36: \<^verbatim>\<open>strncpy\<close> leaves the longest prefix of the source that fits into the buffer together with
  its terminator, always terminates it and writes no byte outside the buffer.\<close>

theorem strncpy_bounded:
  assumes "cstr_at m src xs" and "0 < n" and "n \<le> 2 ^ 31" and "length xs < 2 ^ 31"
    and "blocks_disjoint dst (nat n) src (Suc (length xs))"
  shows "cstr_at (strncpy m dst src n) dst (take (nat n - 1) xs) \<and>
         (\<forall>a. \<not> in_block a dst (nat n) \<longrightarrow> strncpy m dst src n a = m a)"
  using strncpy_cstr [OF assms] by blast

lemma cstr_at_Cons: "cstr_at m p (x # xs) \<longleftrightarrow> m p = x \<and> x \<noteq> 0 \<and> cstr_at m (p + 1) xs"
  unfolding cstr_at_def
  by (auto simp: less_Suc_eq_0_disj algebra_simps)

lemma cstr_at_Nil: "cstr_at m p [] \<longleftrightarrow> m p = 0"
  by (simp add: cstr_at_def)

lemma cstr_at_nonzero: "cstr_at m d ds \<Longrightarrow> 0 \<notin> set ds"
  by (auto simp: cstr_at_def in_set_conv_nth)

lemma cstr_at_drop: "cstr_at m p xs \<Longrightarrow> k \<le> length xs \<Longrightarrow> cstr_at m (p + of_nat k) (drop k xs)"
  by (auto simp: cstr_at_def add.assoc simp flip: of_nat_add)

lemma cstr_at_cong:
  assumes "cstr_at m p xs" and "\<And>i. i \<le> length xs \<Longrightarrow> m' (p + of_nat i) = m (p + of_nat i)"
  shows "cstr_at m' p xs"
  using assms by (auto simp: cstr_at_def)

definition demo_text :: memory where
  "demo_text a = (if a = 0x1000 then 83 else if a = 0x1001 then 72 else if a = 0x1002 then 46
     else if a = 0x2000 then 115 else if a = 0x2001 then 104 else if a = 0x2002 then 47 else 0)"

lemma demo_text_cstr: "cstr_at demo_text 0x1000 [83, 72, 46]" "cstr_at demo_text 0x2000 [115, 104, 47]"
  by (simp_all add: cstr_at_Cons cstr_at_Nil demo_text_def)

theorem strncpy_bounded_witness: "cstr_at (strncpy demo_text 0x3000 0x1000 3) 0x3000 [83, 72]"
proof -
  have "\<not> (in_block a 0x3000 3 \<and> in_block a 0x1000 (Suc (Suc (Suc (Suc 0)))))" for a :: addr
  proof
    assume "in_block a 0x3000 3 \<and> in_block a 0x1000 (Suc (Suc (Suc (Suc 0))))"
    then have a: "unat (a - 0x3000) < 3" "unat (a - 0x1000) < 4" by (simp_all add: in_block_def)
    have "unat (a - 0x3000 + 0x2000) = unat (a - 0x3000) + 0x2000"
      using a(1) unat_add_small [of "a - 0x3000" "0x2000"] by simp
    then show False using a by simp
  qed
  then have "blocks_disjoint 0x3000 3 0x1000 (Suc (Suc (Suc (Suc 0))))" by (simp add: blocks_disjoint_def)
  then show ?thesis
    using strncpy_bounded [OF demo_text_cstr(1), of 3 "0x3000"] by simp
qed

text \<open>\<^verbatim>\<open>strncmp\<close> returns 0 exactly on strings with the same first \<open>n\<close> characters, and
  \<^verbatim>\<open>istrncmp\<close> exactly on strings that have them equal up to the case of ASCII letters.\<close>

lemma compare_prefixes:
  assumes "cstr_at m p xs" and "cstr_at m q ys" and "0 \<le> n"
  shows "(strncmp m p q n = 0 \<longleftrightarrow> take (nat n) xs = take (nat n) ys) \<and>
         (istrncmp m p q n = 0 \<longleftrightarrow> map to_lower (take (nat n) xs) = map to_lower (take (nat n) ys))"
  using strncmp_cstr [OF assms] istrncmp_cstr [OF assms] by blast

lemma compare_prefixes_witness:
  "strncmp demo_text 0x1000 0x2000 2 \<noteq> 0 \<and> istrncmp demo_text 0x1000 0x2000 2 = 0 \<and>
   istrncmp demo_text 0x1000 0x2000 3 \<noteq> 0"
  using compare_prefixes [OF demo_text_cstr, of 2] compare_prefixes [OF demo_text_cstr, of 3]
  by (simp add: to_lower_def)

end
