(* ===== verification/FsUtils.thy ===== *)
theory FsUtils
  imports HeapStructs Disk_Props CString
begin

text \<open>
  Path parsing of \<^verbatim>\<open>src/src/fs/utils.c\<close>. A path is parsed into heap structures: a private copy
  of the text in which every separator becomes a terminator, and a linked list of \<^verbatim>\<open>path_part\<close>
  nodes that point into the copy. A string argument is given by its bytes before the terminator.
  Word \<open>i\<close> of a structure is accessed by \<open>get_field\<close> and \<open>set_field\<close>: a \<^verbatim>\<open>path_part\<close> has the
  name in word 0 and the next node in word 1, a \<^verbatim>\<open>path_t\<close> the drive in word 0 and the list in
  word 1.
\<close>

section \<open>Operations\<close>

definition FS_MAX_PATH_LEN :: nat where [simp]: "FS_MAX_PATH_LEN = 108"

definition path_len :: "u8 list \<Rightarrow> nat" where
  "path_len path = min FS_MAX_PATH_LEN (length path)"

definition is_path_valid :: "u8 list \<Rightarrow> bool" where
  "is_path_valid path \<longleftrightarrow>
     3 \<le> path_len path \<and> is_digit (path ! 0) \<and> path ! 1 = 58 \<and> path ! 2 = 47"

text \<open>The loop over the copy; \<open>root\<close> is the last node of the list built so far.\<close>

function parse_path_loop :: "addr \<Rightarrow> nat \<Rightarrow> nat \<Rightarrow> addr \<Rightarrow> 'a kheap_st_scheme \<Rightarrow> 'a kheap_st_scheme" where
  "parse_path_loop copy i len root s =
     (if i < len
      then if mem s (copy + of_nat i) = 47
           then let s = set_byte (copy + of_nat i) 0 s;
                    (part, s) = kzalloc 8 s;
                    s = set_field part 0 (copy + of_nat (i + 1)) s;
                    s = set_field part 1 0 s;
                    s = set_field root 1 part s
                in parse_path_loop copy (Suc i) len part s
           else parse_path_loop copy (Suc i) len root s
      else s)"
  by pat_completeness auto
termination
  by (relation "measure (\<lambda>(copy, i, len, root, s). len - i)") auto

declare parse_path_loop.simps [simp del]

definition parse_path :: "u8 list \<Rightarrow> 'a kheap_st_scheme \<Rightarrow> addr \<times> 'a kheap_st_scheme" where
  "parse_path path_str s =
     (if \<not> is_path_valid path_str then (0, s)
      else let drive_no = ucast (path_str ! 0) - 48;
               len = path_len path_str;
               (copy, s) = kzalloc (of_nat (len + 1)) s;
               s = s\<lparr>mem := put_bytes (mem s) copy (take len path_str)\<rparr>;
               s = set_byte (copy + of_nat len) 0 s;
               (path, s) = kzalloc 8 s;
               (root, s) = kzalloc 8 s;
               s = set_field path 0 drive_no s;
               s = set_field path 1 root s;
               s = set_field root 0 (copy + 3) s;
               s = set_field root 1 0 s
           in (path, parse_path_loop copy 3 len root s))"

text \<open>The loop that frees the nodes; it does not end on a cyclic list.\<close>

partial_function (option) free_parts :: "addr \<Rightarrow> 'a kheap_st_scheme \<Rightarrow> 'a kheap_st_scheme option" where
  "free_parts part s =
     (if part = 0 then Some s
      else let nxt = get_field part 1 s; s = snd (kfree part s) in free_parts nxt s)"

definition free_path :: "addr \<Rightarrow> 'a kheap_st_scheme \<Rightarrow> 'a kheap_st_scheme option" where
  "free_path path s =
     (let s = snd (kfree (get_field (get_field path 1 s) 0 s) s)
      in case free_parts (get_field path 1 s) s of None \<Rightarrow> None
         | Some s \<Rightarrow> Some (snd (kfree path s)))"

section \<open>Paths as lists of names\<close>

text \<open>The reference: the text after the drive, split at the separators.\<close>

fun split_path :: "u8 list \<Rightarrow> u8 list list" where
  "split_path [] = [[]]"
| "split_path (c # cs) = (if c = 47 then [] # split_path cs
     else (c # hd (split_path cs)) # tl (split_path cs))"

lemma split_path_not_Nil [simp]: "split_path xs \<noteq> []"
  by (induction xs) auto

text \<open>The offsets at which the names start, from \<open>k\<close> on, in the first \<open>n\<close> bytes.\<close>

definition name_offsets :: "u8 list \<Rightarrow> nat \<Rightarrow> nat \<Rightarrow> nat list" where
  "name_offsets xs k n = k # map Suc (filter (\<lambda>j. xs ! j = 47) [k..<n])"

lemma name_offsets_Suc:
  "k \<le> n \<Longrightarrow> name_offsets xs k (Suc n) = name_offsets xs k n @ (if xs ! n = 47 then [Suc n] else [])"
  by (simp add: name_offsets_def)

lemma split_path_takeWhile: "hd (split_path xs) = takeWhile (\<lambda>c. c \<noteq> 47) xs"
  by (induction xs) auto

lemma names_at_offsets:
  "k \<le> length xs \<Longrightarrow>
     map (\<lambda>k. takeWhile (\<lambda>c. c \<noteq> 47) (drop k xs)) (name_offsets xs k (length xs)) = split_path (drop k xs)"
proof (induction "length xs - k" arbitrary: k)
  case 0
  then have "k = length xs" by simp
  then show ?case by (simp add: name_offsets_def)
next
  case (Suc n)
  then have k: "k < length xs" by simp
  then have d: "drop k xs = xs ! k # drop (Suc k) xs" by (simp add: Cons_nth_drop_Suc)
  have u: "[k..<length xs] = k # [Suc k..<length xs]" using k by (simp add: upt_conv_Cons)
  have IH: "map (\<lambda>k. takeWhile (\<lambda>c. c \<noteq> 47) (drop k xs)) (name_offsets xs (Suc k) (length xs)) =
      split_path (drop (Suc k) xs)"
    using Suc.hyps(1) [of "Suc k"] Suc.hyps(2) k by simp
  show ?case
  proof (cases "xs ! k = 47")
    case True
    then have "name_offsets xs k (length xs) = k # name_offsets xs (Suc k) (length xs)"
      by (simp add: name_offsets_def u)
    then show ?thesis using IH True d by simp
  next
    case False
    then have off: "name_offsets xs k (length xs) = k # tl (name_offsets xs (Suc k) (length xs))"
      by (simp add: name_offsets_def u)
    have "tl (split_path (drop (Suc k) xs)) =
        map (\<lambda>k. takeWhile (\<lambda>c. c \<noteq> 47) (drop k xs)) (tl (name_offsets xs (Suc k) (length xs)))"
      by (simp flip: IH map_tl)
    then show ?thesis
      using False d by (simp add: off split_path_takeWhile)
  qed
qed

section \<open>The list of parts\<close>

fun parts_at :: "'a kheap_st_scheme \<Rightarrow> addr \<Rightarrow> (addr \<times> addr) list \<Rightarrow> bool" where
  "parts_at s p [] \<longleftrightarrow> p = 0"
| "parts_at s p ((a, n) # ns) \<longleftrightarrow>
     p = a \<and> a \<noteq> 0 \<and> get_field a 0 s = n \<and> parts_at s (get_field a 1 s) ns"

lemma parts_at_cong:
  assumes "\<And>a. a \<in> fst ` set ns \<Longrightarrow> get_field a 0 t = get_field a 0 s \<and> get_field a 1 t = get_field a 1 s"
  shows "parts_at t p ns = parts_at s p ns"
  using assms by (induction ns arbitrary: p) auto

text \<open>Linking a node behind the last one.\<close>

lemma parts_at_snoc:
  assumes "parts_at s p ns" and "ns \<noteq> []" and "distinct (map fst ns)"
    and "\<And>a. a \<in> fst ` set ns \<Longrightarrow> get_field a 0 t = get_field a 0 s"
    and "\<And>a. a \<in> fst ` set ns \<Longrightarrow> a \<noteq> fst (last ns) \<Longrightarrow> get_field a 1 t = get_field a 1 s"
    and "get_field (fst (last ns)) 1 t = q" and "q \<noteq> 0" and "get_field q 0 t = n" and "get_field q 1 t = 0"
  shows "parts_at t p (ns @ [(q, n)])"
  using assms
proof (induction ns arbitrary: p)
  case Nil
  then show ?case by simp
next
  case (Cons x ns)
  obtain a m where x: "x = (a, m)" by (cases x)
  show ?case
  proof (cases "ns = []")
    case True
    then show ?thesis using Cons.prems x by simp
  next
    case False
    then have "fst (last ns) \<in> fst ` set ns" by simp
    then have "a \<noteq> fst (last ns)" using Cons.prems(3) x by auto
    then have "get_field a 1 t = get_field a 1 s" "get_field a 0 t = get_field a 0 s"
      using Cons.prems(4,5) [of a] x False by auto
    moreover have "parts_at t (get_field a 1 s) (ns @ [(q, n)])"
      using Cons.prems x False by (intro Cons.IH) auto
    ultimately show ?thesis using Cons.prems(1) x by simp
  qed
qed

text \<open>Freeing a list frees its nodes, and the loop ends.\<close>

lemma free_parts_frees:
  assumes "kheap_ok s" and "parts_at s p ns" and "distinct (map fst ns)"
    and "\<forall>a \<in> fst ` set ns. (a, 1) \<in> live s"
  shows "\<exists>t. free_parts p s = Some t \<and> kheap_ok t \<and> live t = live s - (\<lambda>a. (a, 1)) ` fst ` set ns \<and> mem t = mem s"
  using assms
proof (induction ns arbitrary: p s)
  case Nil
  then show ?case by (simp add: free_parts.simps)
next
  case (Cons x ns)
  obtain a m where x: "x = (a, m)" by (cases x)
  let ?s = "snd (kfree a s)"
  have a: "p = a" "a \<noteq> 0" "(a, 1) \<in> live s" and rest: "parts_at s (get_field a 1 s) ns"
    using Cons.prems(2,4) x by auto
  note free = kfree_live [OF Cons.prems(1) a(3)]
  have "parts_at ?s (get_field a 1 s) ns" using rest parts_at_cong [of ns ?s s] by simp
  moreover have "\<forall>a \<in> fst ` set ns. (a, 1) \<in> live ?s"
    using Cons.prems(3,4) x free(2) by auto
  ultimately obtain t where t: "free_parts (get_field a 1 s) ?s = Some t" "kheap_ok t"
      "live t = live ?s - (\<lambda>a. (a, 1)) ` fst ` set ns" "mem t = mem ?s"
    using Cons.IH [OF free(1), of "get_field a 1 s"] Cons.prems(3) by auto
  have "free_parts p s = Some t" using t(1) a by (simp add: free_parts.simps [of a] Let_def)
  then show ?case using t free(2) x by auto
qed

section \<open>Parsing\<close>

text \<open>
  The state between two rounds of the loop: besides the allocations \<open>L\<close> of before, which keep their
  contents \<open>M\<close>, the copy, the \<^verbatim>\<open>path_t\<close> and one node per name so far are live. In the copy the
  separators before \<open>i\<close> are terminators.
\<close>

definition copy_byte :: "u8 list \<Rightarrow> nat \<Rightarrow> nat \<Rightarrow> u8" where
  "copy_byte xs i j = (if j < length xs \<and> \<not> (3 \<le> j \<and> j < i \<and> xs ! j = 47) then xs ! j else 0)"

definition path_state :: "(addr \<times> nat) set \<Rightarrow> memory \<Rightarrow> addr \<Rightarrow> addr \<Rightarrow> addr \<Rightarrow> u8 list \<Rightarrow> nat \<Rightarrow>
    (addr \<times> addr) list \<Rightarrow> 'a kheap_st_scheme \<Rightarrow> bool" where
  "path_state L M copy path root xs i ns s \<longleftrightarrow>
     kheap_ok s \<and> live s = L \<union> (\<lambda>a. (a, 1)) ` set (copy # path # map fst ns) \<and>
     distinct (copy # path # map fst ns) \<and> (\<forall>a \<in> set (copy # path # map fst ns). \<forall>k. (a, k) \<notin> L) \<and>
     (\<forall>(q, k) \<in> L. \<forall>a. in_block a q (4096 * k) \<longrightarrow> mem s a = M a) \<and>
     parts_at s root ns \<and> ns \<noteq> [] \<and> map snd ns = map (\<lambda>k. copy + of_nat k) (name_offsets xs 3 i) \<and>
     (\<forall>j \<le> length xs. mem s (copy + of_nat j) = copy_byte xs i j) \<and>
     get_field path 0 s = ucast (xs ! 0) - 48 \<and> get_field path 1 s = root"

lemma blocks_of_8: "blocks_of 8 = 1" "unat (8 :: u32) \<le> 4096"
  by (simp_all add: blocks_of_alt)

lemma path_stateD:
  assumes "path_state L M copy path root xs i ns s"
  shows "kheap_ok s" and "(copy, 1) \<in> live s" and "(path, 1) \<in> live s"
    and "a \<in> fst ` set ns \<Longrightarrow> (a, 1) \<in> live s" and "ns \<noteq> []" and "fst (last ns) \<in> fst ` set ns"
    and "copy \<noteq> path" and "a \<in> fst ` set ns \<Longrightarrow> a \<noteq> copy \<and> a \<noteq> path" and "(q, k) \<in> L \<Longrightarrow> (q, k) \<in> live s"
    and "a \<in> fst ` set ns \<Longrightarrow> (a, k) \<notin> L" and "(copy, k) \<notin> L" and "(path, k) \<notin> L"
  using assms by (auto simp: path_state_def)

lemma copy_in_page: "j \<le> 4095 \<Longrightarrow> in_block (copy + of_nat j) copy (4096 * 1)"
  by (simp add: in_block_offset)

text \<open>A round that meets a separator.\<close>

definition link_part :: "addr \<Rightarrow> nat \<Rightarrow> addr \<Rightarrow> addr \<Rightarrow> 'a kheap_st_scheme \<Rightarrow> 'a kheap_st_scheme" where
  "link_part copy i part r s =
     set_field r 1 part (set_field part 1 0 (set_field part 0 (copy + of_nat (i + 1)) s))"

lemma link_part_heap [simp]:
  "kheap_ok (link_part copy i part r s) = kheap_ok s" "live (link_part copy i part r s) = live s"
  "kheap_num_free_blocks (link_part copy i part r s) = kheap_num_free_blocks s"
  by (simp_all add: link_part_def)

lemma link_part_fields:
  assumes "kheap_ok s" and "(part, 1) \<in> live s" and "(r, 1) \<in> live s" and "part \<noteq> r"
  shows "get_field part 0 (link_part copy i part r s) = copy + of_nat (i + 1)"
    and "get_field part 1 (link_part copy i part r s) = 0"
    and "get_field r 1 (link_part copy i part r s) = part"
    and "get_field r 0 (link_part copy i part r s) = get_field r 0 s"
    and "(a, 1) \<in> live s \<Longrightarrow> a \<noteq> part \<Longrightarrow> a \<noteq> r \<Longrightarrow> j < 1024 \<Longrightarrow>
           get_field a j (link_part copy i part r s) = get_field a j s"
  using assms unfolding link_part_def by (simp_all add: get_set_field)

lemma link_part_byte:
  assumes "kheap_ok s" and "(part, 1) \<in> live s" and "(r, 1) \<in> live s" and "(q, k) \<in> live s"
    and "q \<noteq> part" and "q \<noteq> r" and "in_block a q (4096 * k)"
  shows "mem (link_part copy i part r s) a = mem s a"
  using assms unfolding link_part_def by (simp add: set_field_other_byte [of _ _ q k])

lemma path_state_link:
  assumes st: "path_state L M copy path root xs i ns s" and i: "3 \<le> i" "i < length xs" "length xs \<le> 108"
    and sep: "xs ! i = 47" and z: "kzalloc 8 (set_byte (copy + of_nat i) 0 s) = (part, t)" and part: "part \<noteq> 0"
  shows "path_state L M copy path root xs (Suc i) (ns @ [(part, copy + of_nat (i + 1))])
           (link_part copy i part (fst (last ns)) t)"
proof -
  let ?r = "fst (last ns)" and ?s = "set_byte (copy + of_nat i) 0 s"
  let ?u = "link_part copy i part ?r t"
  note D = path_stateD [OF st]
  have ok: "kheap_ok ?s" using D(1) by simp
  note z' = small_alloc [OF ok z blocks_of_8]
  have lt: "live t = insert (part, 1) (live s)" and okt: "kheap_ok t" using z'(1,3) part by simp_all
  have fresh: "(part, k) \<notin> live s" for k using z'(4) [of k] part by simp
  have inpage: "in_block (copy + of_nat j) copy (4096 * 1)" if "j \<le> length xs" for j
    using that i(3) by (intro copy_in_page) simp
  have keep: "get_field a j t = get_field a j s" if "(a, 1) \<in> live s" "a \<noteq> copy" "j < 1024" for a j
    using get_field_alloc [OF ok z blocks_of_8 part, of a j] that
      get_field_set_byte [OF D(1) that(1) D(2) that(2) inpage [of i]] i by simp
  have byte: "mem ?u a = mem ?s a" if "(q, k) \<in> live s" "q \<notin> fst ` set ns" "in_block a q (4096 * k)" for q k a
  proof -
    have "mem ?u a = mem t a"
      using that fresh D(4,6) lt by (intro link_part_byte [OF okt, of _ _ q k]) auto
    then show ?thesis using z'(6) [OF part, of q k a] that by simp
  qed
  have ne: "copy + of_nat j \<noteq> copy + of_nat i" if "j \<le> length xs" "j \<noteq> i" for j
    using word_add_of_nat_inj [of copy j i] that i by auto
  have pr: "part \<noteq> ?r" and rl: "(?r, 1) \<in> live t" and pl: "(part, 1) \<in> live t"
    using D(4,6) fresh lt by auto
  note F = link_part_fields [OF okt pl rl pr, where copy = copy and i = i]
  have other: "get_field a j ?u = get_field a j s" if "(a, 1) \<in> live s" "a \<noteq> copy" "a \<noteq> ?r" "j < 1024" for a j
    using F(5) [of a j] keep [of a j] that fresh lt by auto
  have parts: "parts_at ?u root (ns @ [(part, copy + of_nat (i + 1))])"
  proof (rule parts_at_snoc [where s = s])
    show "parts_at s root ns" "distinct (map fst ns)" using st by (auto simp: path_state_def)
    show "get_field a 0 ?u = get_field a 0 s" if "a \<in> fst ` set ns" for a
      using other [of a 0] F(4) keep [of ?r 0] D(4) [OF that] D(4) [OF D(6)] D(8) [OF that] D(8) [OF D(6)]
      by (cases "a = ?r") auto
    show "get_field a 1 ?u = get_field a 1 s" if "a \<in> fst ` set ns" "a \<noteq> ?r" for a
      using other [of a 1] D(4,8) [OF that(1)] that(2) by auto
  qed (use D(5) F part in simp_all)
  have bytes: "mem ?u (copy + of_nat j) = copy_byte xs (Suc i) j" if "j \<le> length xs" for j
  proof -
    have "mem ?u (copy + of_nat j) = mem ?s (copy + of_nat j)"
      using byte [OF D(2) _ inpage [OF that]] D(8) [of copy] by blast
    moreover have "mem s (copy + of_nat j) = copy_byte xs i j" using st that by (simp add: path_state_def)
    ultimately show ?thesis
      using ne [OF that] sep i by (cases "j = i") (auto simp: copy_byte_def less_Suc_eq)
  qed
  have old: "mem ?u a = M a" if "(q, k) \<in> L" "in_block a q (4096 * k)" for q k a
  proof -
    have "mem ?u a = mem ?s a" using byte [of q k a] D(9) [OF that(1)] D(10) [of q k] that by blast
    moreover have "a \<noteq> copy + of_nat i"
      using live_same_page [OF D(1) D(9) [OF that(1)] D(2) that(2)] inpage [of i] i D(11) that(1) by auto
    moreover have "mem s a = M a" using st that by (auto simp: path_state_def)
    ultimately show ?thesis by simp
  qed
  have pf: "get_field path j ?u = get_field path j s" if "j < 1024" for j
    using other [OF D(3), of j] D(6,7,8) that by metis
  have new: "part \<noteq> copy" "part \<noteq> path" "part \<notin> fst ` set ns" "(part, k) \<notin> L" for k
    using fresh D(2,3,4,9) by blast+
  have "map snd (ns @ [(part, copy + of_nat (i + 1))]) = map (\<lambda>k. copy + of_nat k) (name_offsets xs 3 (Suc i))"
    using st i(1) sep by (simp add: path_state_def name_offsets_Suc)
  moreover have "live ?u = L \<union> (\<lambda>a. (a, 1)) ` set (copy # path # map fst (ns @ [(part, copy + of_nat (i + 1))]))"
    using st lt by (auto simp: path_state_def)
  moreover have "distinct (copy # path # map fst (ns @ [(part, copy + of_nat (i + 1))]))"
    using st new by (auto simp: path_state_def)
  moreover have "\<forall>a \<in> set (copy # path # map fst (ns @ [(part, copy + of_nat (i + 1))])). \<forall>k. (a, k) \<notin> L"
    using new(4) D(10,11,12) by auto
  moreover have "get_field path 0 s = ucast (xs ! 0) - 48" "get_field path 1 s = root"
    using st by (auto simp: path_state_def)
  ultimately show ?thesis
    unfolding path_state_def using parts bytes old pf okt by auto
qed

lemma path_state_skip:
  assumes "path_state L M copy path root xs i ns s" and "3 \<le> i" and "xs ! i \<noteq> 47"
  shows "path_state L M copy path root xs (Suc i) ns s"
  using assms by (auto simp: path_state_def name_offsets_Suc copy_byte_def less_Suc_eq)

lemma parse_path_loop_state:
  assumes "path_state L M copy path root xs i ns s" and "3 \<le> i" and "i \<le> length xs" and "length xs \<le> 108"
    and "length (filter (\<lambda>j. xs ! j = 47) [i..<length xs]) \<le> kheap_num_free_blocks s"
  shows "\<exists>ns'. path_state L M copy path root xs (length xs) ns' (parse_path_loop copy i (length xs) (fst (last ns)) s)"
  using assms
proof (induction "length xs - i" arbitrary: i ns s)
  case 0
  then show ?case by (auto simp: parse_path_loop.simps [of copy i])
next
  case (Suc n)
  note st = Suc.prems(1)
  have i: "i < length xs" "[i..<length xs] = i # [Suc i..<length xs]"
    using Suc.hyps(2) by (simp_all add: upt_conv_Cons)
  have byte: "mem s (copy + of_nat i) = xs ! i"
    using st i(1) by (simp add: path_state_def copy_byte_def)
  have IH: "\<exists>ns'. path_state L M copy path root xs (length xs) ns'
        (parse_path_loop copy (Suc i) (length xs) (fst (last ms)) t)"
    if "path_state L M copy path root xs (Suc i) ms t"
      and "length (filter (\<lambda>j. xs ! j = 47) [Suc i..<length xs]) \<le> kheap_num_free_blocks t" for ms and t :: "'a kheap_st_scheme"
    using Suc.hyps(1) [OF _ that(1) _ _ Suc.prems(4) that(2)] Suc.hyps(2) Suc.prems(2) i(1) by simp
  show ?case
  proof (cases "xs ! i = 47")
    case False
    then show ?thesis
      using IH [OF path_state_skip [OF st Suc.prems(2) False]] Suc.prems(5) i byte
      by (simp add: parse_path_loop.simps [of copy i])
  next
    case True
    obtain part t where z: "kzalloc 8 (set_byte (copy + of_nat i) 0 s) = (part, t)" by fastforce
    have "kheap_ok (set_byte (copy + of_nat i) 0 s)" using path_stateD(1) [OF st] by simp
    note z' = small_alloc [OF this z blocks_of_8]
    have part: "part \<noteq> 0" using z'(2) Suc.prems(5) i(2) True by simp
    let ?u = "link_part copy i part (fst (last ns)) t"
    have "parse_path_loop copy i (length xs) (fst (last ns)) s = parse_path_loop copy (Suc i) (length xs) part ?u"
      using i(1) byte True z by (simp add: parse_path_loop.simps [of copy i] link_part_def)
    moreover have "Suc (length (filter (\<lambda>j. xs ! j = 47) [Suc i..<length xs])) \<le> Suc (kheap_num_free_blocks t)"
      using z'(5) [OF part] Suc.prems(5) i(2) True by simp
    ultimately show ?thesis
      using IH [OF path_state_link [OF st Suc.prems(2) i(1) Suc.prems(4) True z part]] by simp
  qed
qed

text \<open>The state when the loop starts.\<close>

definition path_setup :: "u8 list \<Rightarrow> addr \<Rightarrow> addr \<Rightarrow> addr \<Rightarrow> 'a kheap_st_scheme \<Rightarrow> 'a kheap_st_scheme" where
  "path_setup xs copy path root t =
     set_field root 1 0 (set_field root 0 (copy + 3) (set_field path 1 root (set_field path 0 (ucast (xs ! 0) - 48) t)))"

lemma path_setup_heap [simp]:
  "kheap_ok (path_setup xs copy path root t) = kheap_ok t" "live (path_setup xs copy path root t) = live t"
  "kheap_num_free_blocks (path_setup xs copy path root t) = kheap_num_free_blocks t"
  by (simp_all add: path_setup_def)

lemma path_setup_fields:
  assumes "kheap_ok t" and "(path, 1) \<in> live t" and "(root, 1) \<in> live t" and "path \<noteq> root"
  shows "get_field path 0 (path_setup xs copy path root t) = ucast (xs ! 0) - 48"
    and "get_field path 1 (path_setup xs copy path root t) = root"
    and "get_field root 0 (path_setup xs copy path root t) = copy + 3"
    and "get_field root 1 (path_setup xs copy path root t) = 0"
    and "(q, k) \<in> live t \<Longrightarrow> q \<noteq> path \<Longrightarrow> q \<noteq> root \<Longrightarrow> in_block a q (4096 * k) \<Longrightarrow>
           mem (path_setup xs copy path root t) a = mem t a"
  using assms unfolding path_setup_def
  by (simp_all add: get_set_field set_field_other_byte [of _ _ q k])

text \<open>The text copied with its terminator.\<close>

lemma copy_text:
  assumes "length xs \<le> 108"
  shows "j \<le> length xs \<Longrightarrow> ((put_bytes m copy xs)(copy + of_nat (length xs) := 0)) (copy + of_nat j) = copy_byte xs 3 j"
    and "\<not> in_block a copy 4096 \<Longrightarrow> ((put_bytes m copy xs)(copy + of_nat (length xs) := 0)) a = m a"
proof -
  have off: "unat (copy + of_nat j - copy) = j" if "j \<le> length xs" for j
    using that assms by (simp add: unat_of_nat)
  have ne: "copy + of_nat j \<noteq> copy + of_nat (length xs)" if "j < length xs" for j
    using word_add_of_nat_inj [of copy j "length xs"] that assms by auto
  show "((put_bytes m copy xs)(copy + of_nat (length xs) := 0)) (copy + of_nat j) = copy_byte xs 3 j"
    if "j \<le> length xs" for j
    using ne [of j] off [OF that] that assms
    by (cases "j = length xs") (auto simp: put_bytes_eq in_block_def copy_byte_def)
  show "\<not> in_block a copy 4096 \<Longrightarrow> ((put_bytes m copy xs)(copy + of_nat (length xs) := 0)) a = m a"
    using assms off [of "length xs"] by (auto simp: put_bytes_eq in_block_def)
qed

lemma copy_size:
  assumes "length xs \<le> 108"
  shows "blocks_of (of_nat (length xs + 1)) = 1" and "unat (of_nat (length xs + 1) :: u32) \<le> 4096"
proof -
  have u: "unat (of_nat (length xs + 1) :: u32) = length xs + 1" using assms by (intro unat_of_nat32) simp
  then show "unat (of_nat (length xs + 1) :: u32) \<le> 4096" using assms by simp
  show "blocks_of (of_nat (length xs + 1)) = 1"
    using assms by (subst blocks_of_eq) (simp_all only: u, simp_all)
qed

lemma parse_path_start:
  assumes ok: "kheap_ok s" and valid: "is_path_valid xs" and len: "length xs \<le> 108"
    and free: "3 \<le> kheap_num_free_blocks s"
  obtains copy path root u where "path_state (live s) (mem s) copy path root xs 3 [(root, copy + 3)] u"
    and "parse_path xs s = (path, parse_path_loop copy 3 (length xs) root u)"
    and "kheap_num_free_blocks u = kheap_num_free_blocks s - 3"
proof -
  obtain copy s1 where z1: "kzalloc (of_nat (length xs + 1)) s = (copy, s1)" by fastforce
  define s2 where "s2 = set_byte (copy + of_nat (length xs)) 0 (s1\<lparr>mem := put_bytes (mem s1) copy xs\<rparr>)"
  obtain path s3 where z2: "kzalloc 8 s2 = (path, s3)" by fastforce
  obtain root s4 where z3: "kzalloc 8 s3 = (root, s4)" by fastforce
  let ?u = "path_setup xs copy path root s4"
  note Z1 = small_alloc [OF ok z1 copy_size [OF len]]
  have copy: "copy \<noteq> 0" using Z1(2) free by simp
  have s2: "kheap_ok s2" "live s2 = live s1" "kheap_num_free_blocks s2 = kheap_num_free_blocks s1"
    "mem s2 = (put_bytes (mem s1) copy xs)(copy + of_nat (length xs) := 0)"
    using Z1(1) by (simp_all add: s2_def)
  note Z2 = small_alloc [OF s2(1) z2 blocks_of_8]
  have path: "path \<noteq> 0" using Z2(2) Z1(5) [OF copy] s2(3) free by auto
  note Z3 = small_alloc [OF Z2(1) z3 blocks_of_8]
  have root: "root \<noteq> 0" using Z3(2) Z2(5) [OF path] Z1(5) [OF copy] s2(3) free by auto
  have live4: "live s4 = live s \<union> {(copy, 1), (path, 1), (root, 1)}"
    using Z1(3) [OF copy] Z2(3) [OF path] Z3(3) [OF root] s2(2) by auto
  have fresh: "(copy, k) \<notin> live s" "(path, k) \<notin> live s" "(root, k) \<notin> live s" for k
    using Z1(3,4) [OF copy] Z2(3) [OF path] Z2(4) [OF path, of k] Z3(4) [OF root, of k] s2(2) by auto
  have dist: "copy \<noteq> path" "copy \<noteq> root" "path \<noteq> root"
    using Z1(3) [OF copy] Z2(3) [OF path] Z2(4) [OF path, of 1] Z3(4) [OF root, of 1] s2(2) by auto
  note F = path_setup_fields [OF Z3(1), of path root, where xs = xs and copy = copy]
  have keep: "mem ?u a = mem s2 a" if "(q, k) \<in> live s1" "in_block a q (4096 * k)" for q k a
  proof -
    have q: "q \<noteq> path" "q \<noteq> root" "(q, k) \<in> live s4" "(q, k) \<in> live s3"
      using that(1) Z1(3) [OF copy] Z2(3) [OF path] Z3(3) [OF root] fresh dist s2(2) by auto
    have "mem ?u a = mem s4 a" using F(5) [of q k a] live4 dist q that by auto
    then show ?thesis using Z3(6) [OF root q(4) that(2)] Z2(6) [OF path, of q k a] that s2(2) by simp
  qed
  have copied: "mem ?u (copy + of_nat j) = copy_byte xs 3 j" if "j \<le> length xs" for j
    using keep [OF _ copy_in_page [of j copy]] that len Z1(3) [OF copy] copy_text(1) [OF len that] s2(4) by simp
  have old: "mem ?u a = mem s a" if "(q, k) \<in> live s" "in_block a q (4096 * k)" for q k a
  proof -
    have l: "(q, k) \<in> live s1" "(copy, 1) \<in> live s1" using that(1) Z1(3) [OF copy] by auto
    have "\<not> in_block a copy 4096"
      using live_same_page [OF Z1(1) l that(2)] fresh(1) that(1) by auto
    then show ?thesis
      using keep [OF l(1) that(2)] s2(4) copy_text(2) [OF len] Z1(6) [OF copy that] by simp
  qed
  have "path_state (live s) (mem s) copy path root xs 3 [(root, copy + 3)] ?u"
    using F(1-4) live4 dist fresh copied old root Z3(1)
    by (auto simp: path_state_def name_offsets_def)
  moreover have "parse_path xs s = (path, parse_path_loop copy 3 (length xs) root ?u)"
    using valid len z1 z2 z3 by (simp add: parse_path_def path_len_def path_setup_def s2_def)
  moreover have "kheap_num_free_blocks ?u = kheap_num_free_blocks s - 3"
    using Z3(5) [OF root] Z2(5) [OF path] Z1(5) [OF copy] s2(3) by simp
  ultimately show ?thesis by (rule that)
qed

text \<open>Each part is the text up to the next separator.\<close>

lemma name_cstr:
  assumes "\<forall>j \<le> length xs. m (copy + of_nat j) = copy_byte xs (length xs) j" and "list_all (\<lambda>c. c \<noteq> 0) xs"
    and "3 \<le> k" and "k \<le> length xs"
  shows "cstr_at m (copy + of_nat k) (takeWhile (\<lambda>c. c \<noteq> 47) (drop k xs))"
proof -
  let ?w = "takeWhile (\<lambda>c. c \<noteq> 47) (drop k xs)"
  have le: "k + length ?w \<le> length xs" using length_takeWhile_le [of "\<lambda>c. c \<noteq> 47" "drop k xs"] assms(4) by simp
  have m: "m (copy + of_nat k + of_nat i) = copy_byte xs (length xs) (k + i)" if "i \<le> length ?w" for i
    using assms(1) [rule_format, of "k + i"] that le by (simp add: algebra_simps)
  have inside: "?w ! i = xs ! (k + i)" "xs ! (k + i) \<noteq> 47" "xs ! (k + i) \<noteq> 0" if "i < length ?w" for i
  proof -
    show "?w ! i = xs ! (k + i)" using that le by (simp add: takeWhile_nth)
    moreover have "?w ! i \<noteq> 47" using nth_mem [OF that] set_takeWhileD [of "?w ! i" "\<lambda>c. c \<noteq> 47" "drop k xs"] by blast
    ultimately show "xs ! (k + i) \<noteq> 47" by simp
    show "xs ! (k + i) \<noteq> 0" using assms(2) that le by (simp add: list_all_length)
  qed
  have "copy_byte xs (length xs) (k + length ?w) = 0"
  proof (cases "k + length ?w < length xs")
    case True
    then have "drop k xs ! length ?w = 47" using nth_length_takeWhile [of "\<lambda>c. c \<noteq> 47" "drop k xs"] by simp
    then show ?thesis using True assms(3,4) by (simp add: copy_byte_def)
  qed (simp add: copy_byte_def)
  then show ?thesis using m inside le assms(3) by (auto simp: cstr_at_def copy_byte_def)
qed

text \<open>What the loop leaves behind: the names are the segments of the path, and freeing works.\<close>

lemma path_state_names:
  assumes "path_state L M copy path root xs (length xs) ns t" and "list_all (\<lambda>c. c \<noteq> 0) xs" and "3 \<le> length xs"
  shows "list_all2 (\<lambda>(a, n) name. cstr_at (mem t) n name) ns (split_path (drop 3 xs))"
proof -
  let ?f = "\<lambda>k. takeWhile (\<lambda>c. c \<noteq> 47) (drop k xs)" and ?ks = "name_offsets xs 3 (length xs)"
  have bytes: "\<forall>j \<le> length xs. mem t (copy + of_nat j) = copy_byte xs (length xs) j"
    and snd: "map snd ns = map (\<lambda>k. copy + of_nat k) ?ks"
    using assms(1) by (auto simp: path_state_def)
  have split: "split_path (drop 3 xs) = map ?f ?ks" using names_at_offsets [OF assms(3)] by simp
  have "3 \<le> k \<and> k \<le> length xs" if "k \<in> set ?ks" for k
    using that assms(3) by (auto simp: name_offsets_def)
  then have "cstr_at (mem t) (copy + of_nat k) (?f k)" if "k \<in> set ?ks" for k
    using that name_cstr [OF bytes assms(2)] by blast
  then have "list_all2 (cstr_at (mem t)) (map (\<lambda>k. copy + of_nat k) ?ks) (map ?f ?ks)"
    by (simp add: list_all2_conv_all_nth)
  then have "list_all2 (cstr_at (mem t)) (map snd ns) (split_path (drop 3 xs))"
    by (simp only: snd split)
  then show ?thesis by (simp add: list_all2_map1 split_def)
qed

lemma path_state_free:
  assumes "path_state L M copy path root xs i ns t"
  shows "\<exists>u. free_path path t = Some u \<and> kheap_ok u \<and> live u = L"
proof -
  note D = path_stateD [OF assms]
  have P: "get_field path 1 t = root" "parts_at t root ns" "distinct (map fst ns)"
    "map snd ns = map (\<lambda>k. copy + of_nat k) (name_offsets xs 3 i)"
    "live t = L \<union> (\<lambda>a. (a, 1)) ` set (copy # path # map fst ns)"
    using assms by (auto simp: path_state_def)
  obtain n ms where ns: "ns = (root, n) # ms" using P(2) D(5) by (cases ns) auto
  have n: "get_field root 0 t = copy + of_nat 3" using P(2,4) ns by (auto simp: name_offsets_def)
  let ?t = "snd (kfree copy t)"
  have kf: "snd (kfree (get_field root 0 t) t) = ?t" unfolding n using kfree_inside [OF D(1,2), of 3] by simp
  note free = kfree_live [OF D(1,2)]
  have "parts_at ?t root ns" using P(2) parts_at_cong [of ns ?t t] by simp
  moreover have "\<forall>a \<in> fst ` set ns. (a, 1) \<in> live ?t" using D(4,8) free(2) by auto
  ultimately obtain u where u: "free_parts root ?t = Some u" "kheap_ok u"
      "live u = live ?t - (\<lambda>a. (a, 1)) ` fst ` set ns"
    using free_parts_frees [OF free(1) _ P(3)] by blast
  have "(path, 1) \<in> live u" using u(3) free(2) D(3,7,8) by auto
  note last = kfree_live [OF u(2) this]
  have "free_path path t = Some (snd (kfree path u))" using u(1) by (simp add: free_path_def P(1) kf)
  moreover have "live (snd (kfree path u)) = L"
    unfolding last(2) u(3) free(2) P(5)
    using D(10) [where k = 1] D(11) [of 1] D(12) [of 1] by (auto simp: image_iff)
  ultimately show ?thesis using last(1) by blast
qed

lemma parse_path_take: "parse_path (take 108 xs) s = parse_path xs s"
proof -
  have "is_path_valid (take 108 xs) = is_path_valid xs"
    by (auto simp: is_path_valid_def path_len_def)
  then show ?thesis by (simp add: parse_path_def path_len_def Let_def min_def)
qed

section \<open>Properties\<close>

text \<open>C38: on a valid path and with enough free blocks, \<^verbatim>\<open>parse_path\<close> builds a \<^verbatim>\<open>path_t\<close> with the drive
  number and a list with one node per segment of the path (of its first 108 characters), each
  naming a terminated copy of its segment. Every earlier allocation keeps its contents. The loops
  end, and \<^verbatim>\<open>free_path\<close>, although it is handed a pointer into the middle of the copy, ends as well
  and releases exactly what was allocated.\<close>

theorem parse_free_path:
  assumes "kheap_ok s" and "is_path_valid xs" and "list_all (\<lambda>c. c \<noteq> 0) xs"
    and "length (split_path (drop 3 (take 108 xs))) + 2 \<le> kheap_num_free_blocks s"
  shows "\<exists>path t ns. parse_path xs s = (path, t) \<and> path \<noteq> 0 \<and> kheap_ok t \<and> live s \<subseteq> live t \<and>
     get_field path 0 t = ucast (xs ! 0) - 48 \<and> parts_at t (get_field path 1 t) ns \<and>
     list_all2 (\<lambda>(a, n) name. cstr_at (mem t) n name) ns (split_path (drop 3 (take 108 xs))) \<and>
     (\<forall>(q, k) \<in> live s. \<forall>a. in_block a q (4096 * k) \<longrightarrow> mem t a = mem s a) \<and>
     (\<exists>u. free_path path t = Some u \<and> kheap_ok u \<and> live u = live s)"
proof -
  let ?xs = "take 108 xs"
  have len: "length ?xs \<le> 108" "3 \<le> length ?xs" and nz: "list_all (\<lambda>c. c \<noteq> 0) ?xs"
    using assms(2,3) by (auto simp: is_path_valid_def path_len_def list_all_iff dest: in_set_takeD)
  have valid: "is_path_valid ?xs" using assms(2) by (auto simp: is_path_valid_def path_len_def)
  have count: "length (split_path (drop 3 ?xs)) = Suc (length (filter (\<lambda>j. ?xs ! j = 47) [3..<length ?xs]))"
    using arg_cong [OF names_at_offsets [OF len(2)], of length] by (simp add: name_offsets_def)
  have three: "3 \<le> kheap_num_free_blocks s" using assms(4) count by simp
  obtain copy path root u where st: "path_state (live s) (mem s) copy path root ?xs 3 [(root, copy + 3)] u"
    and p: "parse_path ?xs s = (path, parse_path_loop copy 3 (length ?xs) root u)"
    and free: "kheap_num_free_blocks u = kheap_num_free_blocks s - 3"
    by (rule parse_path_start [OF assms(1) valid len(1) three])
  have "length (filter (\<lambda>j. ?xs ! j = 47) [3..<length ?xs]) \<le> kheap_num_free_blocks u"
    using free assms(4) count by linarith
  then obtain ns where "path_state (live s) (mem s) copy path root ?xs (length ?xs) ns
      (parse_path_loop copy 3 (length ?xs) root u)" (is "path_state _ _ _ _ _ _ _ _ ?t")
    using parse_path_loop_state [OF st _ len(2,1)] by auto
  note st' = this
  note D = path_stateD [OF st']
  have "path \<noteq> 0" using live_page_nonnull [OF D(1,3)] .
  moreover have "parse_path xs s = (path, ?t)" using p by (simp add: parse_path_take)
  ultimately show ?thesis
    using D(1,9) path_state_names [OF st' nz len(2)] path_state_free [OF st'] st' len(2)
    by (intro exI [of _ path] exI [of _ ?t] exI [of _ ns]) (auto simp: path_state_def)
qed

theorem parse_free_path_witness:
  "\<exists>path t u. parse_path (lit ''0:/a'') demo_heap = (path, t) \<and> free_path path t = Some u \<and>
     live u = live demo_heap"
proof -
  have "kheap_num_free_blocks demo_heap = 4"
    by (simp add: kheap_num_free_blocks_def demo_heap_def get_kheap_entry_type_def upt_rec)
  then show ?thesis
    using parse_free_path [OF kheap_ok_demo, of "lit ''0:/a''"]
    by (simp add: lit_def is_path_valid_def path_len_def is_digit_def) blast
qed

end
