(* ===== verification/Fat16.thy ===== *)
theory Fat16
  imports FsUtils "HOL-Library.Monad_Syntax"
begin

text \<open>
  The FAT16 driver \<^verbatim>\<open>src/src/fs/fat/fat16.c\<close>. Its structures live in the byte memory with the
  layout of the packed C structs: the accessors below name the fields with their offsets. Local
  variables that a disk read fills are byte lists. There is one disk, so the \<^verbatim>\<open>struct disk *\<close>
  arguments are the disk fields of the state. A C \<^verbatim>\<open>int\<close> is an \<^typ>\<open>int\<close>, converted where the code
  mixes it with unsigned values. The result \<open>None\<close> stands for a call that does not come back: an
  endless directory scan or a division by zero.
\<close>

section \<open>Layout\<close>

definition FAT16_SIGNATURE :: u8 where [simp]: "FAT16_SIGNATURE = 0x29"
definition FAT16_ENTRY_SIZE :: int where [simp]: "FAT16_ENTRY_SIZE = 2"
definition FAT16_BAD_SEC :: int where [simp]: "FAT16_BAD_SEC = 0xFF7"
definition FAT16_ITEM_TYPE_DIR :: u32 where [simp]: "FAT16_ITEM_TYPE_DIR = 0"
definition FAT16_ITEM_TYPE_FILE :: u32 where [simp]: "FAT16_ITEM_TYPE_FILE = 1"
definition FAT16_ATTR_READ_ONLY :: u8 where [simp]: "FAT16_ATTR_READ_ONLY = 0x01"
definition FAT16_ATTR_SUB_DIRECTORY :: u8 where [simp]: "FAT16_ATTR_SUB_DIRECTORY = 0x10"
definition FAT16_MAX_FILE_NAME :: nat where [simp]: "FAT16_MAX_FILE_NAME = 8"
definition FAT16_MAX_EXT_NAME :: nat where [simp]: "FAT16_MAX_EXT_NAME = 3"

text \<open>\<^verbatim>\<open>struct fat16_header\<close> at the start of \<^verbatim>\<open>struct fat16_private\<close>.\<close>

definition sectors_per_cluster :: "addr \<Rightarrow> 'a kheap_st_scheme \<Rightarrow> u8" where
  "sectors_per_cluster p s = mem s (p + 13)"
definition reserved_sectors :: "addr \<Rightarrow> 'a kheap_st_scheme \<Rightarrow> u16" where
  "reserved_sectors p s = load16 (mem s) (p + 14)"
definition fat_copies :: "addr \<Rightarrow> 'a kheap_st_scheme \<Rightarrow> u8" where
  "fat_copies p s = mem s (p + 16)"
definition root_dir_entries :: "addr \<Rightarrow> 'a kheap_st_scheme \<Rightarrow> u16" where
  "root_dir_entries p s = load16 (mem s) (p + 17)"
definition sectors_per_fat :: "addr \<Rightarrow> 'a kheap_st_scheme \<Rightarrow> u16" where
  "sectors_per_fat p s = load16 (mem s) (p + 22)"
definition header_signature :: "addr \<Rightarrow> 'a kheap_st_scheme \<Rightarrow> u8" where
  "header_signature p s = mem s (p + 38)"

text \<open>\<^verbatim>\<open>struct fat16_private\<close>: the header takes 62 bytes, padded to 64, then words.\<close>

definition SIZEOF_fat16_h :: u32 where [simp]: "SIZEOF_fat16_h = 62"
definition SIZEOF_fat16_private :: u32 where [simp]: "SIZEOF_fat16_private = 92"
definition SIZEOF_fat16_dir_entry :: u32 where [simp]: "SIZEOF_fat16_dir_entry = 32"

definition root_dir :: "addr \<Rightarrow> addr" where "root_dir p = p + 64"
definition cluster_stream :: "addr \<Rightarrow> 'a kheap_st_scheme \<Rightarrow> addr" where
  "cluster_stream p s = get_field p 20 s"
definition fat16_read_stream :: "addr \<Rightarrow> 'a kheap_st_scheme \<Rightarrow> addr" where
  "fat16_read_stream p s = get_field p 21 s"
definition dir_stream :: "addr \<Rightarrow> 'a kheap_st_scheme \<Rightarrow> addr" where
  "dir_stream p s = get_field p 22 s"

text \<open>\<^verbatim>\<open>struct fat16_dir\<close>: entries, number of entries, first and end sector.\<close>

definition dir_entries :: "addr \<Rightarrow> 'a kheap_st_scheme \<Rightarrow> addr" where
  "dir_entries d s = get_field d 0 s"
definition dir_total_entries :: "addr \<Rightarrow> 'a kheap_st_scheme \<Rightarrow> int" where
  "dir_total_entries d s = sint (get_field d 1 s)"
definition dir_end_sector_pos :: "addr \<Rightarrow> 'a kheap_st_scheme \<Rightarrow> u32" where
  "dir_end_sector_pos d s = get_field d 3 s"

text \<open>\<^verbatim>\<open>struct fat16_dir_entry\<close>.\<close>

definition entry_filename :: "memory \<Rightarrow> addr \<Rightarrow> nat \<Rightarrow> u8" where
  "entry_filename m e i = m (e + of_nat i)"
definition entry_ext :: "memory \<Rightarrow> addr \<Rightarrow> nat \<Rightarrow> u8" where
  "entry_ext m e i = m (e + 8 + of_nat i)"
definition entry_attribs :: "memory \<Rightarrow> addr \<Rightarrow> u8" where
  "entry_attribs m e = m (e + 11)"
definition entry_high_cluster :: "memory \<Rightarrow> addr \<Rightarrow> u16" where
  "entry_high_cluster m e = load16 m (e + 20)"
definition entry_low_cluster :: "memory \<Rightarrow> addr \<Rightarrow> u16" where
  "entry_low_cluster m e = load16 m (e + 26)"
definition entry_file_size :: "memory \<Rightarrow> addr \<Rightarrow> u32" where
  "entry_file_size m e = load32 m (e + 28)"

text \<open>C division and remainder of ints.\<close>

definition c_div :: "int \<Rightarrow> int \<Rightarrow> int" where
  "c_div a b = sgn a * sgn b * (\<bar>a\<bar> div \<bar>b\<bar>)"
definition c_rem :: "int \<Rightarrow> int \<Rightarrow> int" where
  "c_rem a b = a - b * c_div a b"

section \<open>Mounting\<close>

definition fat16_init_private :: "addr \<Rightarrow> 'a disk_st_scheme \<Rightarrow> 'a disk_st_scheme" where
  "fat16_init_private fat_private s =
     (let s = s\<lparr>mem := snd (memset (mem s) fat_private 0 SIZEOF_fat16_private)\<rparr>;
          (st, s) = disk_stream_new (disk_id s) s;
          s = set_field fat_private 20 st s;
          (st, s) = disk_stream_new (disk_id s) s;
          s = set_field fat_private 21 st s;
          (st, s) = disk_stream_new (disk_id s) s
      in set_field fat_private 22 st s)"

text \<open>
  A disk read into a local variable: the bytes read replace the first bytes of the old contents (a
  read at the very end of the 4 GB address range stops early).
\<close>

definition read_local :: "addr \<Rightarrow> u8 list \<Rightarrow> 'a disk_st_scheme \<Rightarrow> int \<times> u8 list \<times> 'a disk_st_scheme" where
  "read_local stream old s =
     (let (res, out, s) = disk_stream_read_bytes stream (of_nat (length old)) s
      in (res, out @ drop (length out) old, s))"

partial_function (option) fat16_count_loop ::
    "addr \<Rightarrow> u8 list \<Rightarrow> int \<Rightarrow> 'a disk_st_scheme \<Rightarrow> (int \<times> 'a disk_st_scheme) option" where
  "fat16_count_loop stream entry cnt s =
     (let (res, entry, s) = read_local stream entry s
      in if res \<noteq> STATUS_OK then Some (res, s)
         else if entry ! 0 = 0 then Some (cnt, s)
         else if entry ! 0 = 0xE5 then fat16_count_loop stream entry cnt s
         else fat16_count_loop stream entry (cnt + 1) s)"

definition fat16_get_total_items_in_dir :: "u32 \<Rightarrow> 'a disk_st_scheme \<Rightarrow> (int \<times> 'a disk_st_scheme) option" where
  "fat16_get_total_items_in_dir dir_start_sector s =
     (let stream = dir_stream (disk_fs_private s) s;
          (res, s) = disk_stream_seek stream (dir_start_sector * disk_sector_size s) s
      in if res \<noteq> STATUS_OK then Some (res, s)
         else fat16_count_loop stream (replicate (unat SIZEOF_fat16_dir_entry) 0) 0 s)"

definition fat16_load_root_dir :: "addr \<Rightarrow> 'a disk_st_scheme \<Rightarrow> (int \<times> 'a disk_st_scheme) option" where
  "fat16_load_root_dir fat_private s =
     (let root_dir_start_sec = ucast (fat_copies fat_private s) * ucast (sectors_per_fat fat_private s)
                                 + ucast (reserved_sectors fat_private s) :: u32;
          root_dir_size = ucast (root_dir_entries fat_private s) * SIZEOF_fat16_dir_entry;
          total_root_sectors = (root_dir_size + disk_sector_size s - 1) div disk_sector_size s
      in do {
        (total_items, s) \<leftarrow> fat16_get_total_items_in_dir root_dir_start_sec s;
        if total_items < 0 then Some (total_items, s)
        else let (entries, s) = kzalloc root_dir_size s
             in if entries = 0 then Some (- STATUS_NOT_ENOUGH_MEM, s)
                else let stream = dir_stream fat_private s;
                         (res, s) = disk_stream_seek stream (root_dir_start_sec * disk_sector_size s) s
                     in if res \<noteq> STATUS_OK then Some (res, snd (kfree entries s))
                        else let (res, s) = disk_stream_read stream entries root_dir_size s
                             in if res \<noteq> STATUS_OK then Some (res, snd (kfree entries s))
                                else let s = set_field fat_private 16 entries s;
                                         s = set_field fat_private 17 (word_of_int total_items) s;
                                         s = set_field fat_private 18 root_dir_start_sec s;
                                         s = set_field fat_private 19 (root_dir_start_sec + total_root_sectors) s
                                     in Some (res, s)
      })"

text \<open>The code between the label \<^verbatim>\<open>out\<close> and the end of \<^verbatim>\<open>fat16_resolve\<close>.\<close>

definition fat16_resolve_out :: "addr \<Rightarrow> addr \<Rightarrow> int \<Rightarrow> 'a disk_st_scheme \<Rightarrow> int \<times> 'a disk_st_scheme" where
  "fat16_resolve_out fat_private stream res s =
     (let s = (if stream \<noteq> 0 then disk_stream_close stream s else s);
          s = (if res < 0 then (snd (kfree fat_private s))\<lparr>disk_fs_private := 0, disk_fs := NullFs\<rparr> else s);
          s = (if res = 0 then println (lit ''FAT16: resolved'') s else s)
      in (res, s))"

definition fat16_resolve :: "'a disk_st_scheme \<Rightarrow> (int \<times> 'a disk_st_scheme) option" where
  "fat16_resolve s =
     (let (fat_private, s) = kzalloc SIZEOF_fat16_private s;
          s = fat16_init_private fat_private s;
          s = s\<lparr>disk_fs_private := fat_private, disk_fs := Fat16_fs\<rparr>;
          (stream, s) = disk_stream_new (disk_id s) s
      in if stream = 0 then Some (fat16_resolve_out fat_private stream (- STATUS_NOT_ENOUGH_MEM) s)
         else let (res, s) = disk_stream_read stream fat_private SIZEOF_fat16_h s
              in if res \<noteq> STATUS_OK then Some (fat16_resolve_out fat_private stream res s)
                 else if header_signature fat_private s \<noteq> FAT16_SIGNATURE
                 then Some (fat16_resolve_out fat_private stream 1 s)
                 else do {
                   (res, s) \<leftarrow> fat16_load_root_dir fat_private s;
                   if res \<noteq> STATUS_OK
                   then Some (fat16_resolve_out fat_private stream (- STATUS_IO_ERROR)
                                (println (lit ''FAT16: failed to load root dir'') s))
                   else Some (fat16_resolve_out fat_private stream 0 s)
                 })"

section \<open>Names\<close>

text \<open>The characters \<^verbatim>\<open>fat16_filename_to_proper_str\<close> copies; the terminator is implicit.\<close>

function fat16_filename_to_proper_str :: "(nat \<Rightarrow> u8) \<Rightarrow> nat \<Rightarrow> nat \<Rightarrow> u8 list" where
  "fat16_filename_to_proper_str inp max_len i =
     (if inp i \<noteq> 32 \<and> inp i \<noteq> 0 \<and> i < max_len
      then inp i # fat16_filename_to_proper_str inp max_len (Suc i) else [])"
  by pat_completeness auto
termination
  by (relation "measure (\<lambda>(inp, max_len, i). max_len - i)") auto

declare fat16_filename_to_proper_str.simps [simp del]

definition fat16_get_full_relative_filename :: "memory \<Rightarrow> addr \<Rightarrow> u8 list" where
  "fat16_get_full_relative_filename m entry =
     (let out = fat16_filename_to_proper_str (entry_filename m entry) FAT16_MAX_FILE_NAME 0
      in if entry_ext m entry 0 \<noteq> 32 \<and> entry_ext m entry 0 \<noteq> 0
         then out @ 46 # fat16_filename_to_proper_str (entry_ext m entry) FAT16_MAX_EXT_NAME 0
         else out)"

section \<open>Clusters\<close>

definition fat16_cluster_to_sector :: "addr \<Rightarrow> u32 \<Rightarrow> 'a kheap_st_scheme \<Rightarrow> u32" where
  "fat16_cluster_to_sector private cluster s =
     dir_end_sector_pos (root_dir private) s + (cluster - 2) * ucast (sectors_per_cluster private s)"

definition word_of_bytes :: "u8 list \<Rightarrow> u32" where
  "word_of_bytes bs = load32 (\<lambda>a. bs ! unat a) 0"

definition fat16_get_fat_entry :: "int \<Rightarrow> 'a disk_st_scheme \<Rightarrow> int \<times> 'a disk_st_scheme" where
  "fat16_get_fat_entry cluster_num s =
     (let private = disk_fs_private s; stream = fat16_read_stream private s
      in if stream = 0 then (- 1, s)
         else let fat_table_byte_pos = ucast (reserved_sectors private s) * disk_sector_size s;
                  (res, s) = disk_stream_seek stream
                     (fat_table_byte_pos + word_of_int (cluster_num * FAT16_ENTRY_SIZE)) s
              in if res < 0 then (res, s)
                 else let (res, result, s) = read_local stream [0, 0, 0, 0] s
                      in if res < 0 then (res, s) else (sint (word_of_bytes result), s))"

function fat16_cluster_loop ::
    "int \<Rightarrow> int \<Rightarrow> int \<Rightarrow> 'a disk_st_scheme \<Rightarrow> int \<times> 'a disk_st_scheme" where
  "fat16_cluster_loop next_cluster_i last_cluster curr_cluster s =
     (if next_cluster_i \<le> last_cluster
      then let (entry, s) = fat16_get_fat_entry curr_cluster s
           in if entry = 0xFF8 \<or> entry = 0xFFF \<or> entry < 0 then (- STATUS_IO_ERROR, s)
              else if entry = FAT16_BAD_SEC then (- STATUS_IO_ERROR, s)
              else if entry = 0xFF0 \<or> entry = 0xFF6 then (- STATUS_IO_ERROR, s)
              else if entry = 0 then (- STATUS_IO_ERROR, s)
              else fat16_cluster_loop (next_cluster_i + 1) last_cluster entry s
      else (curr_cluster, s))"
  by pat_completeness auto
termination
  by (relation "measure (\<lambda>(i, last, c, s). nat (last + 1 - i))") auto

declare fat16_cluster_loop.simps [simp del]

definition bytes_per_cluster :: "'a disk_st_scheme \<Rightarrow> int" where
  "bytes_per_cluster s =
     uint (sectors_per_cluster (disk_fs_private s) s) * sint (disk_sector_size s)"

definition fat16_get_cluster_at_byte_offset_from_start ::
    "int \<Rightarrow> int \<Rightarrow> 'a disk_st_scheme \<Rightarrow> int \<times> 'a disk_st_scheme" where
  "fat16_get_cluster_at_byte_offset_from_start starting_cluster offset s =
     (let num_clusters = c_div (offset + 1 + bytes_per_cluster s - 1) (bytes_per_cluster s);
          last_cluster = starting_cluster + num_clusters - 1
      in fat16_cluster_loop (starting_cluster + 1) last_cluster starting_cluster s)"

text \<open>The loop of \<^verbatim>\<open>fat16_read_file_data_from_cluster\<close>; the error of the cluster lookup is not tested.\<close>

function fat16_read_loop ::
    "int \<Rightarrow> addr \<Rightarrow> int \<Rightarrow> int \<Rightarrow> int \<Rightarrow> addr \<Rightarrow> 'a disk_st_scheme \<Rightarrow> (int \<times> 'a disk_st_scheme) option" where
  "fat16_read_loop cluster_bytes stream starting_cluster offset total_bytes out s =
     (if total_bytes > 0
      then if cluster_bytes \<le> 0 then None
           else let (curr_cluster, s) = fat16_get_cluster_at_byte_offset_from_start starting_cluster offset s;
                    offset_from_curr_cluster = c_rem offset cluster_bytes;
                    curr_sector = fat16_cluster_to_sector (disk_fs_private s) (word_of_int curr_cluster) s;
                    curr_byte_pos = curr_sector * disk_sector_size s + word_of_int offset_from_curr_cluster;
                    total_to_read_bytes = (if total_bytes > cluster_bytes then cluster_bytes else total_bytes);
                    (res, s) = disk_stream_seek stream curr_byte_pos s
                in if res \<noteq> STATUS_OK then Some (res, s)
                   else let (res, s) = disk_stream_read stream out (word_of_int total_to_read_bytes) s
                        in if res \<noteq> STATUS_OK then Some (res, s)
                           else fat16_read_loop cluster_bytes stream starting_cluster (offset + total_to_read_bytes)
                                  (total_bytes - total_to_read_bytes) (out + word_of_int total_to_read_bytes) s
      else Some (0, s))"
  by pat_completeness auto
termination
  by (relation "measure (\<lambda>(b, st, c, offset, total, out, s). nat total)") (auto split: if_splits)

declare fat16_read_loop.simps [simp del]

definition fat16_read_file_data_from_cluster ::
    "int \<Rightarrow> int \<Rightarrow> int \<Rightarrow> addr \<Rightarrow> 'a disk_st_scheme \<Rightarrow> (int \<times> 'a disk_st_scheme) option" where
  "fat16_read_file_data_from_cluster starting_cluster offset total_bytes out s =
     fat16_read_loop (bytes_per_cluster s) (cluster_stream (disk_fs_private s) s)
       starting_cluster offset total_bytes out s"

definition fat16_get_first_cluster :: "addr \<Rightarrow> 'a disk_st_scheme \<Rightarrow> u32 \<times> 'a disk_st_scheme" where
  "fat16_get_first_cluster entry s =
     (let s = (if entry_high_cluster (mem s) entry \<noteq> 0
               then print (lit ''Warning non zero high 16 cluster bits in fat16..'') s else s)
      in (push_bit 16 (ucast (entry_high_cluster (mem s) entry)) OR ucast (entry_low_cluster (mem s) entry), s))"

section \<open>Items\<close>

text \<open>\<^verbatim>\<open>struct fat16_item\<close>: the pointer to the directory or entry in word 0, the type in word 1.\<close>

definition fat16_free_dir :: "addr \<Rightarrow> 'a disk_st_scheme \<Rightarrow> 'a disk_st_scheme" where
  "fat16_free_dir dir s =
     (if dir = 0 then s
      else let s = (if dir_entries dir s \<noteq> 0 then snd (kfree (dir_entries dir s) s) else s)
           in snd (kfree dir s))"

definition fat16_free_item :: "addr \<Rightarrow> 'a disk_st_scheme \<Rightarrow> 'a disk_st_scheme" where
  "fat16_free_item item s =
     (if item = 0 then s
      else let ptr = get_field item 0 s; item_type = get_field item 1 s;
               s = (if item_type = FAT16_ITEM_TYPE_DIR then fat16_free_dir ptr s
                    else if item_type = FAT16_ITEM_TYPE_FILE
                    then (if ptr \<noteq> 0 then snd (kfree ptr s) else s)
                    else s)
           in snd (kfree item s))"

definition fat16_load_fat_dir :: "addr \<Rightarrow> 'a disk_st_scheme \<Rightarrow> (addr \<times> 'a disk_st_scheme) option" where
  "fat16_load_fat_dir entry s =
     (let fat_private = disk_fs_private s; (dir, s) = kzalloc 16 s
      in if dir = 0 then Some (0, s)
         else let (cluster, s) = fat16_get_first_cluster entry s;
                  cluster_start_sector = fat16_cluster_to_sector fat_private cluster s
              in do {
                (total_items, s) \<leftarrow> fat16_get_total_items_in_dir cluster_start_sector s;
                let s = set_field dir 1 (word_of_int total_items) s;
                    dir_size = word_of_int total_items * SIZEOF_fat16_dir_entry;
                    (entries, s) = kzalloc dir_size s;
                    s = set_field dir 0 entries s
                in if entries = 0 then Some (0, snd (kfree dir s))
                   else do {
                     (res, s) \<leftarrow> fat16_read_file_data_from_cluster (sint cluster) 0 (sint dir_size) entries s;
                     if res \<noteq> STATUS_OK
                     then let s = (if dir_entries dir s \<noteq> 0 then snd (kfree (dir_entries dir s) s) else s)
                          in Some (0, snd (kfree dir s))
                     else Some (dir, s)
                   }
              })"

definition fat16_clone_dir_entry :: "addr \<Rightarrow> 'a disk_st_scheme \<Rightarrow> addr \<times> 'a disk_st_scheme" where
  "fat16_clone_dir_entry entry s =
     (let (f_item, s) = kzalloc SIZEOF_fat16_dir_entry s
      in if f_item = 0 then (0, s)
         else (f_item, s\<lparr>mem := memcpy (mem s) f_item entry SIZEOF_fat16_dir_entry\<rparr>))"

definition fat16_new_fat_item_from_dir_entry :: "addr \<Rightarrow> 'a disk_st_scheme \<Rightarrow> (addr \<times> 'a disk_st_scheme) option" where
  "fat16_new_fat_item_from_dir_entry entry s =
     (let (f_item, s) = kzalloc 8 s
      in if f_item = 0 then Some (0, s)
         else if entry_attribs (mem s) entry AND FAT16_ATTR_SUB_DIRECTORY \<noteq> 0
         then do {
           (dir, s) \<leftarrow> fat16_load_fat_dir entry s;
           Some (f_item, set_field f_item 1 FAT16_ITEM_TYPE_DIR (set_field f_item 0 dir s))
         }
         else let (copy, s) = fat16_clone_dir_entry entry s
              in Some (f_item, set_field f_item 1 FAT16_ITEM_TYPE_FILE (set_field f_item 0 copy s)))"

function fat16_find_loop ::
    "addr \<Rightarrow> addr \<Rightarrow> int \<Rightarrow> int \<Rightarrow> 'a disk_st_scheme \<Rightarrow> (addr \<times> 'a disk_st_scheme) option" where
  "fat16_find_loop dir file_name i n s =
     (if i < n
      then let entry = dir_entries dir s + word_of_int i * SIZEOF_fat16_dir_entry;
               tmp_filename = fat16_get_full_relative_filename (mem s) entry
           in if istrncmp_loop (local_chars tmp_filename) (chars (mem s) file_name) (int FS_MAX_PATH_LEN) 0 = 0
              then fat16_new_fat_item_from_dir_entry entry s
              else fat16_find_loop dir file_name (i + 1) n s
      else Some (0, s))"
  by pat_completeness auto
termination
  by (relation "measure (\<lambda>(dir, nm, i, n, s). nat (n - i))") auto

declare fat16_find_loop.simps [simp del]

definition fat16_find_item_in_dir_by_name ::
    "addr \<Rightarrow> addr \<Rightarrow> 'a disk_st_scheme \<Rightarrow> (addr \<times> 'a disk_st_scheme) option" where
  "fat16_find_item_in_dir_by_name dir file_name s =
     fat16_find_loop dir file_name 0 (dir_total_entries dir s) s"

partial_function (option) fat16_descend ::
    "addr \<Rightarrow> addr \<Rightarrow> 'a disk_st_scheme \<Rightarrow> (addr \<times> 'a disk_st_scheme) option" where
  "fat16_descend path curr_item s =
     (if get_field path 1 s = 0 then Some (curr_item, s)
      else if get_field curr_item 1 s \<noteq> FAT16_ITEM_TYPE_DIR then Some (0, fat16_free_item curr_item s)
      else let path = get_field path 1 s; name = get_field path 0 s
           in if name = 0 \<or> mem s name = 0 then Some (0, fat16_free_item curr_item s)
              else do {
                (next_item, s) \<leftarrow> fat16_find_item_in_dir_by_name (get_field curr_item 0 s) name s;
                fat16_descend path next_item (fat16_free_item curr_item s)
              })"

definition fat16_get_dir_entry :: "addr \<Rightarrow> 'a disk_st_scheme \<Rightarrow> (addr \<times> 'a disk_st_scheme) option" where
  "fat16_get_dir_entry path s =
     do {
       (curr_item, s) \<leftarrow> fat16_find_item_in_dir_by_name (root_dir (disk_fs_private s)) (get_field path 0 s) s;
       if curr_item = 0 then Some (0, s) else fat16_descend path curr_item s
     }"

section \<open>The file operations\<close>

text \<open>\<^verbatim>\<open>struct fat16_file_descriptor\<close>: the item in word 0, the position in word 1.\<close>

datatype file_mode = FILE_READ | FILE_WRITE | FILE_APPEND | FILE_MODE_INVALID
datatype seek_mode = FILE_SEEK_SET | FILE_SEEK_CUR | FILE_SEEK_END | FILE_SEEK_OTHER

record file_stat =
  stat_flags :: u32
  stat_file_size :: u32

definition FILE_STAT_READ_ONLY :: u32 where [simp]: "FILE_STAT_READ_ONLY = 0"

definition fat16_open :: "addr \<Rightarrow> file_mode \<Rightarrow> 'a disk_st_scheme \<Rightarrow> (addr \<times> 'a disk_st_scheme) option" where
  "fat16_open path mode s =
     (if mode \<noteq> FILE_READ then Some (word_of_int (- STATUS_INVALID_ARG), s)
      else let (fd, s) = kzalloc 8 s
           in if fd = 0 then Some (word_of_int (- STATUS_NOT_ENOUGH_MEM), s)
              else do {
                (item, s) \<leftarrow> fat16_get_dir_entry path (set_field fd 1 0 s);
                let s = set_field fd 0 item s
                in if item = 0 then Some (word_of_int (- STATUS_IO_ERROR), snd (kfree fd s))
                   else Some (fd, s)
              })"

function fat16_read_members ::
    "addr \<Rightarrow> u32 \<Rightarrow> nat \<Rightarrow> nat \<Rightarrow> int \<Rightarrow> addr \<Rightarrow> 'a disk_st_scheme \<Rightarrow> (int \<times> int \<times> 'a disk_st_scheme) option" where
  "fat16_read_members entry sz i nmembs offset out_ptr s =
     (if i < nmembs
      then let (cluster, s) = fat16_get_first_cluster entry s
           in do {
             (res, s) \<leftarrow> fat16_read_file_data_from_cluster (sint cluster) offset (sint sz) out_ptr s;
             if res < 0 then Some (res, offset, s)
             else fat16_read_members entry sz (Suc i) nmembs (offset + sint sz) (out_ptr + sz) s
           }
      else Some (int nmembs, offset, s))"
  by pat_completeness auto
termination
  by (relation "measure (\<lambda>(e, sz, i, n, offset, out, s). n - i)") auto

declare fat16_read_members.simps [simp del]

definition fat16_read ::
    "addr \<Rightarrow> u32 \<Rightarrow> u32 \<Rightarrow> addr \<Rightarrow> 'a disk_st_scheme \<Rightarrow> (int \<times> 'a disk_st_scheme) option" where
  "fat16_read fd sz nmembs out_ptr s =
     (let entry = get_field (get_field fd 0 s) 0 s
      in do {
        (res, offset, s) \<leftarrow> fat16_read_members entry sz 0 (unat nmembs) (sint (get_field fd 1 s)) out_ptr s;
        if res < 0 then Some (res, s) else Some (res, set_field fd 1 (word_of_int offset) s)
      })"

definition fat16_seek :: "addr \<Rightarrow> u32 \<Rightarrow> seek_mode \<Rightarrow> 'a disk_st_scheme \<Rightarrow> int \<times> 'a disk_st_scheme" where
  "fat16_seek fd offset seek_mode s =
     (let item = get_field fd 0 s
      in if get_field item 1 s \<noteq> FAT16_ITEM_TYPE_FILE then (- STATUS_INVALID_ARG, s)
         else let entry = get_field item 0 s
              in if offset \<ge> entry_file_size (mem s) entry then (- STATUS_IO_ERROR, s)
                 else case seek_mode of
                   FILE_SEEK_SET \<Rightarrow> (0, set_field fd 1 offset s)
                 | FILE_SEEK_END \<Rightarrow> (- STATUS_NOT_IMPLEMENTED, s)
                 | FILE_SEEK_CUR \<Rightarrow>
                     if offset + get_field fd 1 s \<ge> entry_file_size (mem s) entry
                     then (- STATUS_INVALID_ARG, s)
                     else (0, set_field fd 1 (get_field fd 1 s + offset) s)
                 | FILE_SEEK_OTHER \<Rightarrow> (- STATUS_INVALID_ARG, s))"

definition fat16_stat :: "addr \<Rightarrow> file_stat \<Rightarrow> 'a disk_st_scheme \<Rightarrow> int \<times> file_stat" where
  "fat16_stat fd stat s =
     (let item = get_field fd 0 s
      in if get_field item 1 s \<noteq> FAT16_ITEM_TYPE_FILE then (- STATUS_INVALID_ARG, stat)
         else let entry = get_field item 0 s;
                  stat = stat\<lparr>stat_file_size := entry_file_size (mem s) entry, stat_flags := 0\<rparr>
              in (0, if entry_attribs (mem s) entry AND FAT16_ATTR_READ_ONLY \<noteq> 0
                     then stat\<lparr>stat_flags := stat_flags stat OR FILE_STAT_READ_ONLY\<rparr> else stat))"

definition fat16_fd_free :: "addr \<Rightarrow> 'a disk_st_scheme \<Rightarrow> 'a disk_st_scheme" where
  "fat16_fd_free fd s = (if fd \<noteq> 0 then snd (kfree fd (fat16_free_item (get_field fd 0 s) s)) else s)"

definition fat16_close :: "addr \<Rightarrow> 'a disk_st_scheme \<Rightarrow> int \<times> 'a disk_st_scheme" where
  "fat16_close fd s = (0, fat16_fd_free fd s)"

end
