(* ===== verification/File.thy ===== *)
theory File
  imports Fat16
begin

text \<open>
  The file layer \<^verbatim>\<open>src/src/fs/file.c\<close> and \<^verbatim>\<open>disk_init\<close> of \<^verbatim>\<open>src/src/disk/disk.c\<close>, which mounts the disk.
  File descriptor structures are kept by their address in \<open>fd_heap\<close>. The function pointers of a
  \<^verbatim>\<open>struct file_system\<close> are selected by the pointer to it; there is one implementation, FAT16. A call
  through a null pointer does not come back.
\<close>

section \<open>State\<close>

definition MAX_FILESYSTEMS :: nat where [simp]: "MAX_FILESYSTEMS = 8"
definition MAX_FILE_DESCRIPTORS :: nat where [simp]: "MAX_FILE_DESCRIPTORS = 1024"

record file_descriptor =
  fd_fs :: fs_ptr
  fd_private_data :: addr
  fd_index :: int
  fd_disk :: disk_ptr

record fs_st = disk_st +
  filesystems :: "nat \<Rightarrow> fs_ptr"
  file_descriptors :: "nat \<Rightarrow> addr"
  fd_heap :: "addr \<Rightarrow> file_descriptor"

definition null_fd :: file_descriptor where
  "null_fd = \<lparr>fd_fs = NullFs, fd_private_data = 0, fd_index = 0, fd_disk = NullDisk\<rparr>"

section \<open>File systems\<close>

text \<open>The first index below \<open>n\<close> from \<open>i\<close> on that satisfies \<open>P\<close>, as the search loops of the kernel find it.\<close>

function first_index :: "(nat \<Rightarrow> bool) \<Rightarrow> nat \<Rightarrow> nat \<Rightarrow> nat option" where
  "first_index P n i = (if i < n then if P i then Some i else first_index P n (Suc i) else None)"
  by pat_completeness auto
termination
  by (relation "measure (\<lambda>(P, n, i). n - i)") auto

declare first_index.simps [simp del]

definition get_free_filesystem :: "'a fs_st_scheme \<Rightarrow> nat option" where
  "get_free_filesystem s = first_index (\<lambda>i. filesystems s i = NullFs) MAX_FILESYSTEMS 0"

text \<open>Without a free slot the code prints a message and spins.\<close>

definition fs_insert_filesystem :: "fs_ptr \<Rightarrow> 'a fs_st_scheme \<Rightarrow> ('a fs_st_scheme) option" where
  "fs_insert_filesystem fs s =
     (case get_free_filesystem s of None \<Rightarrow> None
      | Some i \<Rightarrow> Some (s\<lparr>filesystems := (filesystems s)(i := fs)\<rparr>))"

definition fat16_init :: fs_ptr where "fat16_init = Fat16_fs"

definition kfs_load :: "'a fs_st_scheme \<Rightarrow> ('a fs_st_scheme) option" where
  "kfs_load s = fs_insert_filesystem fat16_init s"

definition fs_init :: "'a fs_st_scheme \<Rightarrow> ('a fs_st_scheme) option" where
  "fs_init s =
     kfs_load (s\<lparr>filesystems := (\<lambda>i. if i < MAX_FILESYSTEMS then NullFs else filesystems s i),
                 file_descriptors := (\<lambda>i. if i < MAX_FILE_DESCRIPTORS then 0 else file_descriptors s i)\<rparr>)"

definition fs_call_resolve :: "fs_ptr \<Rightarrow> 'a fs_st_scheme \<Rightarrow> (int \<times> 'a fs_st_scheme) option" where
  "fs_call_resolve fs s = (case fs of NullFs \<Rightarrow> None | Fat16_fs \<Rightarrow> fat16_resolve s)"

function fs_resolve_loop :: "nat \<Rightarrow> 'a fs_st_scheme \<Rightarrow> (fs_ptr \<times> 'a fs_st_scheme) option" where
  "fs_resolve_loop i s =
     (if i < MAX_FILESYSTEMS
      then if filesystems s i \<noteq> NullFs
           then do {
             (res, t) \<leftarrow> fs_call_resolve (filesystems s i) s;
             if res = 0 then Some (filesystems t i, t) else fs_resolve_loop (Suc i) t
           }
           else fs_resolve_loop (Suc i) s
      else Some (NullFs, s))"
  by pat_completeness auto
termination
  by (relation "measure (\<lambda>(i, s). MAX_FILESYSTEMS - i)") auto

declare fs_resolve_loop.simps [simp del]

definition fs_resolve :: "'a fs_st_scheme \<Rightarrow> (fs_ptr \<times> 'a fs_st_scheme) option" where
  "fs_resolve s = fs_resolve_loop 0 s"

definition DISK_TYPE_REAL :: u32 where [simp]: "DISK_TYPE_REAL = 0"

definition disk_init :: "'a fs_st_scheme \<Rightarrow> ('a fs_st_scheme) option" where
  "disk_init s =
     do {
       (fs, s) \<leftarrow> fs_resolve (s\<lparr>disk_id := 0, disk_type := DISK_TYPE_REAL, disk_sector_size := DISK_SECTOR_SIZE,
                               disk_fs := NullFs, disk_fs_private := 0\<rparr>);
       Some (s\<lparr>disk_fs := fs, disk_id := 0\<rparr>)
     }"

section \<open>Descriptors\<close>

definition new_file_descriptor :: "'a fs_st_scheme \<Rightarrow> (int \<times> addr) \<times> 'a fs_st_scheme" where
  "new_file_descriptor s =
     (case first_index (\<lambda>i. file_descriptors s i = 0) MAX_FILE_DESCRIPTORS 0 of
        None \<Rightarrow> ((- STATUS_NOT_ENOUGH_MEM, 0), s)
      | Some i \<Rightarrow>
          let (fd, s) = kzalloc 16 s;
              s = s\<lparr>file_descriptors := (file_descriptors s)(i := fd)\<rparr>
          in if fd = 0 then ((- STATUS_NOT_ENOUGH_MEM, 0), s)
             else ((0, fd), s\<lparr>fd_heap := (fd_heap s)(fd := null_fd\<lparr>fd_index := int i + 1\<rparr>)\<rparr>))"

definition get_file_descriptor :: "int \<Rightarrow> 'a fs_st_scheme \<Rightarrow> addr" where
  "get_file_descriptor fd s =
     (if fd \<le> 0 \<or> fd > int MAX_FILE_DESCRIPTORS then 0 else file_descriptors s (nat (fd - 1)))"

definition free_file_descriptor :: "int \<Rightarrow> 'a fs_st_scheme \<Rightarrow> 'a fs_st_scheme" where
  "free_file_descriptor fd s =
     (if fd \<le> 0 \<or> fd \<ge> int MAX_FILE_DESCRIPTORS then s
      else let s = snd (kfree (file_descriptors s (nat (fd - 1))) s)
           in s\<lparr>file_descriptors := (file_descriptors s)(nat (fd - 1) := 0)\<rparr>)"

section \<open>Operations\<close>

definition parse_mode :: "u8 list \<Rightarrow> file_mode" where
  "parse_mode mode =
     (if strncmp_loop (local_chars mode) (local_chars (lit ''r'')) 1 0 = 0 then FILE_READ
      else if strncmp_loop (local_chars mode) (local_chars (lit ''w'')) 1 0 = 0 then FILE_WRITE
      else if strncmp_loop (local_chars mode) (local_chars (lit ''a'')) 1 0 = 0 then FILE_APPEND
      else FILE_MODE_INVALID)"

definition fs_call_open :: "fs_ptr \<Rightarrow> addr \<Rightarrow> file_mode \<Rightarrow> 'a fs_st_scheme \<Rightarrow> (addr \<times> 'a fs_st_scheme) option" where
  "fs_call_open fs path mode s = (case fs of NullFs \<Rightarrow> None | Fat16_fs \<Rightarrow> fat16_open path mode s)"

text \<open>The result of \<^verbatim>\<open>kfopen\<close> before the code at \<^verbatim>\<open>out\<close> turns errors into 0.\<close>

definition kfopen_body :: "u8 list \<Rightarrow> u8 list \<Rightarrow> 'a fs_st_scheme \<Rightarrow> (int \<times> 'a fs_st_scheme) option" where
  "kfopen_body filename mode_str s =
     (let (root_path, s) = parse_path filename s
      in if root_path = 0 then Some (- STATUS_BAD_FILE_PATH, s)
         else let root = get_field root_path 1 s
              in if mem s (get_field root 0 s) = 0 then Some (- STATUS_BAD_FILE_PATH, s)
                 else let (disk, s) = get_disk (sint (get_field root_path 0 s)) s
                      in if disk = NullDisk then Some (- STATUS_BAD_FILE_PATH, s)
                         else if disk_fs s = NullFs then Some (- STATUS_IO_ERROR, s)
                         else let mode = parse_mode mode_str
                              in if mode = FILE_MODE_INVALID then Some (- STATUS_INVALID_ARG, s)
                                 else do {
                                   (private_data, s) \<leftarrow> fs_call_open (disk_fs s) (get_field root_path 1 s) mode s;
                                   if sint private_data < 0 then Some (sint private_data, s)
                                   else let ((res, fd), s) = new_file_descriptor s
                                        in if res < 0 then Some (res, s)
                                           else let s = s\<lparr>fd_heap := (fd_heap s)(fd := (fd_heap s fd)
                                                    \<lparr>fd_fs := disk_fs s, fd_private_data := private_data, fd_disk := disk\<rparr>)\<rparr>
                                                in Some (fd_index (fd_heap s fd), s)
                                 })"

definition kfopen :: "u8 list \<Rightarrow> u8 list \<Rightarrow> 'a fs_st_scheme \<Rightarrow> (int \<times> 'a fs_st_scheme) option" where
  "kfopen filename mode_str s =
     do { (res, s) \<leftarrow> kfopen_body filename mode_str s; Some (if res < 0 then 0 else res, s) }"

definition fs_call_seek ::
    "fs_ptr \<Rightarrow> addr \<Rightarrow> u32 \<Rightarrow> seek_mode \<Rightarrow> 'a fs_st_scheme \<Rightarrow> (int \<times> 'a fs_st_scheme) option" where
  "fs_call_seek fs private_data offset whence s =
     (case fs of NullFs \<Rightarrow> None | Fat16_fs \<Rightarrow> Some (fat16_seek private_data offset whence s))"

definition kfseek :: "int \<Rightarrow> int \<Rightarrow> seek_mode \<Rightarrow> 'a fs_st_scheme \<Rightarrow> (int \<times> 'a fs_st_scheme) option" where
  "kfseek fd offset whence s =
     (let f = get_file_descriptor fd s
      in if f = 0 then Some (- STATUS_INVALID_ARG, s)
         else fs_call_seek (fd_fs (fd_heap s f)) (fd_private_data (fd_heap s f)) (word_of_int offset) whence s)"

definition fs_call_read ::
    "fs_ptr \<Rightarrow> addr \<Rightarrow> u32 \<Rightarrow> u32 \<Rightarrow> addr \<Rightarrow> 'a fs_st_scheme \<Rightarrow> (int \<times> 'a fs_st_scheme) option" where
  "fs_call_read fs private_data sz nmembs out s =
     (case fs of NullFs \<Rightarrow> None | Fat16_fs \<Rightarrow> fat16_read private_data sz nmembs out s)"

definition kfread :: "addr \<Rightarrow> u32 \<Rightarrow> u32 \<Rightarrow> int \<Rightarrow> 'a fs_st_scheme \<Rightarrow> (int \<times> 'a fs_st_scheme) option" where
  "kfread ptr sz nmembs fd s =
     (if sz = 0 \<or> nmembs = 0 \<or> fd < 1 then Some (- STATUS_INVALID_ARG, s)
      else let f = get_file_descriptor fd s
           in if f = 0 then Some (- STATUS_INVALID_ARG, s)
              else fs_call_read (fd_fs (fd_heap s f)) (fd_private_data (fd_heap s f)) sz nmembs ptr s)"

definition fs_call_stat :: "fs_ptr \<Rightarrow> addr \<Rightarrow> file_stat \<Rightarrow> 'a fs_st_scheme \<Rightarrow> (int \<times> file_stat) option" where
  "fs_call_stat fs private_data stat s =
     (case fs of NullFs \<Rightarrow> None | Fat16_fs \<Rightarrow> Some (fat16_stat private_data stat s))"

definition kfstat :: "int \<Rightarrow> file_stat \<Rightarrow> 'a fs_st_scheme \<Rightarrow> (int \<times> file_stat) option" where
  "kfstat fd stat s =
     (let f = get_file_descriptor fd s
      in if f = 0 then Some (- STATUS_INVALID_ARG, stat)
         else fs_call_stat (fd_fs (fd_heap s f)) (fd_private_data (fd_heap s f)) stat s)"

definition fs_call_close :: "fs_ptr \<Rightarrow> addr \<Rightarrow> 'a fs_st_scheme \<Rightarrow> (int \<times> 'a fs_st_scheme) option" where
  "fs_call_close fs private_data s =
     (case fs of NullFs \<Rightarrow> None | Fat16_fs \<Rightarrow> Some (fat16_close private_data s))"

definition kfclose :: "int \<Rightarrow> 'a fs_st_scheme \<Rightarrow> (int \<times> 'a fs_st_scheme) option" where
  "kfclose fd s =
     (let f = get_file_descriptor fd s
      in if f = 0 then Some (- STATUS_INVALID_ARG, s)
         else do {
           (res, s) \<leftarrow> fs_call_close (fd_fs (fd_heap s f)) (fd_private_data (fd_heap s f)) s;
           Some (res, free_file_descriptor fd s)
         })"

section \<open>Searching tables\<close>

lemma first_index_None: "first_index P n i = None \<longleftrightarrow> (\<forall>j. i \<le> j \<longrightarrow> j < n \<longrightarrow> \<not> P j)"
proof (induction P n i rule: first_index.induct)
  case (1 P n i)
  have "(\<forall>j. i \<le> j \<longrightarrow> j < n \<longrightarrow> \<not> P j) \<longleftrightarrow> (i < n \<longrightarrow> \<not> P i \<and> (\<forall>j. Suc i \<le> j \<longrightarrow> j < n \<longrightarrow> \<not> P j))"
    unfolding Suc_le_eq unfolding le_less by auto
  then show ?case using 1 first_index.simps [of P n i] by (cases "i < n"; cases "P i") simp_all
qed

lemma first_index_Some:
  "first_index P n i = Some j \<Longrightarrow> i \<le> j \<and> j < n \<and> P j \<and> (\<forall>k. i \<le> k \<longrightarrow> k < j \<longrightarrow> \<not> P k)"
proof (induction P n i rule: first_index.induct)
  case (1 P n i)
  show ?case
  proof (cases "P i")
    case True
    then show ?thesis using 1(2) first_index.simps [of P n i] by (auto split: if_splits)
  next
    case False
    then have i: "i < n" and r: "first_index P n (Suc i) = Some j"
      using 1(2) first_index.simps [of P n i] by (auto split: if_splits)
    from 1(1) [OF i False r] have "Suc i \<le> j" "j < n" "P j" "\<forall>k. Suc i \<le> k \<longrightarrow> k < j \<longrightarrow> \<not> P k" by auto
    then show ?thesis using False unfolding Suc_le_eq unfolding le_less by auto
  qed
qed

end
