(* ===== verification/Elf.thy ===== *)
theory Elf
  imports File
begin

text \<open>
  The ELF loader \<^verbatim>\<open>src/src/loader/elfloader.c\<close>. The headers are read from the loaded file in memory at
  the offsets of the packed structs of \<^verbatim>\<open>elf.h\<close>; the loader's own \<^verbatim>\<open>struct elf_file\<close> is kept by its address
  in \<open>elf_files\<close> (its fields \<^verbatim>\<open>filename\<close> and \<^verbatim>\<open>in_memory_size\<close> are never written and left out).
\<close>

section \<open>Headers\<close>

definition PF_W :: u32 where [simp]: "PF_W = 2"
definition PT_LOAD :: u32 where [simp]: "PT_LOAD = 1"
definition ET_EXEC :: u16 where [simp]: "ET_EXEC = 2"
definition DEFAULT_USER_PROG_ENTRY :: addr where [simp]: "DEFAULT_USER_PROG_ENTRY = 0x8400000"

definition e_ident :: "memory \<Rightarrow> addr \<Rightarrow> nat \<Rightarrow> u8" where "e_ident m h i = m (h + of_nat i)"
definition e_type :: "memory \<Rightarrow> addr \<Rightarrow> u16" where "e_type m h = load16 m (h + 16)"
definition e_entry :: "memory \<Rightarrow> addr \<Rightarrow> u32" where "e_entry m h = load32 m (h + 24)"
definition e_phoff :: "memory \<Rightarrow> addr \<Rightarrow> u32" where "e_phoff m h = load32 m (h + 28)"
definition e_phnum :: "memory \<Rightarrow> addr \<Rightarrow> u16" where "e_phnum m h = load16 m (h + 44)"

definition e_shoff :: "memory \<Rightarrow> addr \<Rightarrow> u32" where "e_shoff m h = load32 m (h + 32)"
definition e_shstrndx :: "memory \<Rightarrow> addr \<Rightarrow> u16" where "e_shstrndx m h = load16 m (h + 50)"
definition sh_offset :: "memory \<Rightarrow> addr \<Rightarrow> u32" where "sh_offset m sh = load32 m (sh + 16)"

definition p_type :: "memory \<Rightarrow> addr \<Rightarrow> u32" where "p_type m ph = load32 m ph"
definition p_offset :: "memory \<Rightarrow> addr \<Rightarrow> u32" where "p_offset m ph = load32 m (ph + 4)"
definition p_vaddr :: "memory \<Rightarrow> addr \<Rightarrow> u32" where "p_vaddr m ph = load32 m (ph + 8)"
definition p_filesz :: "memory \<Rightarrow> addr \<Rightarrow> u32" where "p_filesz m ph = load32 m (ph + 16)"
definition p_memsz :: "memory \<Rightarrow> addr \<Rightarrow> u32" where "p_memsz m ph = load32 m (ph + 20)"
definition p_flags :: "memory \<Rightarrow> addr \<Rightarrow> u32" where "p_flags m ph = load32 m (ph + 24)"

record elf_file =
  elf_memory_ptr :: addr
  virtual_base_address :: addr
  virtual_end_address :: addr
  physical_base_address :: addr
  physical_end_address :: addr

record elf_st = fs_st +
  elf_files :: "addr \<Rightarrow> elf_file"

definition null_elf :: elf_file where
  "null_elf = \<lparr>elf_memory_ptr = 0, virtual_base_address = 0, virtual_end_address = 0,
     physical_base_address = 0, physical_end_address = 0\<rparr>"

section \<open>Validation\<close>

definition elf_signature :: "u8 list" where "elf_signature = [0x7f, 69, 76, 70]"

definition elf_valid_signature :: "memory \<Rightarrow> addr \<Rightarrow> bool" where
  "elf_valid_signature m buffer \<longleftrightarrow> read_bytes m buffer (length elf_signature) = elf_signature"

definition elf_valid_class :: "memory \<Rightarrow> addr \<Rightarrow> bool" where
  "elf_valid_class m header \<longleftrightarrow> e_ident m header 4 = 0 \<or> e_ident m header 4 = 1"

definition elf_valid_encoding :: "memory \<Rightarrow> addr \<Rightarrow> bool" where
  "elf_valid_encoding m header \<longleftrightarrow> e_ident m header 5 = 0 \<or> e_ident m header 5 = 1"

definition elf_is_executable :: "memory \<Rightarrow> addr \<Rightarrow> bool" where
  "elf_is_executable m header \<longleftrightarrow> e_type m header = ET_EXEC \<and> e_entry m header \<ge> DEFAULT_USER_PROG_ENTRY"

definition elf_has_program_header :: "memory \<Rightarrow> addr \<Rightarrow> bool" where
  "elf_has_program_header m header \<longleftrightarrow> e_phoff m header \<noteq> 0"

definition elf_memory :: "elf_file \<Rightarrow> addr" where "elf_memory file = elf_memory_ptr file"
definition elf_header :: "elf_file \<Rightarrow> addr" where "elf_header file = elf_memory_ptr file"

definition elf_pheader :: "memory \<Rightarrow> addr \<Rightarrow> addr" where
  "elf_pheader m header = (if e_phoff m header = 0 then 0 else header + e_phoff m header)"

definition elf_program_header :: "memory \<Rightarrow> addr \<Rightarrow> nat \<Rightarrow> addr" where
  "elf_program_header m header index = elf_pheader m header + of_nat (32 * index)"

definition elf_sheader :: "memory \<Rightarrow> addr \<Rightarrow> addr" where
  "elf_sheader m header = header + e_shoff m header"

definition elf_section :: "memory \<Rightarrow> addr \<Rightarrow> nat \<Rightarrow> addr" where
  "elf_section m header index = elf_sheader m header + of_nat (40 * index)"

definition elf_str_table :: "memory \<Rightarrow> addr \<Rightarrow> addr" where
  "elf_str_table m header = header + sh_offset m (elf_section m header (unat (e_shstrndx m header)))"

definition elf_virtual_base :: "elf_file \<Rightarrow> addr" where "elf_virtual_base file = virtual_base_address file"
definition elf_virtual_end :: "elf_file \<Rightarrow> addr" where "elf_virtual_end file = virtual_end_address file"
definition elf_phys_base :: "elf_file \<Rightarrow> addr" where "elf_phys_base file = physical_base_address file"
definition elf_phys_end :: "elf_file \<Rightarrow> addr" where "elf_phys_end file = physical_end_address file"

definition elf_get_entry_ptr :: "memory \<Rightarrow> addr \<Rightarrow> addr" where "elf_get_entry_ptr m header = e_entry m header"
definition elf_get_entry :: "memory \<Rightarrow> addr \<Rightarrow> u32" where "elf_get_entry m header = e_entry m header"

definition elf_validate_loaded :: "memory \<Rightarrow> addr \<Rightarrow> int" where
  "elf_validate_loaded m header =
     (if elf_valid_signature m header \<and> elf_valid_class m header \<and> elf_valid_encoding m header \<and>
         elf_has_program_header m header
      then STATUS_OK else - STATUS_INVALID_EXEC_FORMAT)"

section \<open>Program headers\<close>

definition elf_phdr_phys_address :: "memory \<Rightarrow> elf_file \<Rightarrow> addr \<Rightarrow> addr" where
  "elf_phdr_phys_address m file phdr = elf_memory file + p_offset m phdr"

definition elf_process_phdr_pt_load :: "memory \<Rightarrow> addr \<Rightarrow> elf_file \<Rightarrow> int \<times> elf_file" where
  "elf_process_phdr_pt_load m phdr f =
     (let f = (if virtual_base_address f \<ge> p_vaddr m phdr \<or> virtual_base_address f = 0
               then f\<lparr>virtual_base_address := p_vaddr m phdr,
                      physical_base_address := elf_memory f + p_offset m phdr\<rparr> else f);
          end_virtual_address = p_vaddr m phdr + p_filesz m phdr;
          f = (if virtual_end_address f \<le> end_virtual_address \<or> virtual_end_address f = 0
               then f\<lparr>virtual_end_address := end_virtual_address,
                      physical_end_address := elf_memory f + p_offset m phdr + p_filesz m phdr\<rparr> else f)
      in (0, f))"

definition elf_process_pheader :: "memory \<Rightarrow> addr \<Rightarrow> elf_file \<Rightarrow> int \<times> elf_file" where
  "elf_process_pheader m phdr f =
     (if p_type m phdr = PT_LOAD then elf_process_phdr_pt_load m phdr f else (0, f))"

function elf_pheaders_loop :: "memory \<Rightarrow> addr \<Rightarrow> nat \<Rightarrow> int \<Rightarrow> elf_file \<Rightarrow> int \<times> elf_file" where
  "elf_pheaders_loop m header i res f =
     (if i < unat (e_phnum m header)
      then let (res, f) = elf_process_pheader m (elf_program_header m header i) f
           in if res < 0 then (res, f) else elf_pheaders_loop m header (Suc i) res f
      else (res, f))"
  by pat_completeness auto
termination
  by (relation "measure (\<lambda>(m, header, i, res, f). unat (e_phnum m header) - i)") auto

declare elf_pheaders_loop.simps [simp del]

definition elf_process_pheaders :: "memory \<Rightarrow> elf_file \<Rightarrow> int \<times> elf_file" where
  "elf_process_pheaders m f = elf_pheaders_loop m (elf_header f) 0 0 f"

definition elf_process_loaded :: "memory \<Rightarrow> elf_file \<Rightarrow> int \<times> elf_file" where
  "elf_process_loaded m f =
     (let res = elf_validate_loaded m (elf_header f)
      in if res < 0 then (res, f) else elf_process_pheaders m f)"

section \<open>Loading\<close>

definition SIZEOF_elf_file :: u32 where [simp]: "SIZEOF_elf_file = 132"

definition set_elf :: "addr \<Rightarrow> elf_file \<Rightarrow> 'a elf_st_scheme \<Rightarrow> 'a elf_st_scheme" where
  "set_elf p f s = s\<lparr>elf_files := (elf_files s)(p := f)\<rparr>"

text \<open>The result is the status and, on success, the new \<^verbatim>\<open>struct elf_file\<close>.\<close>

definition elf_load :: "u8 list \<Rightarrow> 'a elf_st_scheme \<Rightarrow> ((int \<times> addr) \<times> 'a elf_st_scheme) option" where
  "elf_load filename s =
     (let (elf_file, s) = kzalloc SIZEOF_elf_file s
      in if elf_file = 0 then Some ((- STATUS_NOT_ENOUGH_MEM, 0), s)
         else let s = set_elf elf_file null_elf s
              in do {
                (fd, s) \<leftarrow> kfopen filename (lit ''r'') s;
                if fd \<le> 0 then Some ((- STATUS_IO_ERROR, 0), snd (kfree elf_file s))
                else do {
                  (res, stat) \<leftarrow> kfstat fd \<lparr>stat_flags = 0, stat_file_size = 0\<rparr> s;
                  if res < 0
                  then do { (_, s) \<leftarrow> kfclose fd s; Some ((res, 0), snd (kfree elf_file s)) }
                  else let (image, s) = kzalloc (stat_file_size stat) s;
                           s = set_elf elf_file ((elf_files s elf_file)\<lparr>elf_memory_ptr := image\<rparr>) s
                       in if image = 0
                          then do { (_, s) \<leftarrow> kfclose fd s; Some ((- STATUS_NOT_ENOUGH_MEM, 0), snd (kfree elf_file s)) }
                          else do {
                            (res, s) \<leftarrow> kfread image (stat_file_size stat) 1 fd s;
                            if res < 0
                            then do { (_, s) \<leftarrow> kfclose fd s;
                                      Some ((res, 0), snd (kfree elf_file (snd (kfree image s)))) }
                            else let (res, f) = elf_process_loaded (mem s) (elf_files s elf_file);
                                     s = set_elf elf_file f s
                                 in do {
                                   (_, s) \<leftarrow> kfclose fd s;
                                   if res < 0
                                   then Some ((res, 0), snd (kfree elf_file (snd (kfree image s))))
                                   else Some ((res, elf_file), s)
                                 }
                          }
                }
              })"

definition elf_close :: "addr \<Rightarrow> 'a elf_st_scheme \<Rightarrow> 'a elf_st_scheme" where
  "elf_close file s =
     (if file = 0 then s
      else let image = elf_memory_ptr (elf_files s file);
               s = (if image \<noteq> 0 then snd (kfree image s) else s)
           in snd (kfree file s))"

end
