(* ===== verification/Task.thy ===== *)
theory Task
  imports Elf
begin

text \<open>
  Tasks and their switching: \<^verbatim>\<open>src/src/task/task.c\<close>, the data of \<^verbatim>\<open>task.h\<close> and \<^verbatim>\<open>process.h\<close>, and the return to
  user mode of \<^verbatim>\<open>task.asm\<close>. Task structures are kept by their address in \<open>tasks\<close>, the process table is
  \<open>procs\<close>, and a \<^verbatim>\<open>struct process *\<close> is the index of the slot or \<open>None\<close> for the null pointer. The registers
  the processor has when it enters user mode are the field \<open>cpu\<close>.
\<close>

section \<open>Data\<close>

definition KHEAP_SAFE_BOUNDARY :: addr where [simp]: "KHEAP_SAFE_BOUNDARY = 0x8000000"
definition DEFAULT_USER_DATA_SEGMENT :: u32 where [simp]: "DEFAULT_USER_DATA_SEGMENT = 0x23"
definition DEFAULT_USER_CODE_SEGMENT :: u32 where [simp]: "DEFAULT_USER_CODE_SEGMENT = 0x1B"
definition DEFAULT_USER_STACK_START :: addr where [simp]: "DEFAULT_USER_STACK_START = 0x83ff000"
definition DEFAULT_USER_STACK_SIZE :: u32 where [simp]: "DEFAULT_USER_STACK_SIZE = 16384"
definition DEFAULT_USER_STACK_END :: addr where [simp]: "DEFAULT_USER_STACK_END = 0x83fb000"
definition MAX_PROCS :: nat where [simp]: "MAX_PROCS = 64"
definition PROCESS_VMEM_MAX_BLOCKS :: nat where [simp]: "PROCESS_VMEM_MAX_BLOCKS = 10"
definition PROCESS_KEYBOARD_BUFFER_SIZE :: nat where [simp]: "PROCESS_KEYBOARD_BUFFER_SIZE = 1024"

datatype task_state = TASK_RUNNING | TASK_BLOCKED | TASK_READY | TASK_DEAD

record registers =
  r_edi :: u32
  r_esi :: u32
  r_ebp :: u32
  r_ebx :: u32
  r_edx :: u32
  r_ecx :: u32
  r_eax :: u32
  r_eip :: u32
  r_cs :: u32
  r_eflags :: u32
  r_esp :: u32
  r_ss :: u32

record interrupt_frame =
  f_edi :: u32
  f_esi :: u32
  f_ebp :: u32
  f_reserved :: u32
  f_ebx :: u32
  f_edx :: u32
  f_ecx :: u32
  f_eax :: u32
  f_eip :: u32
  f_cs :: u32
  f_eflags :: u32
  f_esp :: u32
  f_ss :: u32

type_synonym proc_ptr = "nat option"

record task =
  page_table :: page_table_32b
  t_state :: task_state
  regs :: registers
  t_proc :: proc_ptr
  t_next :: addr
  t_prev :: addr

datatype proc_status = PROC_UNUSED | PROC_CREATING | PROC_CAN_START | PROC_ZOMBIE

record keyboard_buffer =
  kb_buf :: "nat \<Rightarrow> u8"
  kb_head :: nat
  kb_tail :: nat

text \<open>
  The union of \<^verbatim>\<open>code_data_paddr\<close> and \<^verbatim>\<open>elf_file\<close> is the field \<open>image\<close>. The fields \<^verbatim>\<open>chan\<close> and
  \<^verbatim>\<open>open_files\<close> are never used.
\<close>

record process =
  pid :: u16
  parent_pid :: u16
  exit_status :: int
  p_status :: proc_status
  p_task :: addr
  file_type :: int
  image :: addr
  stack_paddr :: addr
  p_size :: u32
  program_file :: "u8 list"
  vmem_blocks_start :: "nat \<Rightarrow> addr"
  vmem_blocks_end :: "nat \<Rightarrow> addr"
  keyboard :: keyboard_buffer

definition PROC_FILE_TYPE_ELF :: int where [simp]: "PROC_FILE_TYPE_ELF = 0"
definition PROC_FILE_TYPE_BINARY :: int where [simp]: "PROC_FILE_TYPE_BINARY = 1"

record proc_st = elf_st +
  tasks :: "addr \<Rightarrow> task"
  curr_task :: addr
  tasks_ll_head :: addr
  tasks_ll_tail :: addr
  procs :: "nat \<Rightarrow> process"
  current_proc :: proc_ptr
  cpu :: registers

text \<open>Structures filled with zero bytes.\<close>

definition zero_registers :: registers where
  "zero_registers = \<lparr>r_edi = 0, r_esi = 0, r_ebp = 0, r_ebx = 0, r_edx = 0, r_ecx = 0, r_eax = 0,
     r_eip = 0, r_cs = 0, r_eflags = 0, r_esp = 0, r_ss = 0\<rparr>"

definition zero_task :: task where
  "zero_task = \<lparr>page_table = \<lparr>cr3 = 0, num_levels = 0\<rparr>, t_state = TASK_RUNNING, regs = zero_registers,
     t_proc = None, t_next = 0, t_prev = 0\<rparr>"

definition zero_process :: process where
  "zero_process = \<lparr>pid = 0, parent_pid = 0, exit_status = 0, p_status = PROC_UNUSED, p_task = 0,
     file_type = 0, image = 0, stack_paddr = 0, p_size = 0, program_file = [],
     vmem_blocks_start = (\<lambda>_. 0), vmem_blocks_end = (\<lambda>_. 0),
     keyboard = \<lparr>kb_buf = (\<lambda>_. 0), kb_head = 0, kb_tail = 0\<rparr>\<rparr>"

text \<open>Access through pointers.\<close>

definition upd_task :: "addr \<Rightarrow> (task \<Rightarrow> task) \<Rightarrow> 'a proc_st_scheme \<Rightarrow> 'a proc_st_scheme" where
  "upd_task t f s = s\<lparr>tasks := (tasks s)(t := f (tasks s t))\<rparr>"

definition upd_proc :: "nat \<Rightarrow> (process \<Rightarrow> process) \<Rightarrow> 'a proc_st_scheme \<Rightarrow> 'a proc_st_scheme" where
  "upd_proc i f s = s\<lparr>procs := (procs s)(i := f (procs s i))\<rparr>"

definition deref :: "proc_ptr \<Rightarrow> (nat \<Rightarrow> 'a proc_st_scheme \<Rightarrow> ('a proc_st_scheme, 'b) outcome) \<Rightarrow>
    'a proc_st_scheme \<Rightarrow> ('a proc_st_scheme, 'b) outcome" where
  "deref p f s = (case p of None \<Rightarrow> NullDeref s | Some i \<Rightarrow> f i s)"

section \<open>Creating tasks\<close>

definition SIZEOF_task :: u32 where [simp]: "SIZEOF_task = 76"

definition task_init :: "addr \<Rightarrow> nat \<Rightarrow> 'a proc_st_scheme \<Rightarrow> int \<times> 'a proc_st_scheme" where
  "task_init task proc s =
     (let s = upd_task task (\<lambda>_. zero_task) s;
          ((res, pt), s) = paging_create_4gb_page_tables (PAGE_PRESENT OR PAGE_WRITE_ALLOW)
                             (page_table (tasks s task)) s;
          s = upd_task task (\<lambda>t. t\<lparr>page_table := pt\<rparr>) s
      in if res \<noteq> STATUS_OK then (res, s)
         else let eip = (if file_type (procs s proc) = PROC_FILE_TYPE_ELF
                         then e_entry (mem s) (elf_header (elf_files s (image (procs s proc))))
                         else DEFAULT_USER_PROG_ENTRY)
              in (STATUS_OK, upd_task task (\<lambda>t. t\<lparr>regs := (regs t)\<lparr>r_eip := eip,
                    r_ss := DEFAULT_USER_DATA_SEGMENT, r_esp := DEFAULT_USER_STACK_START,
                    r_cs := DEFAULT_USER_CODE_SEGMENT, r_eflags := 0x202\<rparr>,
                    t_proc := Some proc, t_state := TASK_READY\<rparr>) s))"

text \<open>Appending to the list of all tasks.\<close>

definition tasks_append :: "addr \<Rightarrow> 'a proc_st_scheme \<Rightarrow> 'a proc_st_scheme" where
  "tasks_append task s =
     (if tasks_ll_head s = 0
      then upd_task task (\<lambda>t. t\<lparr>t_prev := 0, t_next := 0\<rparr>) (s\<lparr>tasks_ll_head := task, tasks_ll_tail := task\<rparr>)
      else let s = upd_task (tasks_ll_tail s) (\<lambda>t. t\<lparr>t_next := task\<rparr>) s;
               s = upd_task task (\<lambda>t. t\<lparr>t_prev := tasks_ll_tail s, t_next := 0\<rparr>) s
           in s\<lparr>tasks_ll_tail := task\<rparr>)"

definition task_new :: "nat \<Rightarrow> 'a proc_st_scheme \<Rightarrow> addr \<times> 'a proc_st_scheme" where
  "task_new proc s =
     (let (task, s) = kzalloc SIZEOF_task s
      in if task = 0 then (0, s)
         else let (res, s) = task_init task proc s
              in if res \<noteq> STATUS_OK then (0, snd (kfree task s))
                 else (task, tasks_append task s))"

definition task_get_next :: "'a proc_st_scheme \<Rightarrow> addr" where
  "task_get_next s =
     (if curr_task s = 0 then 0
      else if t_next (tasks s (curr_task s)) = 0 then tasks_ll_head s
      else t_next (tasks s (curr_task s)))"

text \<open>Unlinking from the list of all tasks.\<close>

definition tasks_unlink :: "addr \<Rightarrow> 'a proc_st_scheme \<Rightarrow> 'a proc_st_scheme" where
  "tasks_unlink task s =
     (let s = (if t_prev (tasks s task) \<noteq> 0
               then upd_task (t_prev (tasks s task)) (\<lambda>t. t\<lparr>t_next := t_next (tasks s task)\<rparr>) s else s);
          s = (if t_next (tasks s task) \<noteq> 0
               then upd_task (t_next (tasks s task)) (\<lambda>t. t\<lparr>t_prev := t_prev (tasks s task)\<rparr>) s else s);
          s = (if task = tasks_ll_head s then s\<lparr>tasks_ll_head := t_next (tasks s task)\<rparr> else s);
          s = (if task = tasks_ll_tail s then s\<lparr>tasks_ll_tail := t_prev (tasks s task)\<rparr> else s)
      in if task = curr_task s then s\<lparr>curr_task := 0\<rparr> else s)"

definition task_free :: "addr \<Rightarrow> 'a proc_st_scheme \<Rightarrow> ('a proc_st_scheme, int) outcome" where
  "task_free task s =
     (if task = 0 then Ret 0 s
      else if t_state (tasks s task) \<noteq> TASK_DEAD then panic ''Trying to free a task that is not dead'' s
      else bindO (paging_free_page_table (page_table (tasks s task)) s)
             (\<lambda>_ s. Ret 0 (snd (kfree task (tasks_unlink task s)))))"

section \<open>Switching\<close>

text \<open>\<^verbatim>\<open>set_current_process\<close> of \<^verbatim>\<open>process.c\<close>.\<close>

definition set_current_process :: "nat \<Rightarrow> 'a proc_st_scheme \<Rightarrow> ('a proc_st_scheme, unit) outcome" where
  "set_current_process proc s =
     (if p_status (procs s proc) \<noteq> PROC_CAN_START
      then panic ''set_current_process called, but process is not ready to run'' s
      else Ret () (s\<lparr>current_proc := Some proc\<rparr>))"

definition task_switch :: "addr \<Rightarrow> 'a proc_st_scheme \<Rightarrow> ('a proc_st_scheme, int) outcome" where
  "task_switch task s =
     (let s = (if curr_task s \<noteq> 0 \<and> t_state (tasks s (curr_task s)) = TASK_RUNNING
               then upd_task (curr_task s) (\<lambda>t. t\<lparr>t_state := TASK_READY\<rparr>) s else s);
          s = s\<lparr>curr_task := task\<rparr>;
          s = upd_task task (\<lambda>t. t\<lparr>t_state := TASK_RUNNING\<rparr>) s
      in bindO (deref (t_proc (tasks s task)) set_current_process s)
           (\<lambda>_ s. Ret 0 (paging_switch (page_table (tasks s task)) s)))"

text \<open>\<^verbatim>\<open>task_return\<close> loads every register from the structure and leaves the kernel.\<close>

definition task_return :: "registers \<Rightarrow> 'a proc_st_scheme \<Rightarrow> ('a proc_st_scheme, 'b) outcome" where
  "task_return r s = UserMode (s\<lparr>cpu := r\<rparr>)"

definition task_switch_and_run :: "addr \<Rightarrow> 'a proc_st_scheme \<Rightarrow> ('a proc_st_scheme, int) outcome" where
  "task_switch_and_run task s =
     (if t_state (tasks s task) \<noteq> TASK_READY then panic ''Can't switch to a non ready task'' s
      else bindO (task_switch task s) (\<lambda>_ s. task_return (regs (tasks s task)) s))"

text \<open>The loop over the list; \<open>task_switch_and_run\<close> never returns, so the first ready task ends it.\<close>

partial_function (option) first_ready :: "addr \<Rightarrow> 'a proc_st_scheme \<Rightarrow> addr option" where
  "first_ready task s =
     (if task = 0 then Some 0
      else if t_state (tasks s task) = TASK_READY then Some task
      else first_ready (t_next (tasks s task)) s)"

definition task_switch_and_run_any :: "'a proc_st_scheme \<Rightarrow> ('a proc_st_scheme, unit) outcome" where
  "task_switch_and_run_any s =
     (case first_ready (tasks_ll_head s) s of
        None \<Rightarrow> Diverges
      | Some task \<Rightarrow>
          if task = 0 then panic (''Deadlock: No ready task found'' @ [CHR 0x0A]) s
          else bindO (task_switch_and_run task s) (\<lambda>_ s. Ret () s))"

definition task_run_init_task :: "'a proc_st_scheme \<Rightarrow> ('a proc_st_scheme, unit) outcome" where
  "task_run_init_task s =
     (if tasks_ll_head s = 0 then panic (''Can't start init task: no curr tasks exists'' @ [CHR 0x0A]) s
      else deref (t_proc (tasks s (tasks_ll_head s)))
             (\<lambda>i s. bindO (task_switch_and_run (tasks_ll_head s)
                        (upd_proc i (\<lambda>p. p\<lparr>parent_pid := pid p\<rparr>) s)) (\<lambda>_ s. Ret () s)) s)"

definition task_save_current_state :: "interrupt_frame \<Rightarrow> 'a proc_st_scheme \<Rightarrow> ('a proc_st_scheme, unit) outcome" where
  "task_save_current_state frame s =
     (if curr_task s = 0 then panic ''Saved state called but no curr task'' s
      else Ret () (upd_task (curr_task s) (\<lambda>t. t\<lparr>regs := (regs t)\<lparr>r_eip := f_eip frame, r_cs := f_cs frame,
             r_eflags := f_eflags frame, r_esp := f_esp frame, r_ss := f_ss frame, r_eax := f_eax frame,
             r_ebp := f_ebp frame, r_ebx := f_ebx frame, r_ecx := f_ecx frame, r_edi := f_edi frame,
             r_edx := f_edx frame, r_esi := f_esi frame\<rparr>\<rparr>) s))"

text \<open>The loop of \<^verbatim>\<open>task_switch_to_next_and_run\<close>: \<^verbatim>\<open>task_get_next\<close> depends on the current task only.\<close>

partial_function (option) next_ready :: "addr \<Rightarrow> addr \<Rightarrow> 'a proc_st_scheme \<Rightarrow> addr option" where
  "next_ready start nxt s =
     (if nxt = start then Some nxt
      else if t_state (tasks s nxt) = TASK_READY then Some nxt
      else next_ready start (task_get_next s) s)"

definition task_switch_to_next_and_run :: "'a proc_st_scheme \<Rightarrow> ('a proc_st_scheme, unit) outcome" where
  "task_switch_to_next_and_run s =
     (let start = curr_task s
      in if start = 0 then panic ''No curr task'' s
         else let s = (if t_state (tasks s start) = TASK_RUNNING
                       then upd_task start (\<lambda>t. t\<lparr>t_state := TASK_READY\<rparr>) s else s)
              in case next_ready start (task_get_next s) s of
                   None \<Rightarrow> Diverges
                 | Some nxt \<Rightarrow> bindO (task_switch_and_run nxt s) (\<lambda>_ s. Ret () s))"

section \<open>User memory\<close>

text \<open>
  The kernel runs on the page table of the current task. Kernel addresses are mapped to
  themselves there, so a copy from user space reads each byte through the loaded table.
\<close>

fun read_user :: "addr \<Rightarrow> nat \<Rightarrow> 'a paging_st_scheme \<Rightarrow> addr + u8 list" where
  "read_user src 0 s = Inr []"
| "read_user src (Suc n) s =
     (case translate (mem s) (cr3_reg s) src of
        None \<Rightarrow> Inl src
      | Some pa \<Rightarrow> (case read_user (src + 1) n s of Inl a \<Rightarrow> Inl a | Inr bs \<Rightarrow> Inr (mem s pa # bs)))"

text \<open>The bytes that \<^verbatim>\<open>copy_data_from_user\<close> copies; the caller puts them into its destination.\<close>

definition copy_data_from_user :: "addr \<Rightarrow> u32 \<Rightarrow> 'a proc_st_scheme \<Rightarrow> ('a proc_st_scheme, u8 list) outcome" where
  "copy_data_from_user src nbytes s =
     (if src < KHEAP_SAFE_BOUNDARY \<or> src + nbytes < KHEAP_SAFE_BOUNDARY
      then panic ''Invalid user memory access'' s
      else case read_user src (unat nbytes) s of Inl a \<Rightarrow> PageFault a s | Inr bs \<Rightarrow> Ret bs s)"

definition verify_user_pointer :: "addr \<Rightarrow> int" where
  "verify_user_pointer ptr =
     (if ptr < KHEAP_SAFE_BOUNDARY then - STATUS_INVALID_USER_MEM_ACCESS else STATUS_OK)"

definition task_get_stack_item :: "addr \<Rightarrow> int \<Rightarrow> 'a proc_st_scheme \<Rightarrow> ('a proc_st_scheme, u32) outcome" where
  "task_get_stack_item task index s =
     bindO (copy_data_from_user (r_esp (regs (tasks s task)) + word_of_int (4 * index)) 4 s)
       (\<lambda>bs s. Ret (word_of_bytes bs) s)"

end
