(* ===== verification/Process.thy ===== *)
theory Process
  imports Task
begin

text \<open>
  Processes: \<^verbatim>\<open>src/src/task/process.c\<close>. Loading goes through the file layer, whose calls may not come back;
  mapping goes through the paging functions. The arguments of a process are written to the physical
  pages of its stack.
\<close>

section \<open>Loading\<close>

definition process_load_binary :: "u8 list \<Rightarrow> nat \<Rightarrow> 'a proc_st_scheme \<Rightarrow> (int \<times> 'a proc_st_scheme) option" where
  "process_load_binary filename proc s =
     do {
       (fd, s) \<leftarrow> kfopen filename (lit ''r'') s;
       if fd \<le> 0 then Some (- STATUS_IO_ERROR, s)
       else do {
         (res, stat) \<leftarrow> kfstat fd \<lparr>stat_flags = 0, stat_file_size = 0\<rparr> s;
         if res \<noteq> STATUS_OK then Some (res, s)
         else let fsize = stat_file_size stat; (program_data_ptr, s) = kzalloc fsize s
              in if program_data_ptr = 0
                 then do { (_, s) \<leftarrow> kfclose fd s; Some (- STATUS_NOT_ENOUGH_MEM, s) }
                 else do {
                   (n, s) \<leftarrow> kfread program_data_ptr fsize 1 fd s;
                   if n \<noteq> 1
                   then do { (_, s) \<leftarrow> kfclose fd (snd (kfree program_data_ptr s)); Some (- STATUS_IO_ERROR, s) }
                   else do {
                     (_, s) \<leftarrow> kfclose fd (upd_proc proc (\<lambda>p. p\<lparr>file_type := PROC_FILE_TYPE_BINARY,
                                  image := program_data_ptr, p_size := fsize\<rparr>) s);
                     Some (res, s)
                   }
                 }
       }
     }"

definition process_load_elf :: "u8 list \<Rightarrow> nat \<Rightarrow> 'a proc_st_scheme \<Rightarrow> (int \<times> 'a proc_st_scheme) option" where
  "process_load_elf filename proc s =
     do {
       ((res, elf_file), s) \<leftarrow> elf_load filename s;
       if res \<noteq> STATUS_OK then Some (res, s)
       else Some (STATUS_OK, upd_proc proc (\<lambda>p. p\<lparr>file_type := PROC_FILE_TYPE_ELF, image := elf_file\<rparr>) s)
     }"

text \<open>The test is against the positive code, which \<^verbatim>\<open>process_load_elf\<close> never returns.\<close>

definition process_load_data :: "u8 list \<Rightarrow> nat \<Rightarrow> 'a proc_st_scheme \<Rightarrow> (int \<times> 'a proc_st_scheme) option" where
  "process_load_data filename proc s =
     do {
       (res, s) \<leftarrow> process_load_elf filename proc s;
       if res = STATUS_INVALID_EXEC_FORMAT
       then process_load_binary filename proc
              (println (lit ''Could not load ELF file, trying binary format'') s)
       else Some (res, s)
     }"

section \<open>The process table\<close>

definition procs_init :: "'a proc_st_scheme \<Rightarrow> 'a proc_st_scheme" where
  "procs_init s = s\<lparr>procs := (\<lambda>i. if i < MAX_PROCS then zero_process\<lparr>p_status := PROC_UNUSED\<rparr> else procs s i)\<rparr>"

definition process_init :: "nat \<Rightarrow> 'a proc_st_scheme \<Rightarrow> 'a proc_st_scheme" where
  "process_init proc s = upd_proc proc (\<lambda>_. zero_process) s"

definition process_set_parent_pid :: "nat \<Rightarrow> u16 \<Rightarrow> 'a proc_st_scheme \<Rightarrow> 'a proc_st_scheme" where
  "process_set_parent_pid proc p s = upd_proc proc (\<lambda>q. q\<lparr>parent_pid := p\<rparr>) s"

definition get_free_slot :: "'a proc_st_scheme \<Rightarrow> int" where
  "get_free_slot s =
     (case first_index (\<lambda>i. p_status (procs s i) = PROC_UNUSED) MAX_PROCS 0 of
        None \<Rightarrow> - 1 | Some i \<Rightarrow> int i)"

definition get_proc_by_pid :: "int \<Rightarrow> 'a proc_st_scheme \<Rightarrow> proc_ptr" where
  "get_proc_by_pid p s = first_index (\<lambda>i. uint (pid (procs s i)) = p) MAX_PROCS 0"

definition free_pid_slot :: "int \<Rightarrow> 'a proc_st_scheme \<Rightarrow> int \<times> 'a proc_st_scheme" where
  "free_pid_slot p s =
     (case first_index (\<lambda>i. uint (pid (procs s i)) = p) MAX_PROCS 0 of
        None \<Rightarrow> (- STATUS_INVALID_ARG, s)
      | Some i \<Rightarrow> (STATUS_OK, process_init i (upd_proc i (\<lambda>q. q\<lparr>p_status := PROC_UNUSED\<rparr>) s)))"

definition process_reap :: "nat \<Rightarrow> 'a proc_st_scheme \<Rightarrow> ('a proc_st_scheme, int) outcome" where
  "process_reap proc s =
     (if p_status (procs s proc) = PROC_ZOMBIE
      then bindO (task_free (p_task (procs s proc)) s)
             (\<lambda>_ s. Ret STATUS_OK (snd (free_pid_slot (uint (pid (procs s proc))) s)))
      else Ret (- STATUS_PROC_NOT_ZOMBIE) s)"

definition process_waitpid :: "nat \<Rightarrow> int \<Rightarrow> 'a proc_st_scheme \<Rightarrow> ('a proc_st_scheme, int) outcome" where
  "process_waitpid proc waitpid s =
     (case get_proc_by_pid waitpid s of
        None \<Rightarrow> Ret (- STATUS_INVALID_ARG) s
      | Some waitproc \<Rightarrow>
          if parent_pid (procs s waitproc) \<noteq> pid (procs s proc) then Ret (- STATUS_INVALID_ARG) s
          else process_reap waitproc s)"

section \<open>Virtual memory blocks\<close>

definition process_add_vmem_block :: "nat \<Rightarrow> addr \<Rightarrow> addr \<Rightarrow> 'a proc_st_scheme \<Rightarrow> int \<times> 'a proc_st_scheme" where
  "process_add_vmem_block proc va_start va_end s =
     (case first_index (\<lambda>i. vmem_blocks_start (procs s proc) i = 0) PROCESS_VMEM_MAX_BLOCKS 0 of
        None \<Rightarrow> (- STATUS_OUT_OF_VMEM_BLOCKS, s)
      | Some i \<Rightarrow> (int i, upd_proc proc (\<lambda>p. p\<lparr>vmem_blocks_start := (vmem_blocks_start p)(i := va_start),
                              vmem_blocks_end := (vmem_blocks_end p)(i := va_end)\<rparr>) s))"

definition process_get_vmem_block :: "nat \<Rightarrow> addr \<Rightarrow> 'a proc_st_scheme \<Rightarrow> int" where
  "process_get_vmem_block proc va_start s =
     (case first_index (\<lambda>i. vmem_blocks_start (procs s proc) i = va_start) PROCESS_VMEM_MAX_BLOCKS 0 of
        None \<Rightarrow> - STATUS_INVALID_ARG | Some i \<Rightarrow> int i)"

definition process_free_vmem_block :: "nat \<Rightarrow> addr \<Rightarrow> 'a proc_st_scheme \<Rightarrow> int \<times> 'a proc_st_scheme" where
  "process_free_vmem_block proc va_start s =
     (let block_id = process_get_vmem_block proc va_start s
      in if block_id < 0 then (block_id, s)
         else let pt = page_table (tasks s (p_task (procs s proc)));
                  i = nat block_id;
                  va_end = vmem_blocks_end (procs s proc) i;
                  (_, s) = paging_free_va pt va_start va_end s
              in (STATUS_OK, upd_proc proc (\<lambda>p. p\<lparr>vmem_blocks_start := (vmem_blocks_start p)(i := 0),
                               vmem_blocks_end := (vmem_blocks_end p)(i := 0)\<rparr>) s))"

section \<open>Exit\<close>

definition process_exit :: "proc_ptr \<Rightarrow> int \<Rightarrow> 'a proc_st_scheme \<Rightarrow> int \<times> 'a proc_st_scheme" where
  "process_exit proc status s =
     (case proc of None \<Rightarrow> (0, s)
      | Some i \<Rightarrow>
          let s = upd_task (p_task (procs s i)) (\<lambda>t. t\<lparr>t_state := TASK_DEAD\<rparr>) s;
              s = (if file_type (procs s i) = PROC_FILE_TYPE_BINARY then snd (kfree (image (procs s i)) s)
                   else if file_type (procs s i) = PROC_FILE_TYPE_ELF
                   then snd (kfree (elf_memory (elf_files s (image (procs s i)))) s)
                   else s);
              s = fold (\<lambda>k s. if vmem_blocks_start (procs s i) k \<noteq> 0
                              then snd (process_free_vmem_block i (vmem_blocks_start (procs s i) k) s) else s)
                    [0..<PROCESS_VMEM_MAX_BLOCKS] s;
              s = (if stack_paddr (procs s i) \<noteq> 0 then snd (kfree (stack_paddr (procs s i)) s) else s);
              s = (if proc = current_proc s then s\<lparr>current_proc := None\<rparr> else s)
          in (0, upd_proc i (\<lambda>p. p\<lparr>p_status := PROC_ZOMBIE, exit_status := status\<rparr>) s))"

section \<open>Mapping\<close>

definition user_page_flags :: u8 where
  "user_page_flags = PAGE_PRESENT OR PAGE_WRITE_ALLOW OR PAGE_USER_ACCESS_ALLOW"

definition map_user_stack :: "nat \<Rightarrow> 'a proc_st_scheme \<Rightarrow> int \<times> 'a proc_st_scheme" where
  "map_user_stack proc s =
     paging_map_memory_region (page_table (tasks s (p_task (procs s proc)))) DEFAULT_USER_STACK_END
       (stack_paddr (procs s proc)) DEFAULT_USER_STACK_START user_page_flags s"

definition process_map_binary :: "nat \<Rightarrow> 'a proc_st_scheme \<Rightarrow> int \<times> 'a proc_st_scheme" where
  "process_map_binary proc s =
     (let pt = page_table (tasks s (p_task (procs s proc)));
          data_end = paging_up_align_addr (DEFAULT_USER_PROG_ENTRY + p_size (procs s proc));
          (res, s) = paging_map_memory_region pt DEFAULT_USER_PROG_ENTRY (image (procs s proc)) data_end
                       user_page_flags s
      in if res \<noteq> STATUS_OK then (res, s) else map_user_stack proc s)"

text \<open>The loop over the program headers: the status and whether the function goes on to the stack.\<close>

function process_map_elf_loop ::
    "nat \<Rightarrow> addr \<Rightarrow> nat \<Rightarrow> nat \<Rightarrow> 'a proc_st_scheme \<Rightarrow> ('a proc_st_scheme, int) outcome" where
  "process_map_elf_loop proc phdrs i ph_count s =
     (if i < ph_count
      then let ph = phdrs + of_nat (32 * i);
               f = elf_files s (image (procs s proc));
               pt = page_table (tasks s (p_task (procs s proc)))
           in if p_type (mem s) ph \<noteq> PT_LOAD then process_map_elf_loop proc phdrs (Suc i) ph_count s
              else let pa_start = paging_down_align_addr (elf_phdr_phys_address (mem s) f ph)
                   in if p_memsz (mem s) ph = 0
                      then process_map_elf_loop proc phdrs (Suc i) ph_count
                             (println (lit ''[Warning] process_map_elf: empty segment'') s)
                      else if p_filesz (mem s) ph > p_memsz (mem s) ph
                      then panic ''process_map_elf: invalid segment, p_filesz > p_memsz'' s
                      else let (segment, s) =
                             (if p_filesz (mem s) ph \<noteq> p_memsz (mem s) ph
                              then let (q, t) = kzalloc (p_memsz (mem s) ph) s
                                   in if q = 0 then (None, t)
                                      else let t = t\<lparr>mem := memcpy (mem t) q (elf_phdr_phys_address (mem t) f ph)
                                                             (p_filesz (mem t) ph)\<rparr>
                                           in (Some q, snd (process_add_vmem_block proc q (q + p_memsz (mem t) ph) t))
                              else (Some pa_start, s))
                           in case segment of
                                None \<Rightarrow> Ret (- STATUS_NOT_ENOUGH_MEM) s
                              | Some pa_start \<Rightarrow>
                                  let va_start = paging_down_align_addr (p_vaddr (mem s) ph);
                                      va_end = paging_up_align_addr (p_vaddr (mem s) ph + p_memsz (mem s) ph);
                                      flags = PAGE_PRESENT OR PAGE_USER_ACCESS_ALLOW;
                                      flags = (if p_flags (mem s) ph AND PF_W \<noteq> 0 then flags OR PAGE_WRITE_ALLOW
                                               else flags)
                                  in if va_end \<le> va_start
                                     then process_map_elf_loop proc phdrs (Suc i) ph_count
                                            (println (lit ''[Warning] process_map_elf: empty segment'') s)
                                     else let (res, s) = paging_map_memory_region pt va_start pa_start va_end flags s
                                          in if res \<noteq> STATUS_OK then Ret res s
                                             else process_map_elf_loop proc phdrs (Suc i) ph_count s
      else Ret STATUS_OK s)"
  by pat_completeness auto
termination
  by (relation "measure (\<lambda>(proc, phdrs, i, n, s). n - i)") auto

declare process_map_elf_loop.simps [simp del]

definition process_map_elf :: "nat \<Rightarrow> 'a proc_st_scheme \<Rightarrow> ('a proc_st_scheme, int) outcome" where
  "process_map_elf proc s =
     (let header = elf_header (elf_files s (image (procs s proc)));
          phdrs = elf_pheader (mem s) header;
          ph_count = unat (e_phnum (mem s) header)
      in bindO (process_map_elf_loop proc phdrs 0 ph_count s)
           (\<lambda>res s. if res \<noteq> STATUS_OK then Ret res s
                    else let (res, s) = map_user_stack proc s in Ret res s))"

definition process_map_memory :: "nat \<Rightarrow> 'a proc_st_scheme \<Rightarrow> ('a proc_st_scheme, int) outcome" where
  "process_map_memory proc s =
     (if file_type (procs s proc) = PROC_FILE_TYPE_BINARY
      then (let (res, s) = process_map_binary proc s in Ret res s)
      else if file_type (procs s proc) = PROC_FILE_TYPE_ELF then process_map_elf proc s
      else panic ''process_map_memory: can't map invalid exec file type'' s)"

section \<open>Creation\<close>

text \<open>
  The status and the process, when \<^verbatim>\<open>*process_out\<close> is set. When \<^verbatim>\<open>task_new\<close> fails the status is 0 although
  no process is handed out.
\<close>

definition process_new :: "u8 list \<Rightarrow> 'a proc_st_scheme \<Rightarrow> ('a proc_st_scheme, int \<times> proc_ptr) outcome" where
  "process_new filename s =
     (let slot = get_free_slot s
      in if slot < 0 then Ret (- STATUS_OUT_OF_PROCS, None) s
         else let proc = nat slot; s = process_init proc s; (stack_ptr, s) = kzalloc DEFAULT_USER_STACK_SIZE s
              in if stack_ptr = 0 then Ret (- STATUS_NOT_ENOUGH_MEM, None) s
                 else let s = upd_proc proc (\<lambda>p. p\<lparr>stack_paddr := stack_ptr\<rparr>) s
                      in bindO (liftO (process_load_data filename proc s)) (\<lambda>res s.
                           if res < 0 then Ret (res, None) s
                           else let s = upd_proc proc (\<lambda>p. p\<lparr>pid := of_nat proc, program_file := take 117 filename\<rparr>) s;
                                    (task, s) = task_new proc s
                                in if task = 0 then Ret (0, None) s
                                   else bindO (process_map_memory proc (upd_proc proc (\<lambda>p. p\<lparr>p_task := task\<rparr>) s)) (\<lambda>res s.
                                     if res \<noteq> STATUS_OK then Ret (res, None) s
                                     else Ret (res, Some proc) (upd_proc proc (\<lambda>p. p\<lparr>pid := of_nat proc,
                                            p_status := PROC_CREATING,
                                            keyboard := \<lparr>kb_buf = (\<lambda>_. 0), kb_head = 0, kb_tail = 0\<rparr>\<rparr>) s))))"

section \<open>Arguments\<close>

text \<open>The pointers to the arguments after the first, each one terminator further.\<close>

function set_arg_ptrs :: "int \<Rightarrow> int \<Rightarrow> addr \<Rightarrow> addr \<Rightarrow> addr \<Rightarrow> memory \<Rightarrow> memory option" where
  "set_arg_ptrs i argc arg_ptrs curr_arg curr_arg_va m =
     (if i < argc
      then case strlen m curr_arg of None \<Rightarrow> None
           | Some n \<Rightarrow> let len = of_nat (n + 1)
                       in set_arg_ptrs (i + 1) argc arg_ptrs (curr_arg + len) (curr_arg_va + len)
                            (store32 m (arg_ptrs + word_of_int (4 * i)) (curr_arg_va + len))
      else Some m)"
  by pat_completeness auto
termination
  by (relation "measure (\<lambda>(i, argc, p, c, v, m). nat (argc - i))") auto

declare set_arg_ptrs.simps [simp del]

text \<open>Without arguments the code pushes an uninitialised pointer.\<close>

definition uninitialised_ptr :: addr where "uninitialised_ptr = undefined"

definition push_argc_argv :: "nat \<Rightarrow> addr \<Rightarrow> u32 \<Rightarrow> addr \<Rightarrow> 'a proc_st_scheme \<Rightarrow> ('a proc_st_scheme, int) outcome" where
  "push_argc_argv proc stack argc arg_ptrs_va s =
     (let stack = stack - 4; s = s\<lparr>mem := store32 (mem s) stack arg_ptrs_va\<rparr>;
          stack = stack - 4; s = s\<lparr>mem := store32 (mem s) stack argc\<rparr>;
          s = upd_task (p_task (procs s proc)) (\<lambda>t. t\<lparr>regs := (regs t)\<lparr>r_esp := r_esp (regs t) - 8\<rparr>\<rparr>) s
      in Ret STATUS_OK (upd_proc proc (\<lambda>p. p\<lparr>p_status := PROC_CAN_START\<rparr>) s))"

text \<open>\<open>args\<close> are the bytes at the address the C function is given, at least \<open>len\<close> of them.\<close>

definition process_add_arguments ::
    "nat \<Rightarrow> u32 \<Rightarrow> u32 \<Rightarrow> u8 list \<Rightarrow> 'a proc_st_scheme \<Rightarrow> ('a proc_st_scheme, int) outcome" where
  "process_add_arguments proc argc len args s =
     (if p_status (procs s proc) \<noteq> PROC_CREATING
      then panic ''process_add_arguments: process is not in creating state'' s
      else if 4 * argc + len > DEFAULT_USER_STACK_SIZE then Ret (- STATUS_NOT_ENOUGH_MEM) s
      else let stack = stack_paddr (procs s proc) + DEFAULT_USER_STACK_SIZE; task = p_task (procs s proc)
           in if argc = 0 then push_argc_argv proc stack argc uninitialised_ptr s
              else let stack = stack - len;
                       s = upd_task task (\<lambda>t. t\<lparr>regs := (regs t)\<lparr>r_esp := r_esp (regs t) - len\<rparr>\<rparr>) s;
                       args_buf = stack; args_buf_va = r_esp (regs (tasks s task));
                       s = s\<lparr>mem := put_bytes (mem s) args_buf (take (unat len) args)\<rparr>;
                       stack = stack - 4 * argc;
                       s = upd_task task (\<lambda>t. t\<lparr>regs := (regs t)\<lparr>r_esp := r_esp (regs t) - 4 * argc\<rparr>\<rparr>) s;
                       arg_ptrs_va = r_esp (regs (tasks s task));
                       s = s\<lparr>mem := store32 (mem s) stack args_buf_va\<rparr>
                   in case set_arg_ptrs 1 (sint argc) stack args_buf args_buf_va (mem s) of
                        None \<Rightarrow> Diverges
                      | Some m \<Rightarrow> push_argc_argv proc stack argc arg_ptrs_va (s\<lparr>mem := m\<rparr>))"

end
