(* ===== verification/Keyboard.thy ===== *)
theory Keyboard
  imports Task
begin

text \<open>
  The keyboard: \<^verbatim>\<open>src/src/dev/keyboard.c\<close> with the ring buffer of each process, and the PS/2 driver
  \<^verbatim>\<open>src/src/dev/ps2.c\<close>. The scan code the data port delivers is an argument of the handler. The buffer
  has no element counter: a zero byte at the head means that it is empty, and reading does not
  clear the cell. \<open>Keyboard_Props\<close> says for how long it behaves as a bounded queue.
\<close>

section \<open>The ring buffer\<close>

definition kb_push :: "u8 \<Rightarrow> keyboard_buffer \<Rightarrow> keyboard_buffer" where
  "kb_push c b = b\<lparr>kb_buf := (kb_buf b)(kb_tail b := c),
                   kb_tail := (kb_tail b + 1) mod PROCESS_KEYBOARD_BUFFER_SIZE\<rparr>"

definition kb_pop :: "keyboard_buffer \<Rightarrow> u8 \<times> keyboard_buffer" where
  "kb_pop b =
     (let c = kb_buf b (kb_head b)
      in if c = 0 then (0, b)
         else (c, b\<lparr>kb_head := (kb_head b + 1) mod PROCESS_KEYBOARD_BUFFER_SIZE\<rparr>))"

definition keyboard_push :: "u8 \<Rightarrow> proc_ptr \<Rightarrow> 'a proc_st_scheme \<Rightarrow> 'a proc_st_scheme" where
  "keyboard_push c proc s =
     (case proc of None \<Rightarrow> s
      | Some i \<Rightarrow> if c = 0 then s else upd_proc i (\<lambda>p. p\<lparr>keyboard := kb_push c (keyboard p)\<rparr>) s)"

definition keyboard_pop :: "addr \<Rightarrow> 'a proc_st_scheme \<Rightarrow> u8 \<times> 'a proc_st_scheme" where
  "keyboard_pop task s =
     (case t_proc (tasks s task) of None \<Rightarrow> (0, s)
      | Some i \<Rightarrow> let (c, b) = kb_pop (keyboard (procs s i))
                  in (c, upd_proc i (\<lambda>p. p\<lparr>keyboard := b\<rparr>) s))"

section \<open>The PS/2 keyboard\<close>

record kbd_st = proc_st +
  caps_lock_state :: int

definition KEYBOARD_STATE_CAPS_ON :: int where [simp]: "KEYBOARD_STATE_CAPS_ON = 1"
definition KEYBOARD_STATE_CAPS_OFF :: int where [simp]: "KEYBOARD_STATE_CAPS_OFF = 0"
definition PS2_KEY_RELEASED :: u8 where [simp]: "PS2_KEY_RELEASED = 0x80"
definition PS2_KEYBOARD_CAPSLOCK :: u8 where [simp]: "PS2_KEYBOARD_CAPSLOCK = 0x3A"

definition keyboard_set_capslock :: "int \<Rightarrow> 'a kbd_st_scheme \<Rightarrow> 'a kbd_st_scheme" where
  "keyboard_set_capslock state s = s\<lparr>caps_lock_state := state\<rparr>"

definition keyboard_toggle_capslock :: "'a kbd_st_scheme \<Rightarrow> 'a kbd_st_scheme" where
  "keyboard_toggle_capslock s =
     s\<lparr>caps_lock_state := (if caps_lock_state s = KEYBOARD_STATE_CAPS_ON
                          then KEYBOARD_STATE_CAPS_OFF else KEYBOARD_STATE_CAPS_ON)\<rparr>"

definition keyboard_get_capslock :: "'a kbd_st_scheme \<Rightarrow> int" where
  "keyboard_get_capslock s = caps_lock_state s"

definition keyboard_scan_set_one :: "u8 list" where
  "keyboard_scan_set_one =
     [0x00, 0x1B, 49, 50, 51, 52, 53, 54, 55, 56, 57, 48,
      45, 61, 0x08, 9, 81, 87, 69, 82, 84, 89, 85, 73,
      79, 80, 91, 93, 0x0d, 0x00, 65, 83, 68, 70, 71, 72,
      74, 75, 76, 59, 39, 96, 0x00, 92, 90, 88, 67, 86,
      66, 78, 77, 44, 46, 47, 0x00, 42, 0x00, 0x20, 0x00, 0x00,
      0x00, 0x00, 0x00, 0x00, 0x00, 0x00, 0x00, 0x00, 0x00, 55, 56, 57,
      45, 52, 53, 54, 43, 49, 50, 51, 48, 46]"

text \<open>
  The bound is the size of the table instead of its last index: scan code 82 reads the byte behind
  the table, here the argument \<open>behind\<close>.
\<close>

definition ps2_scancode_to_char :: "u8 \<Rightarrow> u8 \<Rightarrow> 'a kbd_st_scheme \<Rightarrow> u8" where
  "ps2_scancode_to_char behind scancode s =
     (if unat scancode > length keyboard_scan_set_one then 0
      else let c = (if unat scancode < length keyboard_scan_set_one
                    then keyboard_scan_set_one ! unat scancode else behind)
           in if keyboard_get_capslock s = KEYBOARD_STATE_CAPS_OFF \<and> sint c \<ge> 65 \<and> sint c \<le> 90
              then c + 32 else c)"

text \<open>The handler; acknowledging the interrupt controller has no other effect.\<close>

definition keyboard_intr_handler :: "u8 \<Rightarrow> u8 \<Rightarrow> 'a kbd_st_scheme \<Rightarrow> 'a kbd_st_scheme" where
  "keyboard_intr_handler behind scancode s =
     (if scancode AND PS2_KEY_RELEASED \<noteq> 0 then s
      else let s = (if scancode = PS2_KEYBOARD_CAPSLOCK then keyboard_toggle_capslock s else s);
               c = ps2_scancode_to_char behind scancode s
           in if c \<noteq> 0 then keyboard_push c (current_proc s) s else s)"

end
