(* ===== verification/Syscall.thy ===== *)
theory Syscall
  imports Process Keyboard
begin

text \<open>
  The system calls of \<^verbatim>\<open>src/src/syscall\<close>. A handler takes the interrupt frame and returns the value for
  \<^verbatim>\<open>eax\<close> and the frame, which it may change. Arguments are fetched from the user stack of the current
  task.
\<close>

section \<open>Helpers\<close>

text \<open>
  Every task has a process (\<^verbatim>\<open>task_init\<close> sets it); a null process pointer is reported when a handler
  fetches it.
\<close>

definition stack_item :: "int \<Rightarrow> 'a proc_st_scheme \<Rightarrow> ('a proc_st_scheme, u32) outcome" where
  "stack_item index s = task_get_stack_item (curr_task s) index s"

definition current_task_proc :: "'a proc_st_scheme \<Rightarrow> proc_ptr" where
  "current_task_proc s = t_proc (tasks s (curr_task s))"

section \<open>\<^verbatim>\<open>syscall.c\<close> and \<^verbatim>\<open>user_io.c\<close>\<close>

definition syscall_hello_sum ::
    "interrupt_frame \<Rightarrow> 'a kbd_st_scheme \<Rightarrow> ('a kbd_st_scheme, u32 \<times> interrupt_frame) outcome" where
  "syscall_hello_sum frame s =
     (let s = print (lit ''Hello world syscall! Sum: '') s; frame = frame\<lparr>f_ecx := 1989\<rparr>
      in bindO (stack_item 1 s) (\<lambda>v2 s. bindO (stack_item 0 s) (\<lambda>v1 s.
           Ret (v1 + v2, frame) (println [] (print_int (sint (v1 + v2)) s)))))"

definition syscall_print ::
    "interrupt_frame \<Rightarrow> 'a kbd_st_scheme \<Rightarrow> ('a kbd_st_scheme, u32 \<times> interrupt_frame) outcome" where
  "syscall_print frame s =
     bindO (stack_item 1 s) (\<lambda>str s. bindO (stack_item 0 s) (\<lambda>len s.
       let (buf, s) = kzalloc (len + 1) s
       in if buf = 0 then Ret (0, frame) s
          else bindO (copy_data_from_user str len s) (\<lambda>bs s.
            let s = s\<lparr>mem := put_bytes (mem s) buf bs\<rparr>;
                s = printn buf (sint len) s
            in Ret (0, frame) (snd (kfree buf s)))))"

definition syscall_get_char ::
    "interrupt_frame \<Rightarrow> 'a kbd_st_scheme \<Rightarrow> ('a kbd_st_scheme, u32 \<times> interrupt_frame) outcome" where
  "syscall_get_char frame s = (let (c, s) = keyboard_pop (curr_task s) s in Ret (scast c, frame) s)"

definition syscall_put_char ::
    "interrupt_frame \<Rightarrow> 'a kbd_st_scheme \<Rightarrow> ('a kbd_st_scheme, u32 \<times> interrupt_frame) outcome" where
  "syscall_put_char frame s =
     bindO (stack_item 0 s) (\<lambda>c s. Ret (0, frame) (print_char (ucast c) s))"

definition syscall_clear_screen ::
    "interrupt_frame \<Rightarrow> 'a kbd_st_scheme \<Rightarrow> ('a kbd_st_scheme, u32 \<times> interrupt_frame) outcome" where
  "syscall_clear_screen frame s = Ret (0, frame) (clear_screen s)"

section \<open>\<^verbatim>\<open>umem.c\<close>\<close>

definition O_WRITE :: u32 where [simp]: "O_WRITE = 2"

text \<open>The part of \<^verbatim>\<open>syscall_mmap\<close> after the arguments are fetched.\<close>

definition mmap_checked ::
    "addr \<Rightarrow> addr \<Rightarrow> u32 \<Rightarrow> nat \<Rightarrow> 'a proc_st_scheme \<Rightarrow> int \<times> 'a proc_st_scheme" where
  "mmap_checked va_start va_end user_flags proc s =
     (let page_flags = PAGE_PRESENT OR PAGE_USER_ACCESS_ALLOW;
          page_flags = (if user_flags AND O_WRITE \<noteq> 0 then page_flags OR PAGE_WRITE_ALLOW else page_flags);
          va_start_aligned = paging_down_align_addr va_start;
          va_end_aligned = paging_up_align_addr va_end
      in if va_start \<noteq> va_start_aligned \<or> va_end \<noteq> va_end_aligned then (- STATUS_INVALID_ARG, s)
         else if verify_user_pointer va_start_aligned \<noteq> STATUS_OK \<or> verify_user_pointer va_end_aligned \<noteq> STATUS_OK \<or>
                 va_start_aligned \<ge> va_end_aligned
         then (- STATUS_INVALID_USER_MEM_ACCESS, s)
         else let (pa_start, s) = kzalloc (va_end_aligned - va_start_aligned) s
              in if pa_start = 0 then (- STATUS_NOT_ENOUGH_MEM, s)
                 else let pt = page_table (tasks s (curr_task s));
                          (block_idx, s) = process_add_vmem_block proc va_start_aligned va_end_aligned s
                      in if block_idx < 0 then (block_idx, snd (kfree pa_start s))
                         else let (res, s) = paging_map_memory_region pt va_start_aligned pa_start va_end_aligned page_flags s
                              in if res \<noteq> STATUS_OK
                                 then (res, snd (kfree pa_start (upd_proc proc
                                        (\<lambda>p. p\<lparr>vmem_blocks_start := (vmem_blocks_start p)(nat block_idx := 0),
                                               vmem_blocks_end := (vmem_blocks_end p)(nat block_idx := 0)\<rparr>) s)))
                                 else (STATUS_OK, s))"

definition syscall_mmap ::
    "interrupt_frame \<Rightarrow> 'a kbd_st_scheme \<Rightarrow> ('a kbd_st_scheme, u32 \<times> interrupt_frame) outcome" where
  "syscall_mmap frame s =
     bindO (stack_item 2 s) (\<lambda>va_start s. bindO (stack_item 1 s) (\<lambda>va_end s.
       bindO (stack_item 0 s) (\<lambda>user_flags s.
         deref (current_task_proc s)
           (\<lambda>proc s. let (res, s) = mmap_checked va_start va_end user_flags proc s
                     in Ret (word_of_int res, frame) s) s)))"

definition syscall_munmap ::
    "interrupt_frame \<Rightarrow> 'a kbd_st_scheme \<Rightarrow> ('a kbd_st_scheme, u32 \<times> interrupt_frame) outcome" where
  "syscall_munmap frame s =
     bindO (stack_item 0 s) (\<lambda>a s. deref (current_task_proc s)
       (\<lambda>proc s. let (res, s) = process_free_vmem_block proc a s in Ret (word_of_int res, frame) s) s)"

section \<open>\<^verbatim>\<open>proc_mgmt.c\<close>\<close>

text \<open>
  The path argument is dereferenced where it points to, without a check; its characters are read
  through the page table up to the terminator, at most the 118 that are ever looked at.
\<close>

fun read_user_string :: "addr \<Rightarrow> nat \<Rightarrow> 'a paging_st_scheme \<Rightarrow> addr + u8 list" where
  "read_user_string p 0 s = Inr []"
| "read_user_string p (Suc n) s =
     (case translate (mem s) (cr3_reg s) p of
        None \<Rightarrow> Inl p
      | Some pa \<Rightarrow> if mem s pa = 0 then Inr []
                  else (case read_user_string (p + 1) n s of Inl a \<Rightarrow> Inl a | Inr cs \<Rightarrow> Inr (mem s pa # cs)))"

definition create_process ::
    "addr \<Rightarrow> u32 \<Rightarrow> u32 \<Rightarrow> addr \<Rightarrow> 'a kbd_st_scheme \<Rightarrow> ('a kbd_st_scheme, u32) outcome" where
  "create_process file_path argc len args s =
     (case read_user_string file_path 118 s of
        Inl a \<Rightarrow> PageFault a s
      | Inr filename \<Rightarrow>
          bindO (process_new filename s) (\<lambda>(res, proc) s.
            if res \<noteq> STATUS_OK then Ret (word_of_int res) s
            else deref proc (\<lambda>i s. deref (current_task_proc s) (\<lambda>me s.
                   let s = process_set_parent_pid i (pid (procs s me)) s;
                       (args_kspace, s) = kzalloc len s
                   in bindO (copy_data_from_user args len s) (\<lambda>bs s.
                        let s = s\<lparr>mem := put_bytes (mem s) args_kspace bs\<rparr>
                        in bindO (process_add_arguments i argc len bs s) (\<lambda>res s.
                             let s = snd (kfree args_kspace s)
                             in if res \<noteq> STATUS_OK then Ret (word_of_int res) s
                                else Ret (ucast (pid (procs s i))) s))) s) s))"

definition syscall_create_process ::
    "interrupt_frame \<Rightarrow> 'a kbd_st_scheme \<Rightarrow> ('a kbd_st_scheme, u32 \<times> interrupt_frame) outcome" where
  "syscall_create_process frame s =
     bindO (stack_item 0 s) (\<lambda>args s. bindO (stack_item 1 s) (\<lambda>len s. bindO (stack_item 2 s) (\<lambda>argc s.
       bindO (stack_item 3 s) (\<lambda>file_path s.
         bindO (create_process file_path argc len args s) (\<lambda>res s. Ret (res, frame) s)))))"

definition syscall_exit ::
    "interrupt_frame \<Rightarrow> 'a kbd_st_scheme \<Rightarrow> ('a kbd_st_scheme, u32 \<times> interrupt_frame) outcome" where
  "syscall_exit frame s =
     bindO (stack_item 0 s) (\<lambda>status s.
       let (_, s) = process_exit (current_task_proc s) (sint status) s
       in bindO (task_switch_and_run_any s) (\<lambda>_ s. Ret (0, frame) s))"

definition syscall_wait_pid ::
    "interrupt_frame \<Rightarrow> 'a kbd_st_scheme \<Rightarrow> ('a kbd_st_scheme, u32 \<times> interrupt_frame) outcome" where
  "syscall_wait_pid frame s =
     bindO (stack_item 0 s) (\<lambda>p s. deref (current_task_proc s)
       (\<lambda>proc s. bindO (process_waitpid proc (sint p) s) (\<lambda>res s. Ret (word_of_int res, frame) s)) s)"

end
