(* ===== verification/Idt.thy ===== *)
theory Idt
  imports Syscall
begin

text \<open>
  Interrupts: \<^verbatim>\<open>src/src/idt/idt.c\<close> with the entry stubs of \<^verbatim>\<open>idt.asm\<close>, the registration of the system calls
  (\<^verbatim>\<open>syscall.c\<close>) and of the keyboard handler (\<^verbatim>\<open>ps2.c\<close>). Function pointers are values of datatypes, one
  constructor per function of the kernel. The addresses of the assembly stubs and of the table
  come from the linker and are arguments.
\<close>

section \<open>State\<close>

definition NUM_INTERRUPTS :: nat where [simp]: "NUM_INTERRUPTS = 512"
definition NUM_SYS_CALLS :: nat where [simp]: "NUM_SYS_CALLS = 64"
definition KERNEL_CODE_SEGMENT :: u16 where [simp]: "KERNEL_CODE_SEGMENT = 0x08"
definition ISR_KEYBOARD_INTERRUPT :: int where [simp]: "ISR_KEYBOARD_INTERRUPT = 0x21"

datatype call_back = NullCb | Cb_handle_exception | Cb_handle_clock | Cb_keyboard

datatype sys_call = NullCall | Call_hello_sum | Call_print | Call_get_char | Call_put_char | Call_mmap
  | Call_munmap | Call_clear_screen | Call_create_process | Call_exit | Call_wait_pid

record idt_entry =
  base_lo :: u16
  sel :: u16
  always0 :: u8
  idt_flags :: u8
  base_hi :: u16

record intr_st = kbd_st +
  idt :: "nat \<Rightarrow> idt_entry"
  idtp_limit :: u16
  idtp_base :: u32
  interrupt_call_backs :: "nat \<Rightarrow> call_back"
  sys_calls :: "nat \<Rightarrow> sys_call"
  cli_count :: int
  interrupts_enabled :: bool

section \<open>Nesting of interrupt locks\<close>

definition pop_cli :: "'a intr_st_scheme \<Rightarrow> 'a intr_st_scheme" where
  "pop_cli s =
     (if cli_count s \<le> 0 then println (lit ''error pop cli with count already <= 0'') s
      else s\<lparr>cli_count := cli_count s - 1, interrupts_enabled := False\<rparr>)"

definition push_cli :: "'a intr_st_scheme \<Rightarrow> 'a intr_st_scheme" where
  "push_cli s =
     (if cli_count s < 0 then println (lit ''error push cli with count < 0'') s
      else let s = s\<lparr>cli_count := cli_count s + 1\<rparr>
           in if cli_count s = 1 then s\<lparr>interrupts_enabled := True\<rparr> else s)"

section \<open>Handlers\<close>

definition idt_handle_exception :: "interrupt_frame \<Rightarrow> 'a intr_st_scheme \<Rightarrow> ('a intr_st_scheme, unit) outcome" where
  "idt_handle_exception frame s =
     bindO (task_save_current_state frame s) (\<lambda>_ s.
       let (_, s) = process_exit (current_task_proc s) (- STATUS_PROC_EXCEPTION) s
       in task_switch_and_run_any s)"

definition idt_handle_clock :: "interrupt_frame \<Rightarrow> 'a intr_st_scheme \<Rightarrow> ('a intr_st_scheme, unit) outcome" where
  "idt_handle_clock frame s =
     bindO (task_save_current_state frame s) (\<lambda>_ s. task_switch_to_next_and_run s)"

definition idt_register_interrupt_call_back ::
    "int \<Rightarrow> call_back \<Rightarrow> 'a intr_st_scheme \<Rightarrow> int \<times> 'a intr_st_scheme" where
  "idt_register_interrupt_call_back interrupt_no cb s =
     (if interrupt_no < 0 \<or> interrupt_no \<ge> int NUM_INTERRUPTS \<or> cb = NullCb then (- STATUS_INVALID_ARG, s)
      else (0, s\<lparr>interrupt_call_backs := (interrupt_call_backs s)(nat interrupt_no := cb)\<rparr>))"

text \<open>The keyboard handler reads the scan code from the port: it is the argument \<open>port\<close>, together with the
  byte behind the scan code table.\<close>

definition run_call_back ::
    "u8 \<times> u8 \<Rightarrow> call_back \<Rightarrow> interrupt_frame \<Rightarrow> 'a intr_st_scheme \<Rightarrow> ('a intr_st_scheme, unit) outcome" where
  "run_call_back port cb frame s =
     (case cb of NullCb \<Rightarrow> Ret () s
      | Cb_handle_exception \<Rightarrow> idt_handle_exception frame s
      | Cb_handle_clock \<Rightarrow> idt_handle_clock frame s
      | Cb_keyboard \<Rightarrow> Ret () (keyboard_intr_handler (snd port) (fst port) s))"

definition interrupt_handler ::
    "u8 \<times> u8 \<Rightarrow> nat \<Rightarrow> interrupt_frame \<Rightarrow> 'a intr_st_scheme \<Rightarrow> ('a intr_st_scheme, unit) outcome" where
  "interrupt_handler port interrupt_no frame s =
     (let s = (if interrupt_no = 0xE
               then println (lit ''[OS Warning] page fault.. maybe a bug in code'') s else s)
      in if interrupt_call_backs s interrupt_no \<noteq> NullCb
         then run_call_back port (interrupt_call_backs s interrupt_no) frame s
         else Ret () s)"

section \<open>System calls\<close>

definition run_sys_call ::
    "sys_call \<Rightarrow> interrupt_frame \<Rightarrow> 'a intr_st_scheme \<Rightarrow> ('a intr_st_scheme, u32 \<times> interrupt_frame) outcome" where
  "run_sys_call c frame s =
     (case c of
        NullCall \<Rightarrow> NullDeref s
      | Call_hello_sum \<Rightarrow> syscall_hello_sum frame s
      | Call_print \<Rightarrow> syscall_print frame s
      | Call_get_char \<Rightarrow> syscall_get_char frame s
      | Call_put_char \<Rightarrow> syscall_put_char frame s
      | Call_mmap \<Rightarrow> syscall_mmap frame s
      | Call_munmap \<Rightarrow> syscall_munmap frame s
      | Call_clear_screen \<Rightarrow> syscall_clear_screen frame s
      | Call_create_process \<Rightarrow> syscall_create_process frame s
      | Call_exit \<Rightarrow> syscall_exit frame s
      | Call_wait_pid \<Rightarrow> syscall_wait_pid frame s)"

definition syscall_handle_command ::
    "int \<Rightarrow> interrupt_frame \<Rightarrow> 'a intr_st_scheme \<Rightarrow> ('a intr_st_scheme, u32 \<times> interrupt_frame) outcome" where
  "syscall_handle_command command frame s =
     (if command < 0 \<or> command \<ge> int NUM_SYS_CALLS then Ret (word_of_int (- SYSCALL_NOT_IMPLEMENTED), frame) s
      else let sys_call = sys_calls s (nat command)
           in if sys_call = NullCall then Ret (word_of_int (- SYSCALL_NOT_IMPLEMENTED), frame) s
              else run_sys_call sys_call frame s)"

definition syscall_register_command :: "int \<Rightarrow> sys_call \<Rightarrow> 'a intr_st_scheme \<Rightarrow> ('a intr_st_scheme, unit) outcome" where
  "syscall_register_command command_num handler s =
     (if command_num < 0 \<or> command_num \<ge> int NUM_SYS_CALLS then panic ''couldn't register syscall'' s
      else if sys_calls s (nat command_num) \<noteq> NullCall then panic ''syscall command number already in use'' s
      else Ret () (s\<lparr>sys_calls := (sys_calls s)(nat command_num := handler)\<rparr>))"

definition intr_80h_handler ::
    "int \<Rightarrow> interrupt_frame \<Rightarrow> 'a intr_st_scheme \<Rightarrow> ('a intr_st_scheme, u32 \<times> interrupt_frame) outcome" where
  "intr_80h_handler command frame s =
     bindO (task_save_current_state frame s) (\<lambda>_ s. syscall_handle_command command frame s)"

text \<open>
  The stubs: the frame is what the processor and \<^verbatim>\<open>pushad\<close> put on the kernel stack; \<^verbatim>\<open>popad\<close> and \<^verbatim>\<open>iret\<close> load it
  back, and \<^verbatim>\<open>int80h\<close> replaces \<^verbatim>\<open>eax\<close> by the result.
\<close>

definition frame_registers :: "interrupt_frame \<Rightarrow> registers" where
  "frame_registers f = \<lparr>r_edi = f_edi f, r_esi = f_esi f, r_ebp = f_ebp f, r_ebx = f_ebx f, r_edx = f_edx f,
     r_ecx = f_ecx f, r_eax = f_eax f, r_eip = f_eip f, r_cs = f_cs f, r_eflags = f_eflags f,
     r_esp = f_esp f, r_ss = f_ss f\<rparr>"

definition int80h :: "interrupt_frame \<Rightarrow> 'a intr_st_scheme \<Rightarrow> ('a intr_st_scheme, unit) outcome" where
  "int80h frame s =
     bindO (intr_80h_handler (sint (f_eax frame)) frame s) (\<lambda>(res, frame) s.
       UserMode (s\<lparr>cpu := (frame_registers frame)\<lparr>r_eax := res\<rparr>\<rparr>))"

definition interrupt_stub ::
    "u8 \<times> u8 \<Rightarrow> nat \<Rightarrow> interrupt_frame \<Rightarrow> 'a intr_st_scheme \<Rightarrow> ('a intr_st_scheme, unit) outcome" where
  "interrupt_stub port n frame s =
     bindO (interrupt_handler port n frame s) (\<lambda>_ s. UserMode (s\<lparr>cpu := frame_registers frame\<rparr>))"

section \<open>Initialisation\<close>

definition idt_set :: "nat \<Rightarrow> u32 \<Rightarrow> 'a intr_st_scheme \<Rightarrow> 'a intr_st_scheme" where
  "idt_set intr_num a s =
     s\<lparr>idt := (idt s)(intr_num :=
        \<lparr>base_lo = ucast (a AND 0x0000FFFF), sel = KERNEL_CODE_SEGMENT, always0 = 0, idt_flags = 0xEE,
         base_hi = ucast (drop_bit 16 (a AND 0xFFFF0000))\<rparr>)\<rparr>"

definition zero_idt_entry :: idt_entry where
  "zero_idt_entry = \<lparr>base_lo = 0, sel = 0, always0 = 0, idt_flags = 0, base_hi = 0\<rparr>"

definition idt_init :: "(nat \<Rightarrow> u32) \<Rightarrow> u32 \<Rightarrow> u32 \<Rightarrow> 'a intr_st_scheme \<Rightarrow> 'a intr_st_scheme" where
  "idt_init wrappers int80h_addr idt_addr s =
     (let s = s\<lparr>idt := (\<lambda>i. if i < NUM_INTERRUPTS then zero_idt_entry else idt s i),
                sys_calls := (\<lambda>i. if i < NUM_SYS_CALLS then NullCall else sys_calls s i),
                interrupt_call_backs := (\<lambda>i. if i < NUM_INTERRUPTS then NullCb else interrupt_call_backs s i),
                idtp_limit := 8 * 512 - 1, idtp_base := idt_addr, cli_count := 0\<rparr>;
          s = fold (\<lambda>i. idt_set i (wrappers i)) [0..<NUM_INTERRUPTS] s;
          s = idt_set 0x80 int80h_addr s;
          s = fold (\<lambda>i s. snd (idt_register_interrupt_call_back (int i) Cb_handle_exception s)) [0..<0x20] s
      in snd (idt_register_interrupt_call_back 0x20 Cb_handle_clock s))"

definition ps2_init :: "'a intr_st_scheme \<Rightarrow> int \<times> 'a intr_st_scheme" where
  "ps2_init s =
     (let (_, s) = idt_register_interrupt_call_back ISR_KEYBOARD_INTERRUPT Cb_keyboard s
      in (0, keyboard_set_capslock KEYBOARD_STATE_CAPS_OFF s))"

definition keyboard_init :: "'a intr_st_scheme \<Rightarrow> 'a intr_st_scheme" where
  "keyboard_init s = snd (ps2_init s)"

fun register_all :: "(int \<times> sys_call) list \<Rightarrow> 'a intr_st_scheme \<Rightarrow> ('a intr_st_scheme, unit) outcome" where
  "register_all [] s = Ret () s"
| "register_all ((n, c) # cs) s = bindO (syscall_register_command n c s) (\<lambda>_ s. register_all cs s)"

definition register_syscalls :: "'a intr_st_scheme \<Rightarrow> ('a intr_st_scheme, unit) outcome" where
  "register_syscalls s =
     register_all [(0, Call_hello_sum), (1, Call_print), (2, Call_get_char), (3, Call_put_char), (4, Call_mmap),
       (5, Call_munmap), (6, Call_clear_screen), (7, Call_create_process), (8, Call_exit), (9, Call_wait_pid)] s"

end
