(* ===== verification/Gdt.thy ===== *)
theory Gdt
  imports Console
begin

text \<open>
  Segment descriptors: \<^verbatim>\<open>src/src/gdt/gdt.c\<close>. An encoded entry is its eight bytes. The decoding functions
  state how the processor reads a descriptor.
\<close>

section \<open>Encoding\<close>

record gdt_structured =
  g_base :: u32
  g_limit :: u32
  g_type :: u8

text \<open>Every byte of the target is assigned, so its old contents do not matter.\<close>

definition encodeGdtEntry :: "gdt_structured \<Rightarrow> 'a console_st_scheme \<Rightarrow> ('a console_st_scheme, u8 list) outcome" where
  "encodeGdtEntry source s =
     (if g_limit source > 65536 \<and> g_limit source AND 0xFFF \<noteq> 0xFFF
      then panic (''encodeGdtEntry: Invalid argument'' @ [CHR 0x0A]) s
      else let target6 = 0x40 :: u8;
               limit = g_limit source;
               (limit, target6) = (if limit > 65536 then (drop_bit 12 limit, 0xC0) else (limit, target6));
               target0 = ucast (limit AND 0xFF);
               target1 = ucast (drop_bit 8 limit AND 0xFF);
               target6 = target6 OR ucast (drop_bit 16 limit AND 0x0F);
               target2 = ucast (g_base source AND 0xFF);
               target3 = ucast (drop_bit 8 (g_base source) AND 0xFF);
               target4 = ucast (drop_bit 16 (g_base source) AND 0xFF);
               target7 = ucast (drop_bit 24 (g_base source) AND 0xFF);
               target5 = g_type source
           in Ret [target0, target1, target2, target3, target4, target5, target6, target7] s)"

fun gdt_structured_to_gdt ::
    "gdt_structured list \<Rightarrow> 'a console_st_scheme \<Rightarrow> ('a console_st_scheme, u8 list list) outcome" where
  "gdt_structured_to_gdt [] s = Ret [] s"
| "gdt_structured_to_gdt (g # gs) s =
     bindO (encodeGdtEntry g s) (\<lambda>e s. bindO (gdt_structured_to_gdt gs s) (\<lambda>es s. Ret (e # es) s))"

section \<open>Decoding\<close>

definition descriptor_base :: "u8 list \<Rightarrow> u32" where
  "descriptor_base b = ucast (b ! 2) OR push_bit 8 (ucast (b ! 3)) OR push_bit 16 (ucast (b ! 4))
                         OR push_bit 24 (ucast (b ! 7))"

definition descriptor_raw_limit :: "u8 list \<Rightarrow> u32" where
  "descriptor_raw_limit b = ucast (b ! 0) OR push_bit 8 (ucast (b ! 1)) OR push_bit 16 (ucast (b ! 6 AND 0x0F))"

text \<open>With the granularity bit the limit counts pages.\<close>

definition descriptor_limit :: "u8 list \<Rightarrow> u32" where
  "descriptor_limit b = (if bit (b ! 6) 7 then push_bit 12 (descriptor_raw_limit b) OR 0xFFF
                         else descriptor_raw_limit b)"

definition descriptor_type :: "u8 list \<Rightarrow> u8" where "descriptor_type b = b ! 5"

section \<open>Properties\<close>

lemma masks: "(0xFF :: u32) = mask 8" "(0x0F :: u32) = mask 4" "(0xFFF :: u32) = mask 12" "(0x0F :: u8) = mask 4"
  by (simp_all add: mask_eq_exp_minus_1)

lemma byte_bit: "bit (ucast (ucast (w AND 0xFF :: u32) :: u8) :: u32) n \<longleftrightarrow> n < 8 \<and> bit w n"
  unfolding masks by (auto simp: bit_simps)

lemma base_bytes:
  "ucast (ucast (w AND 0xFF :: u32) :: u8) OR push_bit 8 (ucast (ucast (drop_bit 8 w AND 0xFF) :: u8))
    OR push_bit 16 (ucast (ucast (drop_bit 16 w AND 0xFF) :: u8))
    OR push_bit 24 (ucast (ucast (drop_bit 24 w AND 0xFF) :: u8)) = w"
proof (rule bit_word_eqI)
  fix n assume "n < LENGTH(32)"
  then have "n < 32" by simp
  then consider "n < 8" | "8 \<le> n" "n < 16" | "16 \<le> n" "n < 24" | "24 \<le> n" "n < 32" by linarith
  then show "bit (ucast (ucast (w AND 0xFF :: u32) :: u8) OR push_bit 8 (ucast (ucast (drop_bit 8 w AND 0xFF) :: u8))
    OR push_bit 16 (ucast (ucast (drop_bit 16 w AND 0xFF) :: u8))
    OR push_bit 24 (ucast (ucast (drop_bit 24 w AND 0xFF) :: u8)) :: u32) n = bit w n"
    by cases (auto simp: bit_or_iff bit_push_bit_iff byte_bit bit_drop_bit_eq)
qed

lemma nibble_bit:
  assumes "t = 0x40 \<or> t = 0xC0"
  shows "bit (ucast ((t OR ucast (w AND 0x0F :: u32)) AND 0x0F :: u8) :: u32) n \<longleftrightarrow> n < 4 \<and> bit w n"
proof (cases "n < 4")
  case True
  then have "n \<in> {0, 1, 2, 3}" by auto
  then have "\<not> bit t n" using assms by auto
  then show ?thesis using True unfolding masks by (simp add: bit_simps)
next
  case False
  then show ?thesis unfolding masks by (auto simp: bit_unsigned_iff bit_and_iff bit_mask_iff)
qed

lemma limit_bytes:
  assumes "w < 0x100000" and "t = 0x40 \<or> t = 0xC0"
  shows "ucast (ucast (w AND 0xFF :: u32) :: u8) OR push_bit 8 (ucast (ucast (drop_bit 8 w AND 0xFF) :: u8))
    OR push_bit 16 (ucast ((t OR ucast (drop_bit 16 w AND 0x0F)) AND 0x0F :: u8)) = w"
proof (rule bit_word_eqI)
  fix n assume "n < LENGTH(32)"
  then have "n < 32" by simp
  then consider "n < 8" | "8 \<le> n" "n < 16" | "16 \<le> n" "n < 20" | "20 \<le> n" "n < 32" by linarith
  moreover have high: "\<not> bit w n" if "20 \<le> n" for n
  proof -
    have "unat w < 2 ^ 20" using assms(1) by (simp add: word_less_nat_alt)
    moreover have "(2 :: nat) ^ 20 \<le> 2 ^ n" using that by (rule power_increasing) simp
    ultimately have "unat w div 2 ^ n = 0" by simp
    then have "\<not> bit (unat w) n" by (simp add: bit_iff_odd)
    then show ?thesis using bit_imp_le_length [of w n] by (auto simp: bit_unsigned_iff)
  qed
  ultimately show "bit (ucast (ucast (w AND 0xFF :: u32) :: u8) OR push_bit 8 (ucast (ucast (drop_bit 8 w AND 0xFF) :: u8))
    OR push_bit 16 (ucast ((t OR ucast (drop_bit 16 w AND 0x0F)) AND 0x0F :: u8)) :: u32) n = bit w n"
    unfolding bit_or_iff bit_push_bit_iff byte_bit nibble_bit [OF assms(2)] bit_drop_bit_eq
    by cases auto
qed

lemma page_limit: "(w :: u32) AND 0xFFF = 0xFFF \<Longrightarrow> push_bit 12 (drop_bit 12 w) OR 0xFFF = w"
proof (rule bit_word_eqI)
  fix n assume w: "w AND 0xFFF = 0xFFF" and "n < LENGTH(32)"
  then have n: "n < 32" by simp
  have low: "bit w n" if "n < 12"
  proof -
    have "bit (w AND 0xFFF) n" unfolding w using that unfolding masks by (simp add: bit_mask_iff)
    then show ?thesis by (simp only: bit_and_iff)
  qed
  show "bit (push_bit 12 (drop_bit 12 w) OR 0xFFF) n = bit w n"
    unfolding masks using low n
    by (auto simp: bit_or_iff bit_push_bit_iff bit_drop_bit_eq bit_mask_iff)
qed

text \<open>The bytes of an entry with the limit in its units and the flags of byte 6.\<close>

definition descriptor_bytes :: "u32 \<Rightarrow> u32 \<Rightarrow> u8 \<Rightarrow> u8 \<Rightarrow> u8 list" where
  "descriptor_bytes base l flags ty =
     [ucast (l AND 0xFF), ucast (drop_bit 8 l AND 0xFF), ucast (base AND 0xFF), ucast (drop_bit 8 base AND 0xFF),
      ucast (drop_bit 16 base AND 0xFF), ty, flags OR ucast (drop_bit 16 l AND 0x0F), ucast (drop_bit 24 base AND 0xFF)]"

lemma descriptor_bytes_nth:
  "descriptor_bytes b l t ty ! 0 = ucast (l AND 0xFF)" "descriptor_bytes b l t ty ! 1 = ucast (drop_bit 8 l AND 0xFF)"
  "descriptor_bytes b l t ty ! 2 = ucast (b AND 0xFF)" "descriptor_bytes b l t ty ! 3 = ucast (drop_bit 8 b AND 0xFF)"
  "descriptor_bytes b l t ty ! 4 = ucast (drop_bit 16 b AND 0xFF)" "descriptor_bytes b l t ty ! 5 = ty"
  "descriptor_bytes b l t ty ! 6 = t OR ucast (drop_bit 16 l AND 0x0F)"
  "descriptor_bytes b l t ty ! 7 = ucast (drop_bit 24 b AND 0xFF)" "length (descriptor_bytes b l t ty) = 8"
  by (simp_all add: descriptor_bytes_def)

lemma decode_descriptor:
  assumes "l < 0x100000" and "t = 0x40 \<or> t = 0xC0"
  shows "descriptor_base (descriptor_bytes b l t ty) = b"
    and "descriptor_raw_limit (descriptor_bytes b l t ty) = l"
    and "bit (descriptor_bytes b l t ty ! 6) 7 \<longleftrightarrow> t = 0xC0"
proof -
  show "descriptor_base (descriptor_bytes b l t ty) = b"
    unfolding descriptor_base_def descriptor_bytes_nth by (rule base_bytes)
  show "descriptor_raw_limit (descriptor_bytes b l t ty) = l"
    unfolding descriptor_raw_limit_def descriptor_bytes_nth by (rule limit_bytes [OF assms])
  have "\<not> bit (ucast (drop_bit 16 l AND 0x0F) :: u8) 7" unfolding masks by (simp add: bit_simps)
  then show "bit (descriptor_bytes b l t ty ! 6) 7 \<longleftrightarrow> t = 0xC0"
    unfolding descriptor_bytes_nth bit_or_iff using assms(2) by auto
qed

text \<open>C40: \<^verbatim>\<open>encodeGdtEntry\<close> panics exactly on a limit above 64 KiB that is not a multiple of 4 KiB minus
  one; otherwise the eight bytes, read back as the processor reads them, give the base, the
  limit in bytes and the access byte of the source.\<close>

theorem gdt_roundtrip:
  "if g_limit g > 65536 \<and> g_limit g AND 0xFFF \<noteq> 0xFFF
   then \<exists>msg t. encodeGdtEntry g s = Panic msg t
   else \<exists>b. encodeGdtEntry g s = Ret b s \<and> length b = 8 \<and> descriptor_base b = g_base g \<and>
            descriptor_limit b = g_limit g \<and> descriptor_type b = g_type g"
proof (cases "g_limit g > 65536 \<and> g_limit g AND 0xFFF \<noteq> 0xFFF")
  case True
  then show ?thesis by (simp add: encodeGdtEntry_def panic_def)
next
  case False
  define l where "l = (if g_limit g > 65536 then drop_bit 12 (g_limit g) else g_limit g)"
  define t :: u8 where "t = (if g_limit g > 65536 then 0xC0 else 0x40)"
  have "drop_bit 12 (g_limit g) < 0x100000"
    using less_mult_imp_div_less [of "unat (g_limit g)" 1048576 4096]
    by (simp add: word_less_nat_alt unat_drop_bit_eq drop_bit_eq_div unat_div)
  moreover have "g_limit g < 0x100000" if "\<not> g_limit g > 65536"
    using that by (simp add: word_less_nat_alt not_less word_le_nat_alt)
  ultimately have l: "l < 0x100000" by (simp add: l_def)
  have t: "t = 0x40 \<or> t = 0xC0" by (simp add: t_def)
  note dec = decode_descriptor [OF l t, of "g_base g" "g_type g"]
  have "encodeGdtEntry g s = Ret (descriptor_bytes (g_base g) l t (g_type g)) s"
    using False by (auto simp: encodeGdtEntry_def descriptor_bytes_def l_def t_def Let_def)
  moreover have "descriptor_limit (descriptor_bytes (g_base g) l t (g_type g)) = g_limit g"
    unfolding descriptor_limit_def dec(2,3) using False page_limit [of "g_limit g"] by (auto simp: l_def t_def)
  moreover have "descriptor_type (descriptor_bytes (g_base g) l t (g_type g)) = g_type g"
    by (simp only: descriptor_type_def descriptor_bytes_nth)
  ultimately show ?thesis
    using False dec(1) descriptor_bytes_nth(9) by auto
qed

end
