(* ===== verification/Kernel.thy ===== *)
theory Kernel
  imports Idt Gdt
begin

text \<open>
  Start-up: \<^verbatim>\<open>src/src/kernel.c\<close>. The addresses of the task state segment, of the interrupt table and of the
  assembly stubs come from the linker and are the fields of the argument \<open>link\<close>.
\<close>

section \<open>State\<close>

record linkage =
  tss_addr :: u32
  idt_addr :: u32
  stub_addr :: "nat \<Rightarrow> u32"
  int80h_addr :: u32

text \<open>Of the task state segment only the kernel stack is ever set; the other fields stay zero.\<close>

record kernel_st = intr_st +
  tss_esp0 :: u32
  tss_ss0 :: u32
  task_register :: u16
  gdt_real :: "u8 list list"
  gdt_loaded_size :: u16

definition TOTAL_GDT_SEGS :: nat where [simp]: "TOTAL_GDT_SEGS = 6"
definition SIZEOF_tss :: u32 where [simp]: "SIZEOF_tss = 100"
definition KERNEL_DATA_SEGMENT :: u32 where [simp]: "KERNEL_DATA_SEGMENT = 0x10"

section \<open>Segments\<close>

definition gdt_table :: "u32 \<Rightarrow> gdt_structured list" where
  "gdt_table tss =
     [\<lparr>g_base = 0, g_limit = 0, g_type = 0\<rparr>,
      \<lparr>g_base = 0, g_limit = 0xFFFFFFFF, g_type = 0x9a\<rparr>,
      \<lparr>g_base = 0, g_limit = 0xFFFFFFFF, g_type = 0x92\<rparr>,
      \<lparr>g_base = 0, g_limit = 0xFFFFFFFF, g_type = 0xf8\<rparr>,
      \<lparr>g_base = 0, g_limit = 0xFFFFFFFF, g_type = 0xf2\<rparr>,
      \<lparr>g_base = tss, g_limit = SIZEOF_tss, g_type = 0xE9\<rparr>]"

definition tss_init :: "'a kernel_st_scheme \<Rightarrow> 'a kernel_st_scheme" where
  "tss_init s = s\<lparr>tss_esp0 := 0x600000, tss_ss0 := KERNEL_DATA_SEGMENT, task_register := 0x28\<rparr>"

definition gdt_init :: "linkage \<Rightarrow> 'a kernel_st_scheme \<Rightarrow> ('a kernel_st_scheme, unit) outcome" where
  "gdt_init link s =
     bindO (gdt_structured_to_gdt (gdt_table (tss_addr link)) s) (\<lambda>es s.
       Ret () (s\<lparr>gdt_real := es, gdt_loaded_size := of_nat (8 * TOTAL_GDT_SEGS)\<rparr>))"

section \<open>Start-up\<close>

definition startup_step :: "('s \<Rightarrow> 's option) \<Rightarrow> 's \<Rightarrow> ('s, unit) outcome" where
  "startup_step f s = (case f s of None \<Rightarrow> Diverges | Some s \<Rightarrow> Ret () s)"

definition shell_arguments :: "u8 list" where
  "shell_arguments = lit ''0:/shell'' @ [0] @ lit ''Amogos'' @ [0] @ lit ''Shell'' @ [0]"

text \<open>The components in the order they are started, up to the first process.\<close>

definition kernel_init :: "linkage \<Rightarrow> 'a kernel_st_scheme \<Rightarrow> ('a kernel_st_scheme, unit) outcome" where
  "kernel_init link s =
     bindO (gdt_init link (console_init s)) (\<lambda>_ s.
     bindO (kpaging_init (snd (kheap_init (tss_init s)))) (\<lambda>_ s.
     bindO (startup_step fs_init s) (\<lambda>_ s.
     bindO (startup_step disk_init s) (\<lambda>_ s.
       register_syscalls (keyboard_init (procs_init
         (idt_init (stub_addr link) (int80h_addr link) (idt_addr link) s)))))))"

definition kernel_main :: "linkage \<Rightarrow> 'a kernel_st_scheme \<Rightarrow> ('a kernel_st_scheme, unit) outcome" where
  "kernel_main link s =
     bindO (kernel_init link s) (\<lambda>_ s.
     bindO (process_new (lit ''0:/shell'') (println (lit ''Loading first proc..'') s)) (\<lambda>(res, proc) s.
       if res \<noteq> STATUS_OK
       then panic ([CHR 0x0A] @ ''Failed to load shell'') (print_int res (print (lit ''Err code: '') s))
       else deref proc (\<lambda>i s.
              bindO (process_add_arguments i 3 22 shell_arguments s) (\<lambda>_ s.
              bindO (task_run_init_task (println (lit ''Loading success! Starting first proc..'') s)) (\<lambda>_ s.
                Diverges))) s))"

end
