(* ===== verification/Demo.thy ===== *)
theory Demo
  imports Kernel Paging_Tables
begin

text \<open>
  A concrete state of the whole machine on which the witnesses of the later theories evaluate: an
  empty heap of 2000 blocks, a disk of zeros, no task and no process.
\<close>

definition fresh_kernel :: kernel_st where
  "fresh_kernel = kheap_st.extend big_heap
     \<lparr>kpage_table = no_table, current_pt = None, cr3_reg = 0, paging_on = False, tlb = (\<lambda>_. None),
      disk_id = 0, disk_type = 0, disk_sector_size = 512, disk_fs = NullFs, disk_fs_private = 0,
      ata = \<lparr>reg_count = 0, reg_lba_lo = 0, reg_lba_mid = 0, reg_lba_hi = 0, reg_head = 0, reg_command = 0\<rparr>,
      ata_data = (\<lambda>_ _. 0), streams = (\<lambda>_. \<lparr>stream_disk = NullDisk, byte_offset = 0\<rparr>),
      filesystems = (\<lambda>_. NullFs), file_descriptors = (\<lambda>_. 0), fd_heap = (\<lambda>_. null_fd),
      elf_files = (\<lambda>_. null_elf),
      tasks = (\<lambda>_. zero_task), curr_task = 0, tasks_ll_head = 0, tasks_ll_tail = 0,
      procs = (\<lambda>_. zero_process), current_proc = None, cpu = zero_registers,
      caps_lock_state = 0,
      idt = (\<lambda>_. zero_idt_entry), idtp_limit = 0, idtp_base = 0, interrupt_call_backs = (\<lambda>_. NullCb),
      sys_calls = (\<lambda>_. NullCall), cli_count = 0, interrupts_enabled = False,
      tss_esp0 = 0, tss_ss0 = 0, task_register = 0, gdt_real = [], gdt_loaded_size = 0\<rparr>"

lemma fresh_kernel_heap [simp]:
  "mem fresh_kernel = mem big_heap" "kheap_ok fresh_kernel" "kheap_num_free_blocks fresh_kernel = 2000"
  "live fresh_kernel = {}"
proof -
  show "mem fresh_kernel = mem big_heap" by (simp add: fresh_kernel_def kheap_st.extend_def)
  show "kheap_ok fresh_kernel"
    using kheap_ok_big by (simp add: fresh_kernel_def kheap_st.extend_def kheap_ok_def heap_geometry_def table_guard_def)
  show "kheap_num_free_blocks fresh_kernel = 2000"
    using free_count_big by (simp add: fresh_kernel_def kheap_st.extend_def free_count_eq)
  have "(p, k) \<notin> live_blocks fresh_kernel" for p k
  proof
    assume "(p, k) \<in> live_blocks fresh_kernel"
    then have l: "region (entries fresh_kernel) p k" "p + k \<le> 2000" "0 < k"
      by (auto simp: live_blocks_def region_def fresh_kernel_def kheap_st.extend_def big_heap_def)
    then have "entries fresh_kernel p = block_entry k 0" unfolding region_def by (metis add_0_right)
    then show False
      using block_entry_not_free [of k 0] l
      by (simp add: fresh_kernel_def kheap_st.extend_def big_heap_def get_kheap_entry_type_def split: if_splits)
  qed
  then show "live fresh_kernel = {}" by (auto simp: live_def)
qed

lemma fresh_kernel_fields [simp]:
  "tasks fresh_kernel = (\<lambda>_. zero_task)" "curr_task fresh_kernel = 0" "tasks_ll_head fresh_kernel = 0"
  "tasks_ll_tail fresh_kernel = 0" "procs fresh_kernel = (\<lambda>_. zero_process)"
  "file_descriptors fresh_kernel = (\<lambda>_. 0)" "filesystems fresh_kernel = (\<lambda>_. NullFs)"
  "disk_sector_size fresh_kernel = 512" "ata_data fresh_kernel = (\<lambda>_ _. 0)"
  "sys_calls fresh_kernel = (\<lambda>_. NullCall)" "interrupt_call_backs fresh_kernel = (\<lambda>_. NullCb)"
  by (simp_all add: fresh_kernel_def kheap_st.extend_def)

end
