(* ===== verification/Task_Props.thy ===== *)
theory Task_Props
  imports Demo
begin

text \<open>
  The task list and the scheduler. The doubly linked list through \<open>t_next\<close> and \<open>t_prev\<close> is related to the
  list of its tasks (\<open>task_list\<close>); creating and freeing a task append to it and remove from it. The
  scheduler is described on that list, and an invariant holds whenever it enters user mode.
\<close>

section \<open>What the paging operations change\<close>

lemma pt_set_frame: "heap_frame s (pt_set p i v s)"
  by (simp add: pt_set_def heap_frame_mem)

lemma fold_frame: "(\<And>x s. heap_frame s (f x s)) \<Longrightarrow> heap_frame s (fold f xs s)"
  by (induction xs arbitrary: s) (auto simp: heap_frame_refl intro: heap_frame_trans)

lemma create_loop_frame: "heap_frame s (snd (paging_create_loop f dir off i s))"
proof (induction f dir off i s rule: paging_create_loop.induct)
  case (1 f dir off i s)
  show ?case
  proof (cases "i < NUM_PAGE_TABLE_ENTRIES")
    case True
    obtain q t where z: "kzalloc table_bytes s = (q, t)" by (rule prod.exhaust)
    note st = kzalloc_frame [OF z]
    show ?thesis
    proof (cases "q = 0")
      case True
      have "heap_frame t (paging_free_entries dir i (snd (kfree dir t)))"
        unfolding paging_free_entries_def
        by (rule heap_frame_trans [OF kfree_frame fold_frame [OF kfree_frame]])
      with st True \<open>i < NUM_PAGE_TABLE_ENTRIES\<close> z show ?thesis
        by (subst paging_create_loop.simps) (auto intro: heap_frame_trans)
    next
      case False
      have "heap_frame t (paging_fill_table f q off t)"
        unfolding paging_fill_table_def by (rule fold_frame [OF pt_set_frame])
      then have "heap_frame s (pt_set dir (of_nat i) v (paging_fill_table f q off t))" for v
        using st pt_set_frame heap_frame_trans by blast
      with 1 [OF True z [symmetric] refl False refl refl refl] True False z show ?thesis
        by (subst paging_create_loop.simps) (auto intro: heap_frame_trans simp: Let_def)
    qed
  qed (subst paging_create_loop.simps, simp add: heap_frame_refl)
qed

lemma create_4gb_frame: "paging_create_4gb_page_tables f pt s = (r, u) \<Longrightarrow> heap_frame s u"
proof -
  assume c: "paging_create_4gb_page_tables f pt s = (r, u)"
  obtain q t where z: "kzalloc table_bytes s = (q, t)" by (rule prod.exhaust)
  obtain r' v where l: "paging_create_loop f q 0 0 t = (r', v)" by fastforce
  have "heap_frame s t" by (rule kzalloc_frame [OF z])
  moreover have "heap_frame t v" using create_loop_frame [of t f q 0 0] l by simp
  moreover have "u = t \<or> u = v"
    using c z l by (auto simp: paging_create_4gb_page_tables_def split: if_splits)
  ultimately show ?thesis by (auto intro: heap_frame_trans)
qed

lemma free_page_table_frame: "paging_free_page_table pt s = Ret r u \<Longrightarrow> heap_frame s u"
  by (auto simp: paging_free_page_table_def panic_def Let_def split: if_splits
      intro!: heap_frame_trans [OF fold_frame kfree_frame] simp: heap_frame_refl kfree_frame)

lemma new_vpn_frame: "heap_frame s (snd (paging_new_vpn_to_pfn pt v p f ow s))"
proof -
  obtain q t where z: "kzalloc table_bytes s = (q, t)" by (rule prod.exhaust)
  have "heap_frame s t" by (rule kzalloc_frame [OF z])
  then have st: "heap_frame s (pt_set a i x t)" "heap_frame s (pt_set b j y (pt_set a i x t))"
    for a i x b j y using pt_set_frame heap_frame_trans by blast+
  have s: "heap_frame s (pt_set b j y (pt_set a i x s))" for a i x b j y
    using pt_set_frame heap_frame_trans by blast
  show ?thesis
    using \<open>heap_frame s t\<close> st s z
    by (auto simp: paging_new_vpn_to_pfn_def Let_def heap_frame_refl pt_set_frame)
qed

lemma map_loop_frame: "heap_frame s (snd (paging_map_loop pt vs ps i ve f s))"
proof (induction pt vs ps i ve f s rule: paging_map_loop.induct)
  case (1 pt vs ps i ve f s)
  obtain r t where n: "paging_new_vpn_to_pfn pt (vs + of_nat i) (ps + of_nat i) f True s = (r, t)" by fastforce
  have "heap_frame s t" using new_vpn_frame n by (metis snd_conv)
  with 1 [OF _ n [symmetric]] n show ?case
    by (subst paging_map_loop.simps) (auto simp: heap_frame_refl intro: heap_frame_trans)
qed

lemma map_region_frame: "paging_map_memory_region pt va pa ve f s = (r, u) \<Longrightarrow> heap_frame s u"
  using map_loop_frame [of s pt "va div PAGE_SIZE" "pa div PAGE_SIZE" 0 "ve div PAGE_SIZE" f]
  by (auto simp: paging_map_memory_region_def Let_def heap_frame_refl split: if_splits)

lemma heap_frame_proc:
  assumes "heap_frame s u"
  shows "tasks u = tasks s" and "curr_task u = curr_task s" and "tasks_ll_head u = tasks_ll_head s"
    and "tasks_ll_tail u = tasks_ll_tail s" and "procs u = procs s" and "current_proc u = current_proc s"
    and "cpu u = cpu s" and "elf_files u = elf_files s" and "cr3_reg u = cr3_reg s"
  using assms by (auto simp: heap_frame_def)

section \<open>The doubly linked list\<close>

text \<open>\<open>links T pv xs nx\<close>: the tasks \<open>xs\<close> are linked in this order, between \<open>pv\<close> and \<open>nx\<close>.\<close>

fun links :: "(addr \<Rightarrow> task) \<Rightarrow> addr \<Rightarrow> addr list \<Rightarrow> addr \<Rightarrow> bool" where
  "links T pv [] nx \<longleftrightarrow> True"
| "links T pv (x # xs) nx \<longleftrightarrow> t_prev (T x) = pv \<and> t_next (T x) = hd (xs @ [nx]) \<and> links T x xs nx"

definition task_list :: "'a proc_st_scheme \<Rightarrow> addr list \<Rightarrow> bool" where
  "task_list s ts \<longleftrightarrow> distinct ts \<and> 0 \<notin> set ts \<and> tasks_ll_head s = hd (ts @ [0]) \<and>
     tasks_ll_tail s = last (0 # ts) \<and> links (tasks s) 0 ts 0"

lemma links_append:
  "links T pv (xs @ ys) nx \<longleftrightarrow> links T pv xs (hd (ys @ [nx])) \<and> links T (last (pv # xs)) ys nx"
  by (induction xs arbitrary: pv) (auto simp: hd_append)

lemma links_cong:
  "(\<And>x. x \<in> set xs \<Longrightarrow> t_prev (U x) = t_prev (T x) \<and> t_next (U x) = t_next (T x)) \<Longrightarrow>
   links U pv xs nx = links T pv xs nx"
  by (induction xs arbitrary: pv) auto

lemma links_upd_other [simp]: "x \<notin> set xs \<Longrightarrow> links (T(x := y)) pv xs nx = links T pv xs nx"
  by (rule links_cong) auto

lemma links_set_next:
  assumes "links T pv xs nx" and "distinct xs" and "xs \<noteq> []"
  shows "links (T(last xs := (T (last xs))\<lparr>t_next := nx'\<rparr>)) pv xs nx'"
proof -
  obtain ys y where xs: "xs = ys @ [y]" using assms(3) by (metis rev_exhaust)
  then show ?thesis using assms(1,2) by (simp add: links_append)
qed

lemma links_set_prev:
  assumes "links T pv (x # xs) nx" and "x \<notin> set xs"
  shows "links (T(x := (T x)\<lparr>t_prev := pv'\<rparr>)) pv' (x # xs) nx"
  using assms by simp

lemma links_unique:
  "links T pv xs 0 \<Longrightarrow> links T pv' ys 0 \<Longrightarrow> hd (xs @ [0]) = hd (ys @ [0]) \<Longrightarrow> 0 \<notin> set xs \<Longrightarrow> 0 \<notin> set ys \<Longrightarrow> xs = ys"
proof (induction xs arbitrary: pv pv' ys)
  case Nil
  then show ?case by (cases ys) auto
next
  case (Cons x xs)
  then obtain zs where ys: "ys = x # zs" by (cases ys) auto
  with Cons.prems have "xs = zs" by (intro Cons.IH [of x x zs]) auto
  with ys show ?case by simp
qed

lemma append_task_list:
  assumes "task_list s ts" and "x \<noteq> 0" and "x \<notin> set ts"
  shows "task_list (tasks_append x s) (ts @ [x])"
proof (cases "ts = []")
  case True
  then show ?thesis using assms by (simp add: task_list_def tasks_append_def upd_task_def)
next
  case False
  note tl = assms(1) [unfolded task_list_def]
  have h: "tasks_ll_head s = hd ts" "hd ts \<noteq> 0" "tasks_ll_tail s = last ts"
    using tl False by (auto simp: hd_append) (metis hd_in_set)
  have "last ts \<noteq> x" using assms(3) False by (metis last_in_set)
  let ?T = "(tasks s)(last ts := (tasks s (last ts))\<lparr>t_next := x\<rparr>)"
  have "links ?T 0 ts x" using links_set_next [of _ 0 ts 0 x] tl False by simp
  then have "links (?T(x := (?T x)\<lparr>t_prev := last ts, t_next := 0\<rparr>)) 0 (ts @ [x]) 0"
    using assms(3) False \<open>last ts \<noteq> x\<close> by (simp add: links_append)
  then show ?thesis
    using tl assms(2,3) False h \<open>last ts \<noteq> x\<close>
    by (simp add: task_list_def tasks_append_def upd_task_def Let_def)
qed

lemma unlink_task_list:
  assumes "task_list s ts" and "x \<in> set ts"
  shows "task_list (tasks_unlink x s) (remove1 x ts)"
proof -
  obtain xs ys where ts: "ts = xs @ x # ys" using assms(2) by (meson split_list)
  note tl = assms(1) [unfolded task_list_def ts]
  have d: "distinct xs" "distinct ys" "x \<notin> set xs" "x \<notin> set ys" "set xs \<inter> set ys = {}" "0 \<notin> set xs" "0 \<notin> set ys" "x \<noteq> 0"
    using tl by auto
  have rm: "remove1 x ts = xs @ ys" using d ts by (simp add: remove1_append)
  have l: "links (tasks s) 0 xs x" "links (tasks s) x ys 0" "t_prev (tasks s x) = last (0 # xs)"
    "t_next (tasks s x) = hd (ys @ [0])"
    using tl by (auto simp: links_append)
  define T where "T = (if xs = [] then tasks s
      else (tasks s)(last xs := (tasks s (last xs))\<lparr>t_next := hd (ys @ [0])\<rparr>))"
  define U where "U = (if ys = [] then T else T(hd ys := (T (hd ys))\<lparr>t_prev := last (0 # xs)\<rparr>))"
  have T: "links T 0 xs (hd (ys @ [0]))" "links T x ys 0"
    using l d links_set_next [OF l(1) d(1)] by (auto simp: T_def disjoint_iff)
  have U: "links U 0 (xs @ ys) 0"
  proof (cases ys)
    case (Cons y zs)
    then have "y \<notin> set xs" "y \<notin> set zs" using d by auto
    then show ?thesis using T Cons links_set_prev [of T x y zs 0] by (auto simp: U_def links_append)
  qed (use T in \<open>simp add: U_def\<close>)
  have ne: "xs \<noteq> [] \<Longrightarrow> last xs \<noteq> x \<and> last xs \<noteq> 0" "ys \<noteq> [] \<Longrightarrow> hd ys \<noteq> x \<and> hd ys \<noteq> 0"
    using d by (metis last_in_set) (metis d hd_in_set)
  have ends: "tasks_ll_head s = (if xs = [] then x else hd xs)" "xs \<noteq> [] \<Longrightarrow> hd xs \<noteq> x"
    "tasks_ll_tail s = (if ys = [] then x else last ys)" "ys \<noteq> [] \<Longrightarrow> last ys \<noteq> x"
    using tl d by (auto simp: hd_append)
  have "tasks (tasks_unlink x s) = U"
    using ends ne l by (cases "xs = []"; cases "ys = []") (auto simp: tasks_unlink_def Let_def upd_task_def U_def T_def)
  moreover have "tasks_ll_head (tasks_unlink x s) = hd ((xs @ ys) @ [0])"
    using ends ne l by (cases "xs = []"; cases "ys = []") (auto simp: tasks_unlink_def Let_def upd_task_def)
  moreover have "tasks_ll_tail (tasks_unlink x s) = last (0 # xs @ ys)"
    using ends ne l by (cases "xs = []"; cases "ys = []") (auto simp: tasks_unlink_def Let_def upd_task_def)
  ultimately show ?thesis using U d by (auto simp: task_list_def rm)
qed

text \<open>The list of all tasks as a register of distinct addresses, in the order of their creation.\<close>

locale task_register =
  fixes contents :: "'s \<Rightarrow> addr list \<Rightarrow> bool" and add :: "addr \<Rightarrow> 's \<Rightarrow> 's" and remove :: "addr \<Rightarrow> 's \<Rightarrow> 's"
  assumes contents_unique: "contents s ts \<Longrightarrow> contents s us \<Longrightarrow> ts = us"
    and contents_distinct: "contents s ts \<Longrightarrow> distinct ts \<and> 0 \<notin> set ts"
    and add_contents: "contents s ts \<Longrightarrow> x \<noteq> 0 \<Longrightarrow> x \<notin> set ts \<Longrightarrow> contents (add x s) (ts @ [x])"
    and remove_contents: "contents s ts \<Longrightarrow> x \<in> set ts \<Longrightarrow> contents (remove x s) (remove1 x ts)"
begin

lemma add_remove: "contents s ts \<Longrightarrow> x \<noteq> 0 \<Longrightarrow> x \<notin> set ts \<Longrightarrow> contents (remove x (add x s)) ts"
  using remove_contents [OF add_contents, of s ts x x] by (simp add: remove1_append)

lemma add_all:
  "contents s ts \<Longrightarrow> distinct (ts @ xs) \<Longrightarrow> 0 \<notin> set xs \<Longrightarrow> contents (fold add xs s) (ts @ xs)"
proof (induction xs arbitrary: s ts)
  case (Cons x xs)
  then show ?case using Cons.IH [OF add_contents [OF Cons.prems(1), of x]] by auto
qed simp

lemma remove_all:
  "contents s ts \<Longrightarrow> distinct xs \<Longrightarrow> set xs \<subseteq> set ts \<Longrightarrow>
   contents (fold remove xs s) (filter (\<lambda>t. t \<notin> set xs) ts)"
proof (induction xs arbitrary: s ts)
  case (Cons x xs)
  have d: "distinct ts" using contents_distinct Cons.prems(1) by blast
  have "contents (remove x s) (remove1 x ts)" using remove_contents Cons.prems by simp
  then have "contents (fold remove xs (remove x s)) (filter (\<lambda>t. t \<notin> set xs) (remove1 x ts))"
    using Cons.prems d by (intro Cons.IH) (auto simp: distinct_remove1_removeAll)
  moreover have "filter (\<lambda>t. t \<notin> set xs) (remove1 x ts) = filter (\<lambda>t. t \<notin> set (x # xs)) ts"
    using d by (simp add: distinct_remove1_removeAll removeAll_filter_not_eq conj_commute)
      (rule filter_cong, auto)
  ultimately show ?case by simp
qed simp

end

interpretation tl: task_register task_list tasks_append tasks_unlink
proof
  fix s :: "'a proc_st_scheme" and ts us x
  show "task_list s ts \<Longrightarrow> task_list s us \<Longrightarrow> ts = us"
    by (rule links_unique [of "tasks s" 0 ts 0 us]) (simp_all add: task_list_def)
  show "task_list s ts \<Longrightarrow> distinct ts \<and> 0 \<notin> set ts" by (simp add: task_list_def)
  show "task_list s ts \<Longrightarrow> x \<noteq> 0 \<Longrightarrow> x \<notin> set ts \<Longrightarrow> task_list (tasks_append x s) (ts @ [x])"
    by (rule append_task_list)
  show "task_list s ts \<Longrightarrow> x \<in> set ts \<Longrightarrow> task_list (tasks_unlink x s) (remove1 x ts)"
    by (rule unlink_task_list)
qed

section \<open>Creating and freeing tasks\<close>

lemma upd_task_heap [simp]:
  "kheap_ok (upd_task t f s) = kheap_ok s" "live (upd_task t f s) = live s" "mem (upd_task t f s) = mem s"
  "tasks_ll_head (upd_task t f s) = tasks_ll_head s" "tasks_ll_tail (upd_task t f s) = tasks_ll_tail s"
  "curr_task (upd_task t f s) = curr_task s" "procs (upd_task t f s) = procs s"
  "elf_files (upd_task t f s) = elf_files s" "current_proc (upd_task t f s) = current_proc s"
  "tasks (upd_task t f s) = (tasks s)(t := f (tasks s t))"
  by (simp_all add: upd_task_def kheap_ok_def heap_geometry_def table_guard_def live_def live_blocks_def
      kheap_block_to_addr_def)

lemma append_heap [simp]:
  "kheap_ok (tasks_append t s) = kheap_ok s" "live (tasks_append t s) = live s" "mem (tasks_append t s) = mem s"
  by (simp_all add: tasks_append_def Let_def upd_task_def kheap_ok_def heap_geometry_def table_guard_def live_def
      live_blocks_def kheap_block_to_addr_def)

lemma unlink_heap [simp]:
  "kheap_ok (tasks_unlink t s) = kheap_ok s" "live (tasks_unlink t s) = live s" "mem (tasks_unlink t s) = mem s"
  by (simp_all add: tasks_unlink_def Let_def upd_task_def kheap_ok_def heap_geometry_def table_guard_def live_def
      live_blocks_def kheap_block_to_addr_def)

text \<open>What is not a link stays.\<close>

definition same_task :: "task \<Rightarrow> task \<Rightarrow> bool" where
  "same_task t u \<longleftrightarrow> page_table u = page_table t \<and> t_state u = t_state t \<and> regs u = regs t \<and> t_proc u = t_proc t"

lemma append_same: "same_task (tasks s x) (tasks (tasks_append t s) x)"
  by (auto simp: tasks_append_def same_task_def Let_def upd_task_def)

lemma unlink_same: "same_task (tasks s x) (tasks (tasks_unlink t s) x)"
  by (auto simp: tasks_unlink_def same_task_def Let_def upd_task_def)

lemma task_list_cong:
  "(\<And>x. x \<in> set ts \<Longrightarrow> tasks u x = tasks s x) \<Longrightarrow> tasks_ll_head u = tasks_ll_head s \<Longrightarrow>
   tasks_ll_tail u = tasks_ll_tail s \<Longrightarrow> task_list u ts = task_list s ts"
  unfolding task_list_def using links_cong [of ts "tasks u" "tasks s"] by auto

text \<open>The allocations a task owns: its structure and its page table.\<close>

definition task_pages :: "'a proc_st_scheme \<Rightarrow> addr \<Rightarrow> (addr \<times> nat) set" where
  "task_pages s t = insert (t, 1) (pt_pages s (page_table (tasks s t)))"

lemma pt_pages_cong: "mem u = mem s \<Longrightarrow> pt_pages u pt = pt_pages s pt"
  by (simp add: pt_pages_def pt_get_def)

lemma free_blocks_upd_task [simp]: "kheap_num_free_blocks (upd_task t f s) = kheap_num_free_blocks s"
  by (simp add: upd_task_def kheap_num_free_blocks_def)

lemma free_blocks_append [simp]: "kheap_num_free_blocks (tasks_append t s) = kheap_num_free_blocks s"
  by (simp add: tasks_append_def upd_task_def Let_def kheap_num_free_blocks_def)

lemma blocks_of_task: "blocks_of SIZEOF_task = 1" "unat SIZEOF_task \<le> 4096"
  by (simp_all add: blocks_of_def)

lemma task_init_ok:
  assumes "kheap_ok s" and "task_init t proc s = (r, u)"
  shows "(r = STATUS_OK \<longleftrightarrow> 1025 \<le> kheap_num_free_blocks s) \<and> kheap_ok u \<and>
    tasks_ll_head u = tasks_ll_head s \<and> tasks_ll_tail u = tasks_ll_tail s \<and>
    (\<forall>x. x \<noteq> t \<longrightarrow> tasks u x = tasks s x) \<and>
    (r \<noteq> STATUS_OK \<longrightarrow> live u = live s) \<and>
    (r = STATUS_OK \<longrightarrow> kheap_num_free_blocks u + 1025 = kheap_num_free_blocks s \<and>
       live u = live s \<union> pt_pages u (page_table (tasks u t)) \<and>
       live s \<inter> pt_pages u (page_table (tasks u t)) = {} \<and>
       pt_wf u (page_table (tasks u t)) \<and> num_levels (page_table (tasks u t)) = 2 \<and>
       (\<forall>va. translate (mem u) (cr3 (page_table (tasks u t))) va = Some va) \<and>
       t_state (tasks u t) = TASK_READY \<and> t_proc (tasks u t) = Some proc)"
proof -
  let ?s = "upd_task t (\<lambda>_. zero_task) s"
  obtain r' pt v where c: "paging_create_4gb_page_tables (PAGE_PRESENT OR PAGE_WRITE_ALLOW)
      (page_table (tasks ?s t)) ?s = ((r', pt), v)" by (metis surj_pair)
  have b: "bit (PAGE_PRESENT OR PAGE_WRITE_ALLOW) 0" by simp
  have ok: "kheap_ok ?s" using assms(1) by simp
  note res = create_4gb_result [OF ok b c] create_4gb_count [OF ok c] heap_frame_proc [OF create_4gb_frame [OF c]]
  show ?thesis
  proof (cases "r' = STATUS_OK")
    case True
    note pg = create_4gb_pages [OF ok b c [unfolded True]]
    have wf: "pt_wf v pt" "num_levels pt = 2"
      "\<forall>v'. unat v' < 1048576 \<longrightarrow> walk (mem v) (cr3 pt) v' = Some (v' * 4096, ucast (PAGE_PRESENT OR PAGE_WRITE_ALLOW :: u8))"
      using res(1) True by auto
    have tr: "translate (mem v) (cr3 pt) va = Some va" for va
      using translate_ident [of "mem v" "cr3 pt"] wf(3) vpn_bound by auto
    have u: "mem u = mem v" "live u = live v" "kheap_ok u = kheap_ok v" "kheap_num_free_blocks u = kheap_num_free_blocks v"
        "page_table (tasks u t) = pt" "r = STATUS_OK" "t_state (tasks u t) = TASK_READY" "t_proc (tasks u t) = Some proc"
        "tasks_ll_head u = tasks_ll_head v" "tasks_ll_tail u = tasks_ll_tail v" "\<forall>x. x \<noteq> t \<longrightarrow> tasks u x = tasks v x"
      using assms(2) c True by (auto simp: task_init_def Let_def)
    show ?thesis
      using u pg wf(1,2) tr res(2-) True pt_wfD(1) [OF wf(1)] pt_wf_cong [OF u(3,2,1)] pt_pages_cong [OF u(1)]
      by simp
  next
    case False
    then have "kheap_ok v" "live v = live s" using res(1) by auto
    moreover have "r = r'" "u = upd_task t (\<lambda>t. t\<lparr>page_table := pt\<rparr>) v"
      using assms(2) c False by (auto simp: task_init_def Let_def)
    ultimately show ?thesis using res(2-) False by simp
  qed
qed

lemma task_new_procs:
  assumes "task_new proc s = (t, u)"
  shows "procs u = procs s"
proof -
  obtain q v where z: "kzalloc SIZEOF_task s = (q, v)" by fastforce
  obtain r w where i: "task_init q proc v = (r, w)" by fastforce
  obtain r' pt x where c: "paging_create_4gb_page_tables (PAGE_PRESENT OR PAGE_WRITE_ALLOW)
      (page_table (tasks (upd_task q (\<lambda>_. zero_task) v) q)) (upd_task q (\<lambda>_. zero_task) v) = ((r', pt), x)"
    by (metis surj_pair)
  have "procs w = procs s"
    using i c heap_frame_proc(5) [OF create_4gb_frame [OF c]] heap_frame_proc(5) [OF kzalloc_frame [OF z]]
    by (auto simp: task_init_def Let_def split: if_splits)
  moreover have "procs (tasks_append q w) = procs w"
    by (simp add: tasks_append_def Let_def)
  ultimately show ?thesis
    using assms z i heap_frame_proc(5) [OF kzalloc_frame [OF z]] heap_frame_proc(5) [OF kfree_frame [of w q]]
    by (auto simp: task_new_def split: if_splits)
qed

lemma task_new_result:
  assumes "kheap_ok s" and "task_list s ts" and "\<forall>x \<in> set ts. (x, 1) \<in> live s" and "task_new proc s = (t, u)"
  shows "kheap_ok u \<and> (t \<noteq> 0 \<longleftrightarrow> 1026 \<le> kheap_num_free_blocks s) \<and>
    (t = 0 \<longrightarrow> task_list u ts \<and> live u = live s) \<and>
    (t \<noteq> 0 \<longrightarrow> kheap_num_free_blocks u + 1026 = kheap_num_free_blocks s \<and> task_list u (ts @ [t]) \<and> live u = live s \<union> task_pages u t \<and> live s \<inter> task_pages u t = {} \<and>
       t_state (tasks u t) = TASK_READY \<and> t_proc (tasks u t) = Some proc \<and>
       pt_wf u (page_table (tasks u t)) \<and> num_levels (page_table (tasks u t)) = 2 \<and>
       (t, 1) \<notin> pt_pages u (page_table (tasks u t)) \<and>
       (\<forall>va. translate (mem u) (cr3 (page_table (tasks u t))) va = Some va) \<and>
       (\<forall>x. x \<noteq> t \<longrightarrow> same_task (tasks s x) (tasks u x)))"
proof -
  obtain q v where z: "kzalloc SIZEOF_task s = (q, v)" by fastforce
  note a = small_alloc [OF assms(1) z blocks_of_task]
  note f = heap_frame_proc [OF kzalloc_frame [OF z]]
  show ?thesis
  proof (cases "q = 0")
    case True
    then have "task_list v ts" using assms(2) f task_list_cong [of ts v s] by simp
    moreover have "live v = live s" using kh.alloc_null [OF assms(1)] z True by simp
    ultimately show ?thesis using assms(4) z True a(1,2) by (simp add: task_new_def)
  next
    case False
    obtain r w where i: "task_init q proc v = (r, w)" by fastforce
    note ti = task_init_ok [OF a(1) i]
    have q: "q \<notin> set ts" using assms(3) a(4) [OF False] by blast
    have tl: "task_list w ts"
      using assms(2) f ti q task_list_cong [of ts w s] by (metis (no_types, lifting))
    show ?thesis
    proof (cases "r = STATUS_OK")
      case True
      have u: "t = q" "u = tasks_append q w" using assms(4) z False i True by (auto simp: task_new_def)
      have pt: "page_table (tasks u q) = page_table (tasks w q)" "t_state (tasks u q) = t_state (tasks w q)"
        "t_proc (tasks u q) = t_proc (tasks w q)"
        using append_same [of w q q] u by (auto simp: same_task_def)
      have m: "mem u = mem w" "live u = live w" "kheap_ok u = kheap_ok w" "kheap_num_free_blocks u = kheap_num_free_blocks w"
        using u by simp_all
      have pg: "task_pages u q = insert (q, 1) (pt_pages w (page_table (tasks w q)))"
        by (simp add: task_pages_def pt pt_pages_cong [OF m(1)])
      have "task_list u (ts @ [q])" using tl.add_contents [OF tl False q] u by simp
      moreover have "live u = live s \<union> task_pages u q" "live s \<inter> task_pages u q = {}"
        using m pg ti True a(3,4) [OF False] by auto
      moreover have "same_task (tasks s x) (tasks u x)" if "x \<noteq> q" for x
        using append_same [of w x q] u ti f that by (metis (no_types, lifting))
      moreover have "(q, 1) \<notin> pt_pages u (page_table (tasks u q))"
        using ti True a(3) [OF False] pt pt_pages_cong [OF m(1)] by auto
      ultimately show ?thesis
        using u ti True a(5) [OF False] False pt pt_wf_cong [OF m(3,2,1)] m by simp
    next
      case r: False
      have u: "t = 0" "u = snd (kfree q w)" using assms(4) z False i r by (auto simp: task_new_def)
      have "(q, 1) \<in> live w" "kheap_ok w" using ti r a(3) [OF False] by auto
      note k = kfree_live [OF this(2,1)]
      have "task_list u ts"
        using tl task_list_cong [of ts u w] heap_frame_proc [OF kfree_frame [of w q]] u by simp
      moreover have "live u = live s" using k(2) u ti r a(3,4) [OF False] by auto
      ultimately show ?thesis using u k(1) ti r a(5) [OF False] by simp
    qed
  qed
qed

text \<open>C4: \<^verbatim>\<open>task_new\<close> succeeds exactly when the heap has 1026 free blocks. Then the new task is the last of the
  task list, ready, owned by its process and with an identity page table of its own; what it owns was
  free before and is all that was allocated, and no other task changes except for its links. When it
  fails, nothing stays allocated and the task list is the same.\<close>

theorem task_new_contract:
  assumes "kheap_ok s" and "task_list s ts" and "\<forall>x \<in> set ts. (x, 1) \<in> live s" and "task_new proc s = (t, u)"
  shows "kheap_ok u \<and> (t \<noteq> 0 \<longleftrightarrow> 1026 \<le> kheap_num_free_blocks s) \<and>
    (t = 0 \<longrightarrow> task_list u ts \<and> live u = live s) \<and>
    (t \<noteq> 0 \<longrightarrow> task_list u (ts @ [t]) \<and> live u = live s \<union> task_pages u t \<and> live s \<inter> task_pages u t = {} \<and>
       t_state (tasks u t) = TASK_READY \<and> t_proc (tasks u t) = Some proc \<and>
       pt_wf u (page_table (tasks u t)) \<and>
       (\<forall>va. translate (mem u) (cr3 (page_table (tasks u t))) va = Some va) \<and>
       (\<forall>x. x \<noteq> t \<longrightarrow> same_task (tasks s x) (tasks u x)))"
  using task_new_result [OF assms] by blast

theorem task_new_contract_witness:
  "let (t, u) = task_new 3 fresh_kernel
   in t \<noteq> 0 \<and> task_list u [t] \<and> t_proc (tasks u t) = Some 3 \<and> live u = task_pages u t"
proof -
  have "task_list fresh_kernel []" by (simp add: task_list_def)
  then show ?thesis
    using task_new_contract [of fresh_kernel "[]" 3 "fst (task_new 3 fresh_kernel)" "snd (task_new 3 fresh_kernel)"]
    by (simp add: case_prod_beta)
qed

text \<open>C5: \<^verbatim>\<open>task_free\<close> of a dead task of the list takes it out of the list and releases exactly its structure and
  its page table; the other tasks change only in their links. A task that is not dead is refused with
  a panic.\<close>

theorem task_free_contract:
  assumes "task_list s ts" and "t \<in> set ts" and "pt_wf s (page_table (tasks s t))"
    and "num_levels (page_table (tasks s t)) = 2" and "(t, 1) \<in> live s"
    and "(t, 1) \<notin> pt_pages s (page_table (tasks s t))"
  shows "if t_state (tasks s t) = TASK_DEAD
    then \<exists>u. task_free t s = Ret 0 u \<and> task_list u (remove1 t ts) \<and> kheap_ok u \<and> mem u = mem s \<and>
           live u = live s - task_pages s t \<and> (\<forall>x. same_task (tasks s x) (tasks u x)) \<and>
           curr_task u = (if curr_task s = t then 0 else curr_task s)
    else \<exists>u. task_free t s = Panic ''Trying to free a task that is not dead'' u"
proof (cases "t_state (tasks s t) = TASK_DEAD")
  case True
  have t0: "t \<noteq> 0" using tl.contents_distinct [OF assms(1)] assms(2) by auto
  from free_page_table_pages [OF assms(3,4)] obtain v where
    v: "paging_free_page_table (page_table (tasks s t)) s = Ret 0 v" "kheap_ok v" "mem v = mem s"
      "live v = live s - pt_pages s (page_table (tasks s t))" by blast
  note f = heap_frame_proc [OF free_page_table_frame [OF v(1)]]
  let ?w = "tasks_unlink t v"
  have "task_list v ts" using assms(1) f task_list_cong [of ts v s] by simp
  then have tl: "task_list ?w (remove1 t ts)" by (rule tl.remove_contents [OF _ assms(2)])
  have "(t, 1) \<in> live ?w" "kheap_ok ?w" using v assms(5,6) by auto
  note k = kfree_live [OF this(2,1)] heap_frame_proc [OF kfree_frame [of ?w t]]
  have "task_free t s = Ret 0 (snd (kfree t ?w))" using True t0 v(1) by (simp add: task_free_def)
  moreover have "task_list (snd (kfree t ?w)) (remove1 t ts)"
    using tl k(3-) task_list_cong [of "remove1 t ts" "snd (kfree t ?w)" ?w] by simp
  moreover have "curr_task (snd (kfree t ?w)) = (if curr_task s = t then 0 else curr_task s)"
    unfolding k(4) using f by (simp add: tasks_unlink_def Let_def upd_task_def)
  moreover have "live (snd (kfree t ?w)) = live s - task_pages s t" using k(2) v(4) by (auto simp: task_pages_def)
  moreover have "\<forall>x. same_task (tasks s x) (tasks (snd (kfree t ?w)) x)"
    using unlink_same [of v] f(1) k(3) by simp
  ultimately show ?thesis using True k(1) v(3) by simp
next
  case False
  then show ?thesis using assms(1,2) by (auto simp: task_free_def panic_def task_list_def)
qed

theorem task_free_contract_witness:
  "let (t, u) = task_new 3 fresh_kernel; u = upd_task t (\<lambda>x. x\<lparr>t_state := TASK_DEAD\<rparr>) u
   in \<exists>v. task_free t u = Ret 0 v \<and> task_list v [] \<and> live v = {}"
proof -
  obtain t u where n: "task_new 3 fresh_kernel = (t, u)" by fastforce
  have "task_list fresh_kernel []" by (simp add: task_list_def)
  note r = task_new_result [OF _ this _ n, simplified]
  let ?u = "upd_task t (\<lambda>x. x\<lparr>t_state := TASK_DEAD\<rparr>) u"
  have "task_list ?u [t]" using r by (simp add: task_list_def)
  moreover have "pt_wf ?u (page_table (tasks ?u t))" "pt_pages ?u (page_table (tasks ?u t)) = pt_pages u (page_table (tasks u t))"
    using r pt_wf_cong [of ?u u] pt_pages_cong [of ?u u] by simp_all
  ultimately show ?thesis
    using task_free_contract [of ?u "[t]" t] r n pt_pages_cong [of ?u u] by (auto simp: task_pages_def)
qed

end
