(* ===== verification/Scheduler.thy ===== *)
theory Scheduler
  imports Task_Props
begin

text \<open>
  The scheduler on the task list: which task \<^verbatim>\<open>task_switch_and_run_any\<close> and \<^verbatim>\<open>task_switch_to_next_and_run\<close>
  choose, what holds when they enter user mode, and the clock interrupt as a step relation under
  which ready tasks take turns.
\<close>

section \<open>Entering user mode\<close>

text \<open>What user code of task \<open>t\<close> may rely on.\<close>

definition runs :: "addr \<Rightarrow> 'a proc_st_scheme \<Rightarrow> bool" where
  "runs t s \<longleftrightarrow> curr_task s = t \<and> t_state (tasks s t) = TASK_RUNNING \<and> cpu s = regs (tasks s t) \<and>
     current_proc s = t_proc (tasks s t) \<and> cr3_reg s = cr3 (page_table (tasks s t)) \<and>
     (\<exists>i. t_proc (tasks s t) = Some i \<and> p_status (procs s i) = PROC_CAN_START)"

text \<open>The processor belongs to at most one task.\<close>

definition one_running :: "'a proc_st_scheme \<Rightarrow> bool" where
  "one_running s \<longleftrightarrow> (\<forall>t. t_state (tasks s t) = TASK_RUNNING \<longrightarrow> t = curr_task s)"

definition startable :: "'a proc_st_scheme \<Rightarrow> addr \<Rightarrow> bool" where
  "startable s t \<longleftrightarrow> (\<exists>i. t_proc (tasks s t) = Some i \<and> p_status (procs s i) = PROC_CAN_START)"

text \<open>The state of the task table after a switch to \<open>t\<close>.\<close>

definition switched :: "addr \<Rightarrow> 'a proc_st_scheme \<Rightarrow> addr \<Rightarrow> task" where
  "switched t s =
     (let T = (if curr_task s \<noteq> 0 \<and> t_state (tasks s (curr_task s)) = TASK_RUNNING
               then (tasks s)(curr_task s := (tasks s (curr_task s))\<lparr>t_state := TASK_READY\<rparr>) else tasks s)
      in T(t := (T t)\<lparr>t_state := TASK_RUNNING\<rparr>))"

text \<open>Switching leaves everything else alone.\<close>

definition switch_frame :: "'a proc_st_scheme \<Rightarrow> 'a proc_st_scheme \<Rightarrow> bool" where
  "switch_frame s u \<longleftrightarrow> (\<exists>pt c l T t p r. u = s\<lparr>current_pt := pt, cr3_reg := c, tlb := l, tasks := T,
     curr_task := t, current_proc := p, cpu := r\<rparr>)"

lemma switch_frame_fields:
  assumes "switch_frame s u"
  shows "tasks_ll_head u = tasks_ll_head s" and "tasks_ll_tail u = tasks_ll_tail s" and "procs u = procs s"
  using assms by (auto simp: switch_frame_def)

lemma switch_and_run:
  assumes "t_state (tasks s t) = TASK_READY" and "startable s t"
  shows "\<exists>u. task_switch_and_run t s = UserMode u \<and> runs t u \<and> tasks u = switched t s \<and> switch_frame s u"
proof -
  obtain i where i: "t_proc (tasks s t) = Some i" "p_status (procs s i) = PROC_CAN_START"
    using assms(2) by (auto simp: startable_def)
  have p: "t_proc (switched t s t) = Some i"
    using i by (auto simp: switched_def Let_def)
  define v where "v = s\<lparr>tasks := switched t s, curr_task := t, current_proc := Some i\<rparr>"
  have "task_switch t s = Ret 0 (paging_switch (page_table (switched t s t)) v)"
    using i p by (auto simp: task_switch_def Let_def deref_def set_current_process_def upd_task_def switched_def v_def
        paging_switch_def paging_load_dir_def)
  then have "task_switch_and_run t s = UserMode ((paging_switch (page_table (switched t s t)) v)\<lparr>cpu := regs (switched t s t)\<rparr>)"
    (is "_ = UserMode ?u")
    using assms(1) by (simp add: task_switch_and_run_def task_return_def paging_switch_def paging_load_dir_def v_def)
  moreover have "runs t ?u" "tasks ?u = switched t s"
    using i p by (simp_all add: runs_def paging_switch_def paging_load_dir_def v_def) (simp add: switched_def Let_def)
  moreover have "switch_frame s ?u"
    unfolding switch_frame_def v_def paging_switch_def paging_load_dir_def
    by (intro exI [of _ "Some (page_table (switched t s t))"] exI [of _ "cr3 (page_table (switched t s t))"]
        exI [of _ "\<lambda>_. None"] exI [of _ "switched t s"] exI [of _ t] exI [of _ "Some i"]
        exI [of _ "regs (switched t s t)"]) simp
  ultimately show ?thesis by blast
qed

lemma switched_links: "same_task (tasks s x) ((switched t s x)\<lparr>t_state := t_state (tasks s x)\<rparr>)"
  "t_next (switched t s x) = t_next (tasks s x)" "t_prev (switched t s x) = t_prev (tasks s x)"
  by (auto simp: switched_def Let_def same_task_def)

lemma switched_running:
  assumes "one_running s" and "t \<noteq> 0" and "curr_task s \<noteq> 0"
  shows "t_state (switched t s x) = TASK_RUNNING \<longleftrightarrow> x = t"
proof -
  have "x \<noteq> curr_task s \<Longrightarrow> t_state (tasks s x) \<noteq> TASK_RUNNING" using assms(1) by (auto simp: one_running_def)
  then show ?thesis
    using assms(3) by (cases "x = curr_task s"; cases "x = t") (simp_all add: switched_def Let_def)
qed

section \<open>Any ready task\<close>

lemma first_ready_links:
  "links (tasks s) pv ts 0 \<Longrightarrow> 0 \<notin> set ts \<Longrightarrow>
   first_ready (hd (ts @ [0])) s = Some (case find (\<lambda>t. t_state (tasks s t) = TASK_READY) ts of None \<Rightarrow> 0 | Some t \<Rightarrow> t)"
proof (induction ts arbitrary: pv)
  case (Cons t ts)
  then show ?case by (subst first_ready.simps) auto
qed (subst first_ready.simps, simp)

text \<open>C3: \<^verbatim>\<open>task_switch_and_run_any\<close> ends its search on every task list: it panics with a deadlock message exactly
  when no task is ready, and otherwise enters user mode with the first ready task of the list, with
  that task's registers, process and page table, and with no other task left running.\<close>

theorem run_any_first_ready:
  assumes "task_list s ts" and "one_running s" and "curr_task s \<noteq> 0"
    and "\<forall>t \<in> set ts. t_state (tasks s t) = TASK_READY \<longrightarrow> startable s t"
  shows "case find (\<lambda>t. t_state (tasks s t) = TASK_READY) ts of
      None \<Rightarrow> \<exists>u. task_switch_and_run_any s = Panic (''Deadlock: No ready task found'' @ [CHR 0x0A]) u
    | Some t \<Rightarrow> \<exists>u. task_switch_and_run_any s = UserMode u \<and> runs t u \<and> one_running u \<and> task_list u ts \<and>
        cpu u = regs (tasks s t)"
proof -
  note tl = assms(1) [unfolded task_list_def]
  note fr = first_ready_links [of s 0 ts]
  show ?thesis
  proof (cases "find (\<lambda>t. t_state (tasks s t) = TASK_READY) ts")
    case None
    then show ?thesis using tl fr by (auto simp: task_switch_and_run_any_def panic_def)
  next
    case (Some t)
    then have t: "t \<in> set ts" "t_state (tasks s t) = TASK_READY"
      by (auto simp: find_Some_iff)
    then have "t \<noteq> 0" using tl by auto
    from switch_and_run [of s t] t assms(4) obtain u where
      u: "task_switch_and_run t s = UserMode u" "runs t u" "tasks u = switched t s" "switch_frame s u" by blast
    have "task_switch_and_run_any s = UserMode u"
      using tl fr Some u(1) \<open>t \<noteq> 0\<close> by (simp add: task_switch_and_run_any_def)
    moreover have "task_list u ts"
      using tl u switch_frame_fields [OF u(4)] links_cong [of ts "tasks u" "tasks s"]
      by (simp add: task_list_def switched_links)
    moreover have "one_running u"
      using switched_running [OF assms(2) \<open>t \<noteq> 0\<close> assms(3)] u by (simp add: one_running_def runs_def)
    moreover have "cpu u = regs (tasks s t)"
      using u(2,3) switched_links(1) [of s t t] by (simp add: runs_def same_task_def)
    ultimately show ?thesis using Some u(2) by auto
  qed
qed

section \<open>A concrete task list\<close>

definition demo_task :: "task_state \<Rightarrow> nat \<Rightarrow> addr \<Rightarrow> addr \<Rightarrow> task" where
  "demo_task st i pv nx = zero_task\<lparr>t_state := st, t_proc := Some i, t_prev := pv, t_next := nx\<rparr>"

text \<open>Three tasks of three processes; the first one runs, \<open>st\<close> is the state of the second.\<close>

definition three_tasks :: "task_state \<Rightarrow> kernel_st" where
  "three_tasks st = fresh_kernel\<lparr>
     tasks := (\<lambda>_. zero_task\<lparr>t_state := TASK_DEAD\<rparr>)(0x1000000 := demo_task TASK_RUNNING 0 0 0x1001000,
        0x1001000 := demo_task st 1 0x1000000 0x1002000, 0x1002000 := demo_task TASK_READY 2 0x1001000 0),
     curr_task := 0x1000000, tasks_ll_head := 0x1000000, tasks_ll_tail := 0x1002000,
     procs := (\<lambda>_. zero_process\<lparr>p_status := PROC_CAN_START\<rparr>),
     interrupt_call_backs := (\<lambda>_. NullCb)(0x20 := Cb_handle_clock)\<rparr>"

abbreviation three_addrs :: "addr list" where "three_addrs \<equiv> [0x1000000, 0x1001000, 0x1002000]"

definition demo_frame :: "u32 \<Rightarrow> interrupt_frame" where
  "demo_frame x = \<lparr>f_edi = x, f_esi = 2, f_ebp = 3, f_reserved = 0, f_ebx = 4, f_edx = 5, f_ecx = 6, f_eax = 7,
     f_eip = 0x8400010, f_cs = 0x1B, f_eflags = 0x202, f_esp = 0x83feff0, f_ss = 0x23\<rparr>"

lemma three_tasks_list:
  "task_list (three_tasks st) three_addrs"
  "st \<noteq> TASK_RUNNING \<Longrightarrow> one_running (three_tasks st)"
  "t \<in> set three_addrs \<Longrightarrow> startable (three_tasks st) t"
  "curr_task (three_tasks st) = 0x1000000"
  by (auto simp: task_list_def three_tasks_def demo_task_def one_running_def startable_def split: if_splits)

theorem run_any_first_ready_witness:
  "\<exists>u. task_switch_and_run_any (three_tasks TASK_DEAD) = UserMode u \<and> runs 0x1002000 u"
  using run_any_first_ready [of "three_tasks TASK_DEAD" three_addrs] three_tasks_list [where st = TASK_DEAD]
  by (simp add: three_tasks_def demo_task_def) blast

section \<open>The clock\<close>

lemma links_next: "links T pv ts nx \<Longrightarrow> k < length ts \<Longrightarrow> t_next (T (ts ! k)) = (ts @ [nx]) ! Suc k"
proof (induction ts arbitrary: pv k)
  case (Cons t ts)
  then show ?case by (cases k; cases ts) auto
qed simp

lemma task_get_next_list:
  assumes "task_list s ts" and "k < length ts" and "curr_task s = ts ! k"
  shows "task_get_next s = ts ! (Suc k mod length ts)"
proof -
  have n: "ts ! k \<noteq> 0" "t_next (tasks s (ts ! k)) = (ts @ [0]) ! Suc k" "tasks_ll_head s = ts ! 0" "0 \<notin> set ts"
    using assms links_next [of "tasks s" 0 ts 0 k] by (auto simp: task_list_def hd_append hd_conv_nth) (metis nth_mem)
  show ?thesis
  proof (cases "Suc k < length ts")
    case True
    then have "ts ! Suc k \<noteq> 0" using n(4) by (metis nth_mem)
    then show ?thesis using n assms True by (simp add: task_get_next_def nth_append)
  next
    case False
    then have "Suc k = length ts" using assms(2) by simp
    then show ?thesis using n assms by (simp add: task_get_next_def nth_append)
  qed
qed

text \<open>\<^verbatim>\<open>task_get_next\<close> does not move on while the current task stays the same.\<close>

lemma next_ready_returns:
  assumes "next_ready start nxt s = Some y"
  shows "nxt = task_get_next s \<longrightarrow> nxt = start \<or> t_state (tasks s nxt) = TASK_READY"
proof (rule next_ready.raw_induct [where P = "\<lambda>start nxt s y. nxt = task_get_next s \<longrightarrow>
    nxt = start \<or> t_state (tasks s nxt) = TASK_READY", OF _ assms])
  fix next_ready start nxt y and s :: "'a proc_st_scheme"
  assume "\<And>start nxt s y. next_ready start nxt s = Some y \<Longrightarrow>
      nxt = task_get_next s \<longrightarrow> nxt = start \<or> t_state (tasks s nxt) = TASK_READY"
    and "(if nxt = start then Some nxt else if t_state (tasks s nxt) = TASK_READY then Some nxt
      else next_ready start (task_get_next s) s) = Some y"
  then show "nxt = task_get_next s \<longrightarrow> nxt = start \<or> t_state (tasks s nxt) = TASK_READY"
    by (auto split: if_splits)
qed

lemma next_ready_eq:
  "next_ready start (task_get_next s) s =
     (if task_get_next s = start \<or> t_state (tasks s (task_get_next s)) = TASK_READY then Some (task_get_next s) else None)"
proof (cases "next_ready start (task_get_next s) s")
  case None
  then show ?thesis by (subst (asm) next_ready.simps) (auto split: if_splits)
next
  case (Some y)
  then have "task_get_next s = start \<or> t_state (tasks s (task_get_next s)) = TASK_READY"
    using next_ready_returns by blast
  then show ?thesis by (subst next_ready.simps) auto
qed

text \<open>The state in which the clock handler looks for the next task.\<close>

definition preempt :: "interrupt_frame \<Rightarrow> 'a proc_st_scheme \<Rightarrow> 'a proc_st_scheme" where
  "preempt frame s = upd_task (curr_task s) (\<lambda>t. t\<lparr>regs := frame_registers frame, t_state := TASK_READY\<rparr>) s"

lemma save_state_eq:
  assumes "curr_task s \<noteq> 0"
  shows "task_save_current_state frame s = Ret () (upd_task (curr_task s) (\<lambda>t. t\<lparr>regs := frame_registers frame\<rparr>) s)"
proof -
  have "(regs t)\<lparr>r_eip := f_eip frame, r_cs := f_cs frame, r_eflags := f_eflags frame, r_esp := f_esp frame,
      r_ss := f_ss frame, r_eax := f_eax frame, r_ebp := f_ebp frame, r_ebx := f_ebx frame, r_ecx := f_ecx frame,
      r_edi := f_edi frame, r_edx := f_edx frame, r_esi := f_esi frame\<rparr> = frame_registers frame" for t :: task
    by (simp add: frame_registers_def)
  then show ?thesis using assms by (simp add: task_save_current_state_def)
qed

lemma clock_eq:
  assumes "curr_task s \<noteq> 0" and "t_state (tasks s (curr_task s)) = TASK_RUNNING"
    and "interrupt_call_backs s 0x20 = Cb_handle_clock"
  shows "interrupt_stub port 0x20 frame s =
    (let u = preempt frame s; nxt = task_get_next u
     in if nxt = curr_task s \<or> t_state (tasks u nxt) = TASK_READY
        then bindO (bindO (task_switch_and_run nxt u) (\<lambda>_ s. Ret () s)) (\<lambda>_ s. UserMode (s\<lparr>cpu := frame_registers frame\<rparr>))
        else Diverges)"
proof -
  let ?c = "curr_task s"
  have "task_save_current_state frame s = Ret () (upd_task ?c (\<lambda>t. t\<lparr>regs := frame_registers frame\<rparr>) s)"
    by (rule save_state_eq [OF assms(1)])
  moreover have "upd_task ?c (\<lambda>t. t\<lparr>t_state := TASK_READY\<rparr>) (upd_task ?c (\<lambda>t. t\<lparr>regs := frame_registers frame\<rparr>) s) =
      preempt frame s" by (simp add: preempt_def upd_task_def)
  moreover have "curr_task (preempt frame s) = ?c" by (simp add: preempt_def)
  ultimately show ?thesis
    using assms next_ready_eq [of ?c "preempt frame s"]
    by (simp add: interrupt_stub_def interrupt_handler_def run_call_back_def idt_handle_clock_def
        task_switch_to_next_and_run_def Let_def)
qed

text \<open>C6: when the clock interrupts a running task whose successor in the task list is another task that is not
  ready, for instance a process that has exited and has not been waited for, the kernel never
  returns from the interrupt.\<close>

theorem clock_hangs:
  assumes "task_list s ts" and "k < length ts" and "curr_task s = ts ! k" and "1 < length ts"
    and "t_state (tasks s (ts ! k)) = TASK_RUNNING" and "t_state (tasks s (ts ! (Suc k mod length ts))) \<noteq> TASK_READY"
    and "interrupt_call_backs s 0x20 = Cb_handle_clock"
  shows "interrupt_stub port 0x20 frame s = Diverges"
proof -
  have d: "distinct ts" "0 \<notin> set ts" using assms(1) by (auto simp: task_list_def)
  have j: "Suc k mod length ts < length ts" "Suc k mod length ts \<noteq> k"
    using assms(2,4) by (auto simp: mod_Suc)
  then have ne: "ts ! (Suc k mod length ts) \<noteq> ts ! k" using d assms(2) by (simp add: nth_eq_iff_index_eq)
  have "task_list (preempt frame s) ts"
    using assms(1) by (auto simp: preempt_def task_list_def intro!: iffD2 [OF links_cong, of _ _ "tasks s"])
  then have "task_get_next (preempt frame s) = ts ! (Suc k mod length ts)"
    using assms(2,3) by (intro task_get_next_list) (auto simp: preempt_def)
  moreover have "ts ! k \<noteq> 0" using d(2) assms(2) by (metis nth_mem)
  ultimately show ?thesis
    using clock_eq [of s port frame] assms(3,5-7) ne by (simp add: preempt_def)
qed

theorem clock_hangs_witness:
  "interrupt_stub (0, 0) 0x20 (demo_frame 1) (three_tasks TASK_DEAD) = Diverges"
  by (rule clock_hangs [of _ three_addrs 0]) (simp_all add: three_tasks_list, simp_all add: three_tasks_def demo_task_def)

text \<open>The tasks of the list take turns: all are ready but the one that runs.\<close>

definition taking_turns :: "addr list \<Rightarrow> nat \<Rightarrow> 'a intr_st_scheme \<Rightarrow> bool" where
  "taking_turns ts k s \<longleftrightarrow> task_list s ts \<and> k < length ts \<and> curr_task s = ts ! k \<and> one_running s \<and>
     t_state (tasks s (ts ! k)) = TASK_RUNNING \<and> (\<forall>t \<in> set ts. startable s t) \<and>
     (\<forall>t \<in> set ts. t \<noteq> ts ! k \<longrightarrow> t_state (tasks s t) = TASK_READY) \<and>
     interrupt_call_backs s 0x20 = Cb_handle_clock"

inductive clock_run :: "'a intr_st_scheme \<Rightarrow> interrupt_frame list \<Rightarrow> 'a intr_st_scheme \<Rightarrow> bool" where
  no_tick: "clock_run s [] s"
| tick: "interrupt_stub port 0x20 frame s = UserMode t \<Longrightarrow> clock_run t frames u \<Longrightarrow> clock_run s (frame # frames) u"

inductive_cases clock_run_NilE: "clock_run s [] u"
inductive_cases clock_run_ConsE: "clock_run s (frame # frames) u"

lemma clock_tick:
  assumes "taking_turns ts k s"
  shows "\<exists>u. interrupt_stub port 0x20 frame s = UserMode u \<and> taking_turns ts (Suc k mod length ts) u \<and>
    runs (ts ! (Suc k mod length ts)) u \<and> regs (tasks u (ts ! k)) = frame_registers frame \<and>
    (\<forall>x. x \<noteq> ts ! k \<longrightarrow> regs (tasks u x) = regs (tasks s x))"
proof -
  note tt = assms [unfolded taking_turns_def]
  let ?n = "ts ! (Suc k mod length ts)" and ?p = "preempt frame s"
  have d: "distinct ts" "0 \<notin> set ts" "ts ! k \<in> set ts" using tt by (auto simp: task_list_def)
  have lt: "Suc k mod length ts < length ts" using tt by (intro mod_less_divisor) auto
  then have n: "?n \<in> set ts" by (rule nth_mem)
  have p: "task_list ?p ts" "curr_task ?p = ts ! k" "procs ?p = procs s" "interrupt_call_backs ?p = interrupt_call_backs s"
    "tasks ?p = (tasks s)(ts ! k := (tasks s (ts ! k))\<lparr>regs := frame_registers frame, t_state := TASK_READY\<rparr>)"
    using tt by (auto simp: preempt_def task_list_def upd_task_def intro!: iffD2 [OF links_cong, of _ _ "tasks s"])
  have nx: "task_get_next ?p = ?n" using p tt by (intro task_get_next_list) auto
  have r: "t_state (tasks ?p ?n) = TASK_READY" using p(5) n tt by auto
  have st: "startable ?p t" if "t \<in> set ts" for t using that tt p(3,5) by (auto simp: startable_def)
  from switch_and_run [OF r st [OF n]] obtain u where
    u: "task_switch_and_run ?n ?p = UserMode u" "runs ?n u" "tasks u = switched ?n ?p" "switch_frame ?p u" by blast
  have T: "tasks u = (tasks ?p)(?n := (tasks ?p ?n)\<lparr>t_state := TASK_RUNNING\<rparr>)"
    using u(3) p(2,5) by (simp add: switched_def Let_def)
  have "curr_task s \<noteq> 0" using tt d by (metis nth_mem)
  then have "interrupt_stub port 0x20 frame s = UserMode u"
    using clock_eq [of s port frame] tt nx u(1) r by (simp add: Let_def)
  moreover have "interrupt_call_backs u = interrupt_call_backs s"
    using u(4) p(4) by (auto simp: switch_frame_def)
  moreover have "task_list u ts"
    using p(1) switch_frame_fields [OF u(4)] links_cong [of ts "tasks u" "tasks ?p"]
    by (simp add: task_list_def T)
  moreover have "one_running u"
    using tt u(2) by (auto simp: one_running_def runs_def T p(5) split: if_splits)
  ultimately show ?thesis
    using tt u(2) st switch_frame_fields(3) [OF u(4)] n lt
    by (auto simp: taking_turns_def runs_def T p(3,5) startable_def)
qed

lemma clock_run_exists:
  assumes "taking_turns ts k s"
  shows "\<exists>u. clock_run s frames u"
  using assms
proof (induction frames arbitrary: s k)
  case (Cons frame frames)
  from clock_tick [OF Cons.prems, of "(0, 0)" frame] Cons.IH show ?case by (blast intro: tick)
qed (blast intro: no_tick)

lemma clock_run_turns:
  "clock_run s frames u \<Longrightarrow> taking_turns ts k s \<Longrightarrow> taking_turns ts ((k + length frames) mod length ts) u \<and>
     (frames \<noteq> [] \<longrightarrow> runs (ts ! ((k + length frames) mod length ts)) u) \<and>
     (\<forall>p < length ts. (\<forall>j < length frames. (k + j) mod length ts \<noteq> p) \<longrightarrow> regs (tasks u (ts ! p)) = regs (tasks s (ts ! p)))"
proof (induction arbitrary: k rule: clock_run.induct)
  case (no_tick s)
  then show ?case by (auto simp: taking_turns_def)
next
  case (tick port frame s t frames u)
  let ?n = "length ts"
  note tt = tick.prems [unfolded taking_turns_def]
  have d: "distinct ts" using tt by (simp add: task_list_def)
  from clock_tick [OF tick.prems, of port frame] tick.hyps(1) have
    t: "taking_turns ts (Suc k mod ?n) t" "runs (ts ! (Suc k mod ?n)) t"
      "\<forall>x. x \<noteq> ts ! k \<longrightarrow> regs (tasks t x) = regs (tasks s x)" by auto
  note ih = tick.IH [OF t(1)]
  have sh: "(Suc k mod ?n + j) mod ?n = (k + Suc j) mod ?n" for j by (simp add: mod_add_left_eq)
  have "regs (tasks u (ts ! p)) = regs (tasks s (ts ! p))"
    if p: "p < ?n" "\<forall>j < length (frame # frames). (k + j) mod ?n \<noteq> p" for p
  proof -
    have "k \<noteq> p" using p(2) tt by (metis add_0_right length_Cons mod_less zero_less_Suc)
    then have "ts ! p \<noteq> ts ! k" using d p(1) tt by (simp add: nth_eq_iff_index_eq)
    moreover have "\<forall>j < length frames. (Suc k mod ?n + j) mod ?n \<noteq> p" using p(2) unfolding sh by auto
    ultimately show ?thesis using ih t(3) p(1) by metis
  qed
  moreover have "runs (ts ! ((k + length (frame # frames)) mod ?n)) u"
  proof (cases "frames = []")
    case True
    then show ?thesis using t(2) tick.hyps(2) by (auto elim: clock_run_NilE)
  qed (use ih sh in auto)
  ultimately show ?case using ih unfolding sh by simp
qed

text \<open>C1: while the tasks of the list take turns, clock interrupts never panic or hang. After \<open>n\<close> interrupts the \<open>n\<close>-th
  next task of the list, counted cyclically, runs; once every task has had its turn the task that was
  interrupted first continues with exactly the registers it was interrupted with.\<close>

theorem clock_round_robin:
  assumes "taking_turns ts k s"
  shows "(\<exists>u. clock_run s frames u) \<and>
    (\<forall>u. clock_run s frames u \<longrightarrow> taking_turns ts ((k + length frames) mod length ts) u \<and>
       (frames \<noteq> [] \<longrightarrow> runs (ts ! ((k + length frames) mod length ts)) u) \<and>
       (length frames = length ts \<longrightarrow> curr_task u = curr_task s \<and> cpu u = frame_registers (hd frames)))"
proof -
  note tt = assms [unfolded taking_turns_def]
  let ?n = "length ts"
  have "curr_task u = curr_task s \<and> cpu u = frame_registers (hd frames)"
    if run: "clock_run s frames u" and len: "length frames = ?n" for u
  proof -
    obtain frame rest where fr: "frames = frame # rest" using len tt by (cases frames) auto
    from run [unfolded fr] obtain port t where
      st: "interrupt_stub port 0x20 frame s = UserMode t" and rest: "clock_run t rest u" by (auto elim: clock_run_ConsE)
    from clock_tick [OF assms, of port frame] st have
      t: "taking_turns ts (Suc k mod ?n) t" "regs (tasks t (ts ! k)) = frame_registers frame" by auto
    have "(Suc k mod ?n + j) mod ?n \<noteq> k" if "j < length rest" for j
    proof
      assume "(Suc k mod ?n + j) mod ?n = k"
      then have "(k + Suc j) mod ?n = k mod ?n" using tt by (simp add: mod_add_left_eq)
      then have "?n dvd Suc j" by (metis add_diff_cancel_left' le_add1 mod_eq_dvd_iff_nat)
      with that len fr show False by (auto dest: dvd_imp_le)
    qed
    then have "regs (tasks u (ts ! k)) = frame_registers frame"
      using clock_run_turns [OF rest t(1)] t(2) tt by simp
    moreover have "runs (ts ! k) u"
      using clock_run_turns [OF run assms] len tt fr by (metis list.distinct(1) mod_add_self2 mod_less)
    ultimately show ?thesis using fr tt by (simp add: runs_def)
  qed
  then show ?thesis using clock_run_exists [OF assms] clock_run_turns [OF _ assms] by blast
qed

theorem clock_round_robin_witness:
  "\<exists>u. clock_run (three_tasks TASK_READY) [demo_frame 1, demo_frame 2, demo_frame 3] u \<and>
     curr_task u = 0x1000000 \<and> r_edi (cpu u) = 1"
proof -
  have "taking_turns three_addrs 0 (three_tasks TASK_READY)"
    using three_tasks_list [where st = TASK_READY]
    unfolding taking_turns_def by (auto simp: three_tasks_def demo_task_def)
  from clock_round_robin [OF this, of "[demo_frame 1, demo_frame 2, demo_frame 3]"] show ?thesis
    by (auto simp: three_tasks_list(4) frame_registers_def demo_frame_def)
qed

end
