(* ===== verification/User_Memory.thy ===== *)
theory User_Memory
  imports Scheduler
begin

text \<open>
  The system calls \<^verbatim>\<open>mmap\<close> and \<^verbatim>\<open>munmap\<close>: what they do to the address space of the calling task, to the
  heap and to the memory of everything else.
\<close>

section \<open>Page tables in the heap\<close>

text \<open>Mapping pages touches no memory but that of the page table.\<close>

lemma new_vpn_contents:
  assumes "pt_wf s pt" and "unat vpn < 1048576" and "paging_new_vpn_to_pfn pt vpn pfn f True s = (r, u)"
    and "(p, k) \<in> live s" and "(p, k) \<notin> pt_pages s pt"
  shows "(p, k) \<in> live u" and "(p, k) \<notin> pt_pages u pt" and "in_block a p (4096 * k) \<Longrightarrow> mem u a = mem s a"
proof -
  let ?i = "drop_bit 10 vpn"
  note idx = vpn_indices [OF assms(2)] and wf = pt_wfD [OF assms(1)]
  obtain q t where sl: "second_level pt ?i s = (q, t)" by fastforce
  show live: "(p, k) \<in> live u" using new_vpn_result(3) [OF assms(1-3)] assms(4) by blast
  have t: "mem t b = mem s b" if "(p', k') \<in> live s" "in_block b p' (4096 * k')" for b p' k'
    using sl kzalloc_page_keeps [OF wf(1) _ that] by (auto simp: second_level_def split: if_splits)
  have "(p, k) \<notin> pt_pages u pt \<and> (in_block a p (4096 * k) \<longrightarrow> mem u a = mem s a)"
  proof (cases "present (pt_get (cr3 pt) ?i s) \<or> q \<noteq> 0")
    case True
    then have u: "u = pt_set (cr3 pt) ?i (q OR ucast f) (pt_set q (vpn mod 1024) (pfn * 4096 OR ucast f) t)"
      using assms(3) sl by (auto simp: new_vpn_eq split: if_splits)
    note fresh = second_level_fresh [OF assms(1) idx(1) sl True]
    have pt: "(p, k) \<in> live t" "(cr3 pt, 1) \<in> live t" using fresh(3) assms(4) wf(2) by auto
    have "(q, 1) \<noteq> (p, k)"
    proof (cases "present (pt_get (cr3 pt) ?i s)")
      case True
      then have "(q, 1) \<in> pt_pages s pt"
        using sl idx(1) by (auto simp: second_level_def pt_pages_def word_less_nat_alt intro!: exI [of _ "unat ?i"])
      then show ?thesis using assms(5) by auto
    next
      case False
      then have "(q, 1) \<notin> live s"
        using sl True kzalloc_page(3) [OF wf(1), of q t] by (auto simp: second_level_def)
      then show ?thesis using assms(4) by auto
    qed
    then have ne: "q \<noteq> p" "cr3 pt \<noteq> p"
      using live_addr_unique [OF fresh(1) pt(1)] fresh(2) pt(2) assms(5) by (auto simp: pt_pages_def)
    let ?w = "pt_set q (vpn mod 1024) (pfn * 4096 OR ucast f) t"
    have w: "kheap_ok ?w" "(cr3 pt, 1) \<in> live ?w" "(p, k) \<in> live ?w" using fresh(1) pt by simp_all
    have "mem u a = mem s a" if a: "in_block a p (4096 * k)"
      using t [OF assms(4) a] set_field_other_byte [OF fresh(1,2) pt(1) ne(1) idx(2) a]
        set_field_other_byte [OF w ne(2) idx(1) a] by (simp add: u)
    moreover have "frame_of (pt_get (cr3 pt) (of_nat j) u) \<in> {q, frame_of (pt_get (cr3 pt) (of_nat j) s)} \<and>
        (frame_of (pt_get (cr3 pt) (of_nat j) u) \<noteq> q \<longrightarrow> present (pt_get (cr3 pt) (of_nat j) u) = present (pt_get (cr3 pt) (of_nat j) s))"
      if "j < 1024" for j
      using new_vpn_entries(1) [OF assms(1) idx sl True u of_nat_less_1024 [OF that]]
        frame_of_entry live_page_base [OF fresh(1,2)] by simp
    ultimately show ?thesis using assms(5) ne by (auto simp: pt_pages_def)
  next
    case False
    then have "u = t" "\<not> present (pt_get (cr3 pt) ?i s)" using assms(3) sl by (auto simp: new_vpn_eq split: if_splits)
    moreover from this have "pt_get (cr3 pt) (of_nat j) t = pt_get (cr3 pt) (of_nat j) s" if "j < 1024" for j
      using sl kzalloc_pt_get [OF wf(1) _ wf(2) of_nat_less_1024 [OF that]] by (simp add: second_level_def)
    ultimately show ?thesis using t [OF assms(4)] assms(5) by (auto simp: pt_pages_def)
  qed
  then show "(p, k) \<notin> pt_pages u pt" and "in_block a p (4096 * k) \<Longrightarrow> mem u a = mem s a" by auto
qed

lemma map_loop_contents:
  assumes "pt_wf s pt" and "unat ve \<le> 1048576" and "paging_map_loop pt vs ps i ve f s = (r, u)"
    and "(p, k) \<in> live s" and "(p, k) \<notin> pt_pages s pt" and "in_block a p (4096 * k)"
  shows "mem u a = mem s a"
  using assms
proof (induction pt vs ps i ve f s arbitrary: r u rule: paging_map_loop.induct)
  case (1 pt vs ps i ve f s)
  obtain r' t where n: "paging_new_vpn_to_pfn pt (vs + of_nat i) (ps + of_nat i) f True s = (r', t)" by fastforce
  show ?case
  proof (cases "i + unat vs < unat ve")
    case True
    then have v: "unat (vs + of_nat i) < 1048576"
      using 1(3) unat_add_small [of vs "of_nat i"] by (simp add: unat_of_nat32)
    note c = new_vpn_contents [OF 1(2) v n 1(5,6)]
    show ?thesis
    proof (cases "r' = STATUS_OK")
      case r: True
      have "paging_map_loop pt vs ps (Suc i) ve f t = (r, u)"
        using 1(4) True n r by (subst (asm) paging_map_loop.simps) simp
      then have "mem u a = mem t a"
        using 1(1) [OF True n [symmetric] refl, of r u] r new_vpn_result(2) [OF 1(2) v n] 1(3) c(1,2) 1(7) by simp
      then show ?thesis using c(3) 1(7) by simp
    next
      case False
      then have "u = t" using 1(4) True n by (subst (asm) paging_map_loop.simps) simp
      then show ?thesis using c(3) 1(7) by simp
    qed
  next
    case False
    then show ?thesis using 1(4) by (subst (asm) paging_map_loop.simps) simp
  qed
qed

lemma map_region_contents:
  assumes "pt_wf s pt" and "paging_map_memory_region pt va pa ve f s = (r, u)"
    and "(p, k) \<in> live s" and "(p, k) \<notin> pt_pages s pt" and "in_block a p (4096 * k)"
  shows "mem u a = mem s a"
proof -
  have "unat (ve div 4096) \<le> 1048576" using vpn_bound [of ve] by simp
  from map_loop_contents [OF assms(1) this _ assms(3-5)] show ?thesis
    using assms(2) by (auto simp: paging_map_memory_region_def Let_def split: if_splits)
qed

text \<open>A page table survives whatever keeps the live allocations and their contents.\<close>

lemma table_kept:
  assumes "pt_wf s pt" and "kheap_ok t" and "live s \<subseteq> live t"
    and keep: "\<And>p k a. (p, k) \<in> live s \<Longrightarrow> in_block a p (4096 * k) \<Longrightarrow> mem t a = mem s a"
  shows "pt_wf t pt" and "pt_pages t pt = pt_pages s pt" and "translate (mem t) (cr3 pt) a = translate (mem s) (cr3 pt) a"
    and "walk (mem t) (cr3 pt) (a div 4096) = walk (mem s) (cr3 pt) (a div 4096)"
proof -
  note wf = pt_wfD [OF assms(1)]
  have get: "pt_get p i t = pt_get p i s" if "(p, 1) \<in> live s" "i < 1024" for p i
    using keep [OF that(1)] live_page_base [OF wf(1) that(1)] that(2) by (intro pt_get_cong) simp_all
  note dir = get [OF wf(2)]
  have "(frame_of (pt_get (cr3 pt) i t), 1) \<in> live t \<and> frame_of (pt_get (cr3 pt) i t) \<noteq> cr3 pt"
    if "i < 1024" "present (pt_get (cr3 pt) i t)" for i
    using wf(4) [OF that(1)] that(2) assms(3) unfolding dir [OF that(1)] by blast
  moreover have "i = j" if "i < 1024" "j < 1024" "present (pt_get (cr3 pt) i t)" "present (pt_get (cr3 pt) j t)"
    "frame_of (pt_get (cr3 pt) i t) = frame_of (pt_get (cr3 pt) j t)" for i j
    using wf(5) [OF that(1,2)] that(3-5) unfolding dir [OF that(1)] dir [OF that(2)] by blast
  ultimately show "pt_wf t pt" using assms(2,3) wf(2) unfolding pt_wf_def by blast
  show "pt_pages t pt = pt_pages s pt"
    unfolding pt_pages_def using dir [OF of_nat_less_1024] by auto
  have i: "drop_bit 10 (a div 4096) < (1024 :: u32)" "a div 4096 mod 1024 < (1024 :: u32)"
    using vpn_indices [OF vpn_bound] by auto
  show "walk (mem t) (cr3 pt) (a div 4096) = walk (mem s) (cr3 pt) (a div 4096)"
    using dir [OF i(1)] get [OF conjunct1 [OF wf(4) [OF i(1)]] i(2)]
    by (cases "present (pt_get (cr3 pt) (drop_bit 10 (a div 4096)) s)") (simp_all add: walk_pt Let_def)
  then show "translate (mem t) (cr3 pt) a = translate (mem s) (cr3 pt) a" by (simp add: translate_def)
qed

lemma pt_pages_live:
  assumes "pt_wf s pt"
  shows "pt_pages s pt \<subseteq> live s"
  using pt_wfD(2) [OF assms] pt_wfD(4) [OF assms of_nat_less_1024] unfolding pt_pages_def by blast

lemma aligned_iff: "a = paging_down_align_addr a \<longleftrightarrow> is_page_aligned a" "a = paging_up_align_addr a \<longleftrightarrow> is_page_aligned a"
proof -
  have m: "is_page_aligned a \<longleftrightarrow> a mod 4096 = 0"
    unfolding page_aligned_base page_base_def unat_mod_4096 [symmetric] unat_eq_0 by simp
  have "a mod 4096 < 4096" unfolding word_less_nat_alt unat_mod_4096 by simp
  then have "4096 - a mod 4096 \<noteq> 0" by (metis eq_iff_diff_eq_0 less_irrefl)
  then show "a = paging_down_align_addr a \<longleftrightarrow> is_page_aligned a" "a = paging_up_align_addr a \<longleftrightarrow> is_page_aligned a"
    unfolding m by (auto simp: paging_down_align_addr_def paging_up_align_addr_def)
qed

section \<open>\<^verbatim>\<open>mmap\<close>\<close>

lemma upd_proc_heap [simp]:
  "kheap_ok (upd_proc i f s) = kheap_ok s" "live (upd_proc i f s) = live s" "mem (upd_proc i f s) = mem s"
  "tasks (upd_proc i f s) = tasks s" "curr_task (upd_proc i f s) = curr_task s"
  "tasks_ll_head (upd_proc i f s) = tasks_ll_head s" "tasks_ll_tail (upd_proc i f s) = tasks_ll_tail s"
  "procs (upd_proc i f s) = (procs s)(i := f (procs s i))" "cr3_reg (upd_proc i f s) = cr3_reg s" "tlb (upd_proc i f s) = tlb s"
  by (simp_all add: upd_proc_def kheap_ok_def heap_geometry_def table_guard_def live_def live_blocks_def
      kheap_block_to_addr_def)

lemma add_vmem_block_ok:
  assumes "process_add_vmem_block proc va ve s = (i, u)" and "\<not> i < 0"
  shows "nat i < 10 \<and> vmem_blocks_start (procs s proc) (nat i) = 0 \<and>
    u = upd_proc proc (\<lambda>p. p\<lparr>vmem_blocks_start := (vmem_blocks_start p)(nat i := va),
          vmem_blocks_end := (vmem_blocks_end p)(nat i := ve)\<rparr>) s"
  using assms by (auto simp: process_add_vmem_block_def split: option.splits dest!: first_index_Some)

lemma mmap_checked_eq:
  "mmap_checked va ve fl proc s =
     (if \<not> is_page_aligned va \<or> \<not> is_page_aligned ve then (- STATUS_INVALID_ARG, s)
      else if va < KHEAP_SAFE_BOUNDARY \<or> ve < KHEAP_SAFE_BOUNDARY \<or> ve \<le> va
      then (- STATUS_INVALID_USER_MEM_ACCESS, s)
      else let (pa, t) = kzalloc (ve - va) s
           in if pa = 0 then (- STATUS_NOT_ENOUGH_MEM, t)
              else let (i, v) = process_add_vmem_block proc va ve t
                   in if i < 0 then (i, snd (kfree pa v))
                      else let (res, w) = paging_map_memory_region (page_table (tasks t (curr_task t))) va pa ve
                                 (if fl AND O_WRITE \<noteq> 0 then 7 else 5) v
                           in if res \<noteq> STATUS_OK
                              then (res, snd (kfree pa (upd_proc proc
                                     (\<lambda>p. p\<lparr>vmem_blocks_start := (vmem_blocks_start p)(nat i := 0),
                                            vmem_blocks_end := (vmem_blocks_end p)(nat i := 0)\<rparr>) w)))
                              else (STATUS_OK, w))"
proof (cases "is_page_aligned va \<and> is_page_aligned ve")
  case True
  then have "paging_down_align_addr va = va" "paging_up_align_addr ve = ve" using aligned_iff by metis+
  moreover have "(if fl AND O_WRITE \<noteq> 0 then PAGE_PRESENT OR PAGE_USER_ACCESS_ALLOW OR PAGE_WRITE_ALLOW
      else PAGE_PRESENT OR PAGE_USER_ACCESS_ALLOW) = (if fl AND O_WRITE \<noteq> 0 then 7 else 5 :: u8)" by simp
  moreover have "verify_user_pointer p \<noteq> STATUS_OK \<longleftrightarrow> p < KHEAP_SAFE_BOUNDARY" for p
    by (simp add: verify_user_pointer_def)
  ultimately show ?thesis using True
    by (simp only: mmap_checked_def Let_def) (simp split del: if_split cong: if_cong)
next
  case False
  then have "va \<noteq> paging_down_align_addr va \<or> ve \<noteq> paging_up_align_addr ve" using aligned_iff by metis
  with False show ?thesis by (simp add: mmap_checked_def Let_def)
qed

text \<open>The steps of a successful call.\<close>

lemma mmap_steps:
  assumes "mmap_checked va ve fl proc s = (STATUS_OK, u)"
  obtains pa t v i where "is_page_aligned va" and "is_page_aligned ve" and "KHEAP_SAFE_BOUNDARY \<le> va" and "va < ve"
    and "kzalloc (ve - va) s = (pa, t)" and "pa \<noteq> 0"
    and "process_add_vmem_block proc va ve t = (i, v)" and "\<not> i < 0"
    and "paging_map_memory_region (page_table (tasks t (curr_task t))) va pa ve
           (if fl AND O_WRITE \<noteq> 0 then 7 else 5) v = (STATUS_OK, u)"
proof -
  obtain pa t where z: "kzalloc (ve - va) s = (pa, t)" by fastforce
  obtain i v where b: "process_add_vmem_block proc va ve t = (i, v)" by fastforce
  obtain r w where m: "paging_map_memory_region (page_table (tasks t (curr_task t))) va pa ve
      (if fl AND O_WRITE \<noteq> 0 then 7 else 5) v = (r, w)" by fastforce
  from assms have g: "is_page_aligned va" "is_page_aligned ve" "KHEAP_SAFE_BOUNDARY \<le> va" "va < ve"
    by (auto simp: mmap_checked_eq not_less split: if_splits)
  moreover have "pa \<noteq> 0" "\<not> i < 0" "r = STATUS_OK" "w = u"
    using assms g z b m by (auto simp: mmap_checked_eq Let_def not_less split: if_splits)
  ultimately show ?thesis using that z b m by blast
qed

text \<open>The memory that backs the range.\<close>

lemma mmap_memory:
  assumes "kheap_ok s" and "KHEAP_SAFE_BOUNDARY \<le> va" and "va < ve"
    and z: "kzalloc (ve - va) s = (pa, t)" "pa \<noteq> 0"
  shows "live t = insert (pa, pages_of (ve - va)) (live s)" and "(pa, pages_of (ve - va)) \<notin> live s"
    and "kheap_ok t" and "is_page_aligned pa"
    and "(p, k) \<in> live s \<Longrightarrow> in_block a p (4096 * k) \<Longrightarrow> mem t a = mem s a"
    and "va \<le> b \<Longrightarrow> b < ve \<Longrightarrow> in_block (pa + (b - va)) pa (4096 * pages_of (ve - va)) \<and> mem t (pa + (b - va)) = 0"
proof -
  let ?k = "pages_of (ve - va)"
  have n: "unat (ve - va) = unat ve - unat va"
    using assms(3) by (simp add: unat_sub word_less_nat_alt word_le_nat_alt)
  have "0x8000000 \<le> unat va" using assms(2) by (simp add: word_le_nat_alt)
  then have "unat ve - unat va \<le> 4294963200" using unat_u32_bound [of ve] by linarith
  then have sz: "unat (ve - va) \<le> 2 ^ 32 - 4096" unfolding n by simp
  show new: "live t = insert (pa, ?k) (live s)" and "(pa, ?k) \<notin> live s" and ok: "kheap_ok t"
    using kh.alloc_new [OF assms(1) z] kh.alloc_ok [OF assms(1) z(1)] by auto
  show "is_page_aligned pa"
    using kh.allocated_aligned [OF ok, of pa ?k] new by (simp add: page_aligned_base page_base_def)
  show "(p, k) \<in> live s \<Longrightarrow> in_block a p (4096 * k) \<Longrightarrow> mem t a = mem s a"
    using kh.alloc_keeps_contents [OF assms(1) z sz] .
  show "in_block (pa + (b - va)) pa (4096 * ?k) \<and> mem t (pa + (b - va)) = 0" if "va \<le> b" "b < ve"
  proof -
    have "unat (b - va) < unat (ve - va)"
      using that n by (simp add: unat_sub word_le_nat_alt word_less_nat_alt)
    then have "in_block (pa + (b - va)) pa (unat (ve - va))" by (simp add: in_block_def)
    moreover from this have "in_block (pa + (b - va)) pa (4096 * ?k)"
      using kh.nblocks_cover [OF sz] by (simp add: in_block_def)
    ultimately show ?thesis using kh.alloc_contents [OF assms(1) z(1)] by simp
  qed
qed

text \<open>The page table when its pages are entered: still that of the caller, with the memory of the range allocated.\<close>

lemma mmap_mapped:
  assumes "pt = page_table (tasks s (curr_task s))" and "pt_wf s pt"
    and "mmap_checked va ve fl proc s = (STATUS_OK, u)"
  obtains pa t v i where "is_page_aligned va" and "is_page_aligned ve" and "KHEAP_SAFE_BOUNDARY \<le> va" and "va < ve"
    and "kzalloc (ve - va) s = (pa, t)" and "pa \<noteq> 0"
    and "process_add_vmem_block proc va ve t = (i, v)" and "\<not> i < 0"
    and "mem v = mem t" and "live v = live t" and "pt_wf v pt" and "pt_pages v pt = pt_pages s pt"
    and "\<And>a. walk (mem v) (cr3 pt) (a div 4096) = walk (mem s) (cr3 pt) (a div 4096)"
    and "paging_map_memory_region pt va pa ve (if fl AND O_WRITE \<noteq> 0 then 7 else 5) v = (STATUS_OK, u)"
proof -
  obtain pa t v i where
    g: "is_page_aligned va" "is_page_aligned ve" "KHEAP_SAFE_BOUNDARY \<le> va" "va < ve" and
    z: "kzalloc (ve - va) s = (pa, t)" "pa \<noteq> 0" and
    b: "process_add_vmem_block proc va ve t = (i, v)" "\<not> i < 0" and
    m: "paging_map_memory_region (page_table (tasks t (curr_task t))) va pa ve
          (if fl AND O_WRITE \<noteq> 0 then 7 else 5) v = (STATUS_OK, u)"
    by (rule mmap_steps [OF assms(3)])
  note new = mmap_memory [OF pt_wfD(1) [OF assms(2)] g(3,4) z]
  note fr = heap_frame_proc [OF kzalloc_frame [OF z(1)]] and bl = add_vmem_block_ok [OF b]
  note tk = table_kept [OF assms(2) new(3) _ new(5), unfolded new(1), OF subset_insertI]
  have v: "mem v = mem t" "live v = live t" "kheap_ok v = kheap_ok t" using bl by auto
  show ?thesis
  proof (rule that [OF g z b v(1,2)])
    show "pt_wf v pt" "pt_pages v pt = pt_pages s pt"
      using tk pt_wf_cong [OF v(3,2,1)] pt_pages_cong [OF v(1)] by auto
    show "walk (mem v) (cr3 pt) (a div 4096) = walk (mem s) (cr3 pt) (a div 4096)" for a using tk(4) v(1) by simp
    show "paging_map_memory_region pt va pa ve (if fl AND O_WRITE \<noteq> 0 then 7 else 5) v = (STATUS_OK, u)"
      using m assms(1) fr by simp
  qed
qed

text \<open>C7: a successful \<^verbatim>\<open>mmap\<close> maps every address of the page-aligned range, which lies above the kernel, to memory
  that was free before, is now allocated, is filled with zeros and has just the access rights asked
  for. All other addresses of the task translate as before, every other live allocation keeps its
  contents, and the range is entered in a free slot of the process.\<close>

theorem mmap_maps_fresh_memory:
  assumes "pt = page_table (tasks s (curr_task s))" and "pt_wf s pt"
    and "mmap_checked va ve fl proc s = (STATUS_OK, u)"
  shows "\<exists>pa k i. KHEAP_SAFE_BOUNDARY \<le> va \<and> va < ve \<and> (pa, k) \<notin> live s \<and> (pa, k) \<in> live u \<and> pt_wf u pt \<and>
    (\<forall>a. va \<le> a \<longrightarrow> a < ve \<longrightarrow> in_block (pa + (a - va)) pa (4096 * k) \<and>
       translate (mem u) (cr3 pt) a = Some (pa + (a - va)) \<and>
       map_option snd (walk (mem u) (cr3 pt) (a div 4096)) = Some (if fl AND O_WRITE \<noteq> 0 then 7 else 5) \<and>
       mem u (pa + (a - va)) = 0) \<and>
    (\<forall>a. a < va \<or> ve \<le> a \<longrightarrow> translate (mem u) (cr3 pt) a = translate (mem s) (cr3 pt) a) \<and>
    (\<forall>p k a. (p, k) \<in> live s - pt_pages s pt \<longrightarrow> in_block a p (4096 * k) \<longrightarrow> mem u a = mem s a) \<and>
    i < 10 \<and> vmem_blocks_start (procs s proc) i = 0 \<and>
    vmem_blocks_start (procs u proc) = (vmem_blocks_start (procs s proc))(i := va) \<and>
    vmem_blocks_end (procs u proc) = (vmem_blocks_end (procs s proc))(i := ve)"
proof -
  obtain pa t v i where
    g: "is_page_aligned va" "is_page_aligned ve" "KHEAP_SAFE_BOUNDARY \<le> va" "va < ve" and
    z: "kzalloc (ve - va) s = (pa, t)" "pa \<noteq> 0" and
    b: "process_add_vmem_block proc va ve t = (i, v)" "\<not> i < 0" and
    v: "mem v = mem t" "live v = live t" and
    wf: "pt_wf v pt" "pt_pages v pt = pt_pages s pt" and
    w: "\<And>a. walk (mem v) (cr3 pt) (a div 4096) = walk (mem s) (cr3 pt) (a div 4096)" and
    m: "paging_map_memory_region pt va pa ve (if fl AND O_WRITE \<noteq> 0 then 7 else 5) v = (STATUS_OK, u)"
    by (rule mmap_mapped [OF assms]) blast
  let ?k = "pages_of (ve - va)" and ?f = "if fl AND O_WRITE \<noteq> 0 then 7 else 5 :: u8"
  note new = mmap_memory [OF pt_wfD(1) [OF assms(2)] g(3,4) z]
  note fr = heap_frame_proc [OF kzalloc_frame [OF z(1)]] and bl = add_vmem_block_ok [OF b]
  have bit: "bit ?f 0" by simp
  note r = map_region_result [OF wf(1) bit g(1) new(4) g(2,4) m]
  have own: "(pa, ?k) \<notin> pt_pages v pt" "(pa, ?k) \<in> live v" "live v = insert (pa, ?k) (live s)"
    using pt_pages_live [OF assms(2)] new(1,2) v(2) unfolding wf(2) by auto
  have "in_block (pa + (a - va)) pa (4096 * ?k) \<and> mem u (pa + (a - va)) = 0" if "va \<le> a" "a < ve" for a
    using map_region_contents [OF wf(1) m own(2,1)] new(6) [OF that] v(1) by simp
  moreover have "mem u a = mem s a" if "(p, k) \<in> live s - pt_pages s pt" "in_block a p (4096 * k)" for p k a
    using map_region_contents [OF wf(1) m, of p k a] that new(5) own(3) wf(2) v(1) by auto
  moreover have "translate (mem v) (cr3 pt) a = translate (mem s) (cr3 pt) a" for a using w by (simp add: translate_def)
  moreover have "procs u = procs v" using heap_frame_proc(5) [OF map_region_frame [OF m]] .
  ultimately show ?thesis
    using g(3,4) own(2,3) new(2) r bl fr(5)
    by (intro exI [of _ pa] exI [of _ ?k] exI [of _ "nat i"]) (auto simp: if_distrib)
qed

section \<open>\<^verbatim>\<open>munmap\<close>\<close>

lemma free_vpn_frame:
  "procs (snd (paging_free_vpn pt v s)) = procs s" "tasks (snd (paging_free_vpn pt v s)) = tasks s"
  by (simp_all add: paging_free_vpn_def Let_def native_flush_tlb_single_def pt_set_def)

lemma free_vpns_frame:
  "procs (paging_free_vpns pt a b s) = procs s \<and> tasks (paging_free_vpns pt a b s) = tasks s"
proof -
  have "procs (fold (\<lambda>i s. snd (paging_free_vpn pt (of_nat i) s)) xs s) = procs s \<and>
      tasks (fold (\<lambda>i s. snd (paging_free_vpn pt (of_nat i) s)) xs s) = tasks s" for xs
    by (induction xs arbitrary: s) (simp_all add: free_vpn_frame)
  then show ?thesis by (simp add: paging_free_vpns_def)
qed

lemma free_va_frame:
  "procs (snd (paging_free_va pt a b s)) = procs s" "tasks (snd (paging_free_va pt a b s)) = tasks s"
  by (simp_all add: paging_free_va_def Let_def free_vpns_frame)

text \<open>C8: \<^verbatim>\<open>munmap\<close> of the start of an entered range removes the range from the address space and from the TLB and
  frees its slot; addresses outside translate as before. The memory behind the range stays
  allocated: it is never given back to the heap. An address other than 0 that starts no range is refused with
  a negative status and nothing changes.\<close>

theorem munmap_unmaps:
  assumes "pt = page_table (tasks s (p_task (procs s proc)))" and "pt_wf s pt"
    and "\<And>i. vmem_blocks_start (procs s proc) i = va \<Longrightarrow> is_page_aligned va \<and>
           is_page_aligned (vmem_blocks_end (procs s proc) i) \<and> va \<le> vmem_blocks_end (procs s proc) i"
    and "process_free_vmem_block proc va s = (r, u)" and "va \<noteq> 0"
  shows "if \<forall>i < 10. vmem_blocks_start (procs s proc) i \<noteq> va then r < 0 \<and> u = s
    else \<exists>i < 10. vmem_blocks_start (procs s proc) i = va \<and> r = STATUS_OK \<and> live u = live s \<and> pt_wf u pt \<and>
      (\<forall>a. va \<le> a \<longrightarrow> a < vmem_blocks_end (procs s proc) i \<longrightarrow> translate (mem u) (cr3 pt) a = None \<and>
         (translate (mem s) (cr3 pt) a \<noteq> None \<longrightarrow> tlb u (a div 4096) = None)) \<and>
      (\<forall>a. a < va \<or> vmem_blocks_end (procs s proc) i \<le> a \<longrightarrow>
         translate (mem u) (cr3 pt) a = translate (mem s) (cr3 pt) a) \<and>
      vmem_blocks_start (procs u proc) = (vmem_blocks_start (procs s proc))(i := 0)"
proof (cases "first_index (\<lambda>i. vmem_blocks_start (procs s proc) i = va) 10 0")
  case None
  then show ?thesis
    using assms(4) first_index_None [of "\<lambda>i. vmem_blocks_start (procs s proc) i = va" 10 0]
    by (auto simp: process_free_vmem_block_def process_get_vmem_block_def)
next
  case (Some i)
  then have i: "i < 10" "vmem_blocks_start (procs s proc) i = va" using first_index_Some by force+
  let ?ve = "vmem_blocks_end (procs s proc) i"
  obtain r' t where f: "paging_free_va pt va ?ve s = (r', t)" by fastforce
  have al: "is_page_aligned va" "is_page_aligned ?ve" "va \<le> ?ve" using assms(3) [OF i(2)] by auto
  note fr = free_va_result [OF assms(2) al(3) f]
  have u: "r = STATUS_OK" "u = upd_proc proc (\<lambda>p. p\<lparr>vmem_blocks_start := (vmem_blocks_start p)(i := 0),
      vmem_blocks_end := (vmem_blocks_end p)(i := 0)\<rparr>) t"
    using assms(4) f Some assms(1) by (auto simp: process_free_vmem_block_def process_get_vmem_block_def Let_def)
  have m0: "?ve mod 4096 = 0"
    using al(2) unfolding page_aligned_base page_base_def unat_mod_4096 [symmetric] unat_eq_0 .
  have ord: "a < x \<longleftrightarrow> a div 4096 < x div 4096" if "is_page_aligned x" for a x :: u32
    using page_order that by (simp add: page_aligned_base word_less_nat_alt)
  have "translate (mem t) (cr3 pt) a = None \<and> (translate (mem s) (cr3 pt) a \<noteq> None \<longrightarrow> tlb t (a div 4096) = None)"
    if "va \<le> a" "a < ?ve" for a
    using fr that ord [OF al(1), of a] ord [OF al(2), of a] m0 by (simp add: not_less [symmetric])
  moreover have "translate (mem t) (cr3 pt) a = translate (mem s) (cr3 pt) a" if "a < va \<or> ?ve \<le> a" for a
    using fr that ord [OF al(1), of a] ord [OF al(2), of a] m0 by (auto simp: not_less [symmetric] dest: not_less_iff_gr_or_eq [THEN iffD1])
  moreover have "pt_wf u pt = pt_wf t pt" using u(2) by (intro pt_wf_cong) simp_all
  moreover have "procs t = procs s" using free_va_frame(1) [of pt va ?ve s] f by simp
  moreover have "\<not> (\<forall>i < 10. vmem_blocks_start (procs s proc) i \<noteq> va)" using i by blast
  ultimately show ?thesis using i u fr by (simp only: if_False if_not_P) (intro exI [of _ i], simp)
qed

text \<open>The status of a refused address is not the one the comment on \<^verbatim>\<open>syscall_munmap\<close> names. A free slot is
  recorded as starting at 0, so that address is not refused while a slot is free: the call reports
  success and unmaps nothing.\<close>

lemma munmap_unknown:
  "\<forall>i < 10. vmem_blocks_start (procs s proc) i \<noteq> va \<Longrightarrow> process_free_vmem_block proc va s = (- STATUS_INVALID_ARG, s)"
  using first_index_None [of "\<lambda>i. vmem_blocks_start (procs s proc) i = va" 10 0]
  by (cases "first_index (\<lambda>i. vmem_blocks_start (procs s proc) i = va) 10 0")
    (auto simp: process_free_vmem_block_def process_get_vmem_block_def dest: first_index_Some)

lemma munmap_null:
  assumes "vmem_blocks_start (procs s proc) i = 0" and "i < 10"
    and "\<And>i. vmem_blocks_start (procs s proc) i = 0 \<Longrightarrow> vmem_blocks_end (procs s proc) i = 0"
  shows "\<exists>u. process_free_vmem_block proc 0 s = (STATUS_OK, u) \<and> mem u = mem s"
proof -
  obtain j where j: "first_index (\<lambda>i. vmem_blocks_start (procs s proc) i = 0) 10 0 = Some j"
    using assms(1,2) first_index_None [of "\<lambda>i. vmem_blocks_start (procs s proc) i = 0" 10 0] by fastforce
  then have "vmem_blocks_end (procs s proc) j = 0" using first_index_Some [OF j] assms(3) by blast
  then show ?thesis
    using j by (simp add: process_free_vmem_block_def process_get_vmem_block_def Let_def paging_free_va_def
        paging_free_vpns_def upd_proc_def split_def)
qed

section \<open>A concrete user task\<close>

definition user_state :: kernel_st where
  "user_state = (let (t, u) = task_new 3 fresh_kernel in upd_proc 3 (\<lambda>p. p\<lparr>p_task := t\<rparr>) (u\<lparr>curr_task := t\<rparr>))"

abbreviation user_table :: page_table_32b where
  "user_table \<equiv> page_table (tasks user_state (curr_task user_state))"

lemma user_state_facts:
  "pt_wf user_state user_table" "translate (mem user_state) (cr3 user_table) a = Some a"
  "kheap_num_free_blocks user_state = 974" "p_task (procs user_state 3) = curr_task user_state"
  "vmem_blocks_start (procs user_state 3) = (\<lambda>_. 0)"
proof -
  obtain t u where n: "task_new 3 fresh_kernel = (t, u)" by fastforce
  have "task_list fresh_kernel []" by (simp add: task_list_def)
  note r = task_new_result [OF _ this _ n, simplified]
  have s: "user_state = upd_proc 3 (\<lambda>p. p\<lparr>p_task := t\<rparr>) (u\<lparr>curr_task := t\<rparr>)" by (simp add: user_state_def n)
  have f: "mem user_state = mem u" "live user_state = live u" "kheap_ok user_state = kheap_ok u"
    "kheap_num_free_blocks user_state = kheap_num_free_blocks u" "user_table = page_table (tasks u t)"
    by (simp_all add: s upd_proc_def kheap_num_free_blocks_def kheap_ok_def heap_geometry_def table_guard_def
        live_def live_blocks_def kheap_block_to_addr_def)
  show "pt_wf user_state user_table" using pt_wf_cong [OF f(3,2,1)] r f(5) by simp
  show "translate (mem user_state) (cr3 user_table) a = Some a" using r f(1,5) by simp
  show "kheap_num_free_blocks user_state = 974" using r f(4) by simp
  show "p_task (procs user_state 3) = curr_task user_state" by (simp add: s)
  have "procs u = procs fresh_kernel" using task_new_procs [OF n] .
  then show "vmem_blocks_start (procs user_state 3) = (\<lambda>_. 0)" by (simp add: s zero_process_def)
qed

text \<open>One page below the top of the user heap is mapped.\<close>

lemma user_mmap: "mmap_checked 0xBFFFF000 0xC0000000 3 3 user_state =
    (STATUS_OK, snd (mmap_checked 0xBFFFF000 0xC0000000 3 3 user_state))"
proof -
  note us = user_state_facts
  obtain pa t where z: "kzalloc 4096 user_state = (pa, t)" by fastforce
  note ok = pt_wfD(1) [OF us(1)]
  have "blocks_of 4096 = 1" by (simp add: blocks_of_def)
  then have pa: "pa \<noteq> 0" using small_alloc(2) [OF ok z] us(3) by simp
  have z': "kzalloc (0xC0000000 - 0xBFFFF000) user_state = (pa, t)" using z by simp
  note new = mmap_memory [OF ok _ _ z' pa, simplified]
  note fr = heap_frame_proc [OF kzalloc_frame [OF z]]
  obtain i v where b: "process_add_vmem_block 3 0xBFFFF000 0xC0000000 t = (i, v)" by fastforce
  have "first_index (\<lambda>i. vmem_blocks_start (procs t 3) i = 0) 10 0 = Some 0"
    using us(5) fr(5) by (subst first_index.simps) simp
  then have i: "i = 0" and v: "mem v = mem t"
    using b by (auto simp: process_add_vmem_block_def)
  have "translate (mem t) (cr3 user_table) a = translate (mem user_state) (cr3 user_table) a" for a
    by (rule table_kept(3) [OF us(1) new(3) _ new(5)]) (use new(1) in auto)
  then have "translate (mem v) (cr3 user_table) 0xBFFFF000 = Some 0xBFFFF000" using us(2) v by simp
  then have "walk (mem v) (cr3 user_table) 0xBFFFF \<noteq> None" by (auto simp: translate_def)
  then have n: "fst (paging_new_vpn_to_pfn user_table 0xBFFFF p 7 True v) = STATUS_OK" for p
    using new_vpn_present_ok by blast
  have "fst (paging_map_memory_region user_table 0xBFFFF000 pa 0xC0000000 7 v) = STATUS_OK"
    using n new(4) by (simp add: paging_map_memory_region_def is_page_aligned_def Let_def paging_map_loop.simps
        case_prod_beta)
  then show ?thesis
    using z pa b i fr by (simp add: mmap_checked_eq is_page_aligned_def prod_eq_iff case_prod_beta)
qed

theorem mmap_maps_fresh_memory_witness:
  "\<exists>pa. translate (mem (snd (mmap_checked 0xBFFFF000 0xC0000000 3 3 user_state))) (cr3 user_table) 0xBFFFF123 =
     Some (pa + 0x123)"
  using mmap_maps_fresh_memory [OF refl user_state_facts(1) user_mmap]
  by (elim exE conjE) (drule spec [of _ "0xBFFFF123"], simp)

text \<open>The same page, entered as a range of the process.\<close>

definition user_range :: kernel_st where
  "user_range = upd_proc 3 (\<lambda>p. p\<lparr>vmem_blocks_start := (\<lambda>_. 0)(0 := 0xBFFFF000),
     vmem_blocks_end := (\<lambda>_. 0)(0 := 0xC0000000)\<rparr>) user_state"

theorem munmap_unmaps_witness:
  "fst (process_free_vmem_block 3 0xBFFFF000 user_range) = STATUS_OK \<and>
   translate (mem (snd (process_free_vmem_block 3 0xBFFFF000 user_range))) (cr3 user_table) 0xBFFFF123 = None"
proof -
  have t: "page_table (tasks user_range (p_task (procs user_range 3))) = user_table"
    "vmem_blocks_start (procs user_range 3) = (\<lambda>_. 0)(0 := 0xBFFFF000)"
    "vmem_blocks_end (procs user_range 3) = (\<lambda>_. 0)(0 := 0xC0000000)"
    using user_state_facts(4) by (simp_all add: user_range_def)
  have wf: "pt_wf user_range user_table"
    using user_state_facts(1) pt_wf_cong [of user_range user_state] by (simp add: user_range_def)
  have b: "is_page_aligned 0xBFFFF000 \<and> is_page_aligned (vmem_blocks_end (procs user_range 3) i) \<and>
      0xBFFFF000 \<le> vmem_blocks_end (procs user_range 3) i" if "vmem_blocks_start (procs user_range 3) i = 0xBFFFF000" for i
    using that t(2,3) by (simp add: is_page_aligned_def split: if_splits)
  obtain r u where f: "process_free_vmem_block 3 0xBFFFF000 user_range = (r, u)" by fastforce
  have "\<not> (\<forall>i < 10. vmem_blocks_start (procs user_range 3) i \<noteq> 0xBFFFF000)" using t(2) by auto
  with munmap_unmaps [OF t(1) [symmetric] wf b f] have "\<exists>i < 10. vmem_blocks_start (procs user_range 3) i = 0xBFFFF000 \<and>
      r = STATUS_OK \<and> (\<forall>a. 0xBFFFF000 \<le> a \<longrightarrow> a < vmem_blocks_end (procs user_range 3) i \<longrightarrow>
        translate (mem u) (cr3 user_table) a = None)" by auto
  then show ?thesis using t(2,3) f by (auto split: if_splits)
qed

end
