(* ===== verification/Dispatch.thy ===== *)
theory Dispatch
  imports User_Memory
begin

text \<open>
  The tables that start-up leaves behind: gates of the interrupt descriptor table, interrupt callbacks
  and system calls; and what an \<^verbatim>\<open>int 0x80\<close> returns to user code.
\<close>

section \<open>Gates\<close>

text \<open>The address the processor takes from a gate.\<close>

definition gate_address :: "idt_entry \<Rightarrow> u32" where
  "gate_address e = push_bit 16 (ucast (base_hi e)) OR ucast (base_lo e)"

definition gate :: "u32 \<Rightarrow> idt_entry" where
  "gate a = \<lparr>base_lo = ucast (a AND 0x0000FFFF), sel = KERNEL_CODE_SEGMENT, always0 = 0, idt_flags = 0xEE,
     base_hi = ucast (drop_bit 16 (a AND 0xFFFF0000))\<rparr>"

lemma idt_set_gate: "idt_set n a s = s\<lparr>idt := (idt s)(n := gate a)\<rparr>"
  by (simp add: idt_set_def gate_def)

lemma gate_masks: "(0x0000FFFF :: u32) = mask 16" "(0xFFFF0000 :: u32) = push_bit 16 (mask 16)"
  by (simp_all add: mask_eq_exp_minus_1)

lemma gate_address_gate [simp]: "gate_address (gate a) = a"
proof (rule bit_word_eqI)
  fix n assume "n < LENGTH(32)"
  then show "bit (gate_address (gate a)) n = bit a n"
    unfolding gate_address_def gate_def gate_masks
    by (cases "n < 16") (auto simp: bit_or_iff bit_push_bit_iff bit_unsigned_iff bit_and_iff bit_drop_bit_eq bit_mask_iff)
qed

lemma gate_fields: "sel (gate a) = KERNEL_CODE_SEGMENT" "idt_flags (gate a) = 0xEE"
  by (simp_all add: gate_def)

section \<open>Tables after start-up\<close>

lemma fold_gates: "fold (\<lambda>i. idt_set i (w i)) [0..<n] s = s\<lparr>idt := (\<lambda>i. if i < n then gate (w i) else idt s i)\<rparr>"
proof (induction n)
  case (Suc n)
  then show ?case by (simp add: idt_set_gate fun_eq_iff less_Suc_eq)
qed simp

lemma fold_call_backs:
  "n \<le> NUM_INTERRUPTS \<Longrightarrow> cb \<noteq> NullCb \<Longrightarrow>
   fold (\<lambda>i s. snd (idt_register_interrupt_call_back (int i) cb s)) [0..<n] s =
     s\<lparr>interrupt_call_backs := (\<lambda>i. if i < n then cb else interrupt_call_backs s i)\<rparr>"
proof (induction n)
  case (Suc n)
  then show ?case by (simp add: idt_register_interrupt_call_back_def fun_eq_iff less_Suc_eq)
qed simp

definition kernel_call_backs :: "nat \<Rightarrow> call_back" where
  "kernel_call_backs n = (if n < 0x20 then Cb_handle_exception else if n = 0x20 then Cb_handle_clock
     else if n = 0x21 then Cb_keyboard else NullCb)"

definition kernel_sys_calls :: "sys_call list" where
  "kernel_sys_calls = [Call_hello_sum, Call_print, Call_get_char, Call_put_char, Call_mmap, Call_munmap,
     Call_clear_screen, Call_create_process, Call_exit, Call_wait_pid]"

lemma idt_init_eq:
  "idt_init w h a s = s\<lparr>idt := (\<lambda>i. if i = 0x80 then gate h else if i < NUM_INTERRUPTS then gate (w i) else idt s i),
     idtp_limit := 8 * 512 - 1, idtp_base := a,
     interrupt_call_backs := (\<lambda>i. if i = 0x20 then Cb_handle_clock else if i < 0x20 then Cb_handle_exception
        else if i < NUM_INTERRUPTS then NullCb else interrupt_call_backs s i),
     sys_calls := (\<lambda>i. if i < NUM_SYS_CALLS then NullCall else sys_calls s i), cli_count := 0\<rparr>"
proof -
  have f: "fold (\<lambda>i s. snd (idt_register_interrupt_call_back (int i) Cb_handle_exception s)) [0..<0x20] v =
      v\<lparr>interrupt_call_backs := (\<lambda>i. if i < 0x20 then Cb_handle_exception else interrupt_call_backs v i)\<rparr>"
    for v :: "'a intr_st_scheme" by (rule fold_call_backs) simp_all
  have c: "snd (idt_register_interrupt_call_back 0x20 Cb_handle_clock v) =
      v\<lparr>interrupt_call_backs := (interrupt_call_backs v)(0x20 := Cb_handle_clock)\<rparr>" for v :: "'a intr_st_scheme"
    by (simp add: idt_register_interrupt_call_back_def)
  show ?thesis
    unfolding idt_init_def Let_def fold_gates idt_set_gate f c by (simp add: fun_eq_iff)
qed

text \<open>C9: after \<^verbatim>\<open>idt_init\<close>, \<^verbatim>\<open>procs_init\<close>, \<^verbatim>\<open>keyboard_init\<close> and \<^verbatim>\<open>register_syscalls\<close>, in the order of \<^verbatim>\<open>kernel_main\<close> and from any
  state, every gate leads to its stub in the kernel code segment, exceptions, clock and keyboard
  have their handlers, the ten system calls have their numbers, and every other number is free;
  registering them never panics.\<close>

theorem startup_tables:
  "\<exists>u. register_syscalls (keyboard_init (procs_init (idt_init w h a s))) = Ret () u \<and>
     (\<forall>n < NUM_INTERRUPTS. gate_address (idt u n) = (if n = 0x80 then h else w n) \<and>
        sel (idt u n) = KERNEL_CODE_SEGMENT \<and> idt_flags (idt u n) = 0xEE) \<and>
     (\<forall>n < NUM_INTERRUPTS. interrupt_call_backs u n = kernel_call_backs n) \<and>
     (\<forall>n < NUM_SYS_CALLS. sys_calls u n = (if n < 10 then kernel_sys_calls ! n else NullCall)) \<and>
     idtp_base u = a \<and> unat (idtp_limit u) + 1 = 8 * NUM_INTERRUPTS"
proof -
  let ?v = "keyboard_init (procs_init (idt_init w h a s))"
  have v: "n < NUM_INTERRUPTS \<Longrightarrow> idt ?v n = gate (if n = 0x80 then h else w n)"
    "n < NUM_SYS_CALLS \<Longrightarrow> sys_calls ?v n = NullCall" "idtp_base ?v = a" "idtp_limit ?v = 8 * 512 - 1"
    "n < NUM_INTERRUPTS \<Longrightarrow> interrupt_call_backs ?v n = kernel_call_backs n" for n
    by (simp_all add: idt_init_eq kernel_call_backs_def keyboard_init_def ps2_init_def procs_init_def idt_register_interrupt_call_back_def
        keyboard_set_capslock_def ISR_KEYBOARD_INTERRUPT_def Let_def)
  let ?u = "?v\<lparr>sys_calls := (sys_calls ?v)(0 := Call_hello_sum, 1 := Call_print, 2 := Call_get_char, 3 := Call_put_char,
      4 := Call_mmap, 5 := Call_munmap, 6 := Call_clear_screen, 7 := Call_create_process, 8 := Call_exit, 9 := Call_wait_pid)\<rparr>"
  have "register_syscalls ?v = Ret () ?u"
    using v(2) by (simp add: register_syscalls_def syscall_register_command_def)
  moreover have "sys_calls ?u n = (if n < 10 then kernel_sys_calls ! n else NullCall)" if "n < 64" for n
    using v(2) [of n] that by (auto simp: kernel_sys_calls_def nth_Cons')
  ultimately show ?thesis
    using v by (intro exI [of _ ?u]) (simp add: gate_fields)
qed

theorem startup_tables_witness:
  "\<exists>u. register_syscalls (keyboard_init (procs_init (idt_init (\<lambda>n. 0x1000 + 16 * of_nat n) 0x9000 0x8000 (three_tasks TASK_READY)))) = Ret () u \<and>
     gate_address (idt u 0x80) = 0x9000 \<and> gate_address (idt u 0x21) = 0x1210 \<and> sys_calls u 4 = Call_mmap \<and> idtp_base u = 0x8000"
  using startup_tables [of "\<lambda>n. 0x1000 + 16 * of_nat n" "0x9000" "0x8000" "three_tasks TASK_READY"]
  by (elim exE conjE) (auto simp: kernel_sys_calls_def dest: spec [of _ "0x80"] spec [of _ "0x21"] spec [of _ 4])

section \<open>Returning from a system call\<close>

lemma deref_Ret_iff: "deref p f s = Ret v u \<longleftrightarrow> (\<exists>i. p = Some i \<and> f i s = Ret v u)"
  by (cases p) (simp_all add: deref_def)

lemmas returning = bindO_Ret_iff deref_Ret_iff

text \<open>Handlers hand back the frame they got; only the demonstration call sets \<^verbatim>\<open>ecx\<close>.\<close>

lemma run_sys_call_frame:
  assumes "run_sys_call c frame s = Ret (v, f) u"
  shows "f = (if c = Call_hello_sum then frame\<lparr>f_ecx := 1989\<rparr> else frame)"
  using assms
  by (cases c) (auto simp: run_sys_call_def syscall_hello_sum_def syscall_print_def syscall_get_char_def
      syscall_put_char_def syscall_clear_screen_def syscall_mmap_def syscall_munmap_def syscall_create_process_def
      syscall_exit_def syscall_wait_pid_def returning Let_def case_prod_beta split: if_splits)

definition known_call :: "int \<Rightarrow> 'a intr_st_scheme \<Rightarrow> bool" where
  "known_call n s \<longleftrightarrow> 0 \<le> n \<and> n < int NUM_SYS_CALLS \<and> sys_calls s (nat n) \<noteq> NullCall"

text \<open>C10: when the handler of a system call returns, user code continues with the registers of the interrupted
  program, the result in \<^verbatim>\<open>eax\<close>; the demonstration call also changes \<^verbatim>\<open>ecx\<close>. A number with no handler, in or out of
  the range of the table, returns \<^verbatim>\<open>-SYSCALL_NOT_IMPLEMENTED\<close> and changes nothing but the saved registers.\<close>

theorem syscall_returns:
  assumes "curr_task s \<noteq> 0" and "n = sint (f_eax frame)"
    and "intr_80h_handler n frame s = Ret (v, f) u \<or> \<not> known_call n s"
  shows "if known_call n s
    then \<exists>r. int80h frame s = UserMode (u\<lparr>cpu := r\<rparr>) \<and>
      (if sys_calls s (nat n) = Call_hello_sum then r = (frame_registers frame)\<lparr>r_ecx := 1989, r_eax := v\<rparr>
       else r = (frame_registers frame)\<lparr>r_eax := v\<rparr>)
    else int80h frame s = UserMode ((upd_task (curr_task s) (\<lambda>t. t\<lparr>regs := frame_registers frame\<rparr>) s)
      \<lparr>cpu := (frame_registers frame)\<lparr>r_eax := - 13\<rparr>\<rparr>)"
proof -
  let ?t = "upd_task (curr_task s) (\<lambda>t. t\<lparr>regs := frame_registers frame\<rparr>) s"
  have save: "task_save_current_state frame s = Ret () ?t"
    by (rule save_state_eq [OF assms(1)])
  have k: "sys_calls ?t = sys_calls s" by (simp add: upd_task_def)
  show ?thesis
  proof (cases "known_call n s")
    case True
    then have h: "intr_80h_handler n frame s = Ret (v, f) u" using assms(3) by simp
    with True have "run_sys_call (sys_calls s (nat n)) frame ?t = Ret (v, f) u"
      using save k by (auto simp: intr_80h_handler_def syscall_handle_command_def known_call_def Let_def)
    note f = run_sys_call_frame [OF this]
    show ?thesis using True h f assms(2) by (auto simp: int80h_def frame_registers_def)
  next
    case False
    then show ?thesis
      using save k assms(2) by (auto simp: int80h_def intr_80h_handler_def syscall_handle_command_def known_call_def Let_def)
  qed
qed

text \<open>Number 7 first without a handler, then with that of \<^verbatim>\<open>cls\<close>.\<close>

theorem syscall_returns_witness:
  "(\<exists>u. int80h (demo_frame 1) (three_tasks TASK_READY) = UserMode u \<and> r_eax (cpu u) = - 13 \<and> r_edi (cpu u) = 1) \<and>
   (\<exists>u. int80h (demo_frame 1) ((three_tasks TASK_READY)\<lparr>sys_calls := (\<lambda>_. Call_clear_screen)\<rparr>) = UserMode u \<and>
      r_eax (cpu u) = 0 \<and> r_edi (cpu u) = 1)"
proof
  have "\<not> known_call 7 (three_tasks TASK_READY)" by (simp add: known_call_def three_tasks_def)
  with syscall_returns [of "three_tasks TASK_READY" 7 "demo_frame 1"]
  show "\<exists>u. int80h (demo_frame 1) (three_tasks TASK_READY) = UserMode u \<and> r_eax (cpu u) = - 13 \<and> r_edi (cpu u) = 1"
    by (simp add: demo_frame_def frame_registers_def three_tasks_list(4))
  let ?s = "(three_tasks TASK_READY)\<lparr>sys_calls := (\<lambda>_. Call_clear_screen)\<rparr>"
  have c: "curr_task ?s \<noteq> 0" by (simp add: three_tasks_def)
  obtain u where h: "intr_80h_handler 7 (demo_frame 1) ?s = Ret (0, demo_frame 1) u"
    by (simp add: intr_80h_handler_def syscall_handle_command_def save_state_eq [OF c] run_sys_call_def
        syscall_clear_screen_def upd_task_def Let_def)
  have "known_call 7 ?s" by (simp add: known_call_def)
  with syscall_returns [of ?s 7 "demo_frame 1" 0 "demo_frame 1" u] c h
  show "\<exists>u. int80h (demo_frame 1) ?s = UserMode u \<and> r_eax (cpu u) = 0 \<and> r_edi (cpu u) = 1"
    by (auto simp: demo_frame_def frame_registers_def)
qed

end
