(* ===== verification/Stdlib.thy ===== *)
theory Stdlib
  imports CString Decimal Disk "HOL-Library.Monad_Syntax"
begin

text \<open>
  The library of the user programs, \<^verbatim>\<open>src/programs/stdlib/src/stdlib.c\<close>. A program is seen through its own
  address space \<open>umem\<close> and the library's global variables. System calls appear by their effect on the
  program: \<open>out\<close> collects the characters that \<^verbatim>\<open>print\<close> and \<^verbatim>\<open>put_char\<close> send to the console, \<open>keys\<close> holds the keys
  that \<^verbatim>\<open>get_key\<close> will return (0 when there is none), and \<^verbatim>\<open>mmap\<close> is an argument of \<open>malloc\<close>, with the state of the
  kernel passed along. \<open>None\<close> is a call that does not return.

  The string routines of the library repeat those of \<^verbatim>\<open>src/src/lib/string/string.c\<close> word for word, so they are
  the definitions of \<open>CString\<close> under names of their own; the copying ones also return their destination.
\<close>

section \<open>State\<close>

record user_prog =
  umem :: memory
  heap_end :: u32
  heap_curr :: u32
  tok_sp :: addr
  out :: "u8 list"
  keys :: "u8 list"

section \<open>Heap\<close>

definition HEAP_TOP :: u32 where [simp]: "HEAP_TOP = 0xc0000000"
definition HEAP_INFO_MAGIC :: u32 where [simp]: "HEAP_INFO_MAGIC = 198913"
definition SIZEOF_malloc_info :: u32 where [simp]: "SIZEOF_malloc_info = 8"
definition O_READ_WRITE :: u32 where [simp]: "O_READ_WRITE = 3"

definition up_align :: "u32 \<Rightarrow> u32" where
  "up_align va = (if va mod 4096 = 0 then va else va + 4096 - va mod 4096)"

definition down_align :: "u32 \<Rightarrow> u32" where
  "down_align va = va - va mod 4096"

text \<open>\<^verbatim>\<open>struct malloc_info\<close>: the size at offset 0, the magic number at offset 4. The system call \<^verbatim>\<open>mmap\<close> changes what the
  program reads in the range it maps.\<close>

definition malloc_take :: "u32 \<Rightarrow> u32 \<Rightarrow> 'a user_prog_scheme \<Rightarrow> addr \<times> 'a user_prog_scheme" where
  "malloc_take sz alloc_size s =
     (let info = heap_curr s - alloc_size
      in (info + SIZEOF_malloc_info,
          s\<lparr>heap_curr := info, umem := store32 (store32 (umem s) info sz) (info + 4) HEAP_INFO_MAGIC\<rparr>))"

definition malloc ::
    "(addr \<Rightarrow> addr \<Rightarrow> u32 \<Rightarrow> memory \<times> 'k \<Rightarrow> int \<times> memory \<times> 'k) \<Rightarrow>
     u32 \<Rightarrow> 'a user_prog_scheme \<times> 'k \<Rightarrow> addr \<times> 'a user_prog_scheme \<times> 'k" where
  "malloc mmap sz = (\<lambda>(s, k).
     let alloc_size = sz + SIZEOF_malloc_info
     in if heap_curr s - alloc_size < heap_end s
        then let new_end = down_align (heap_end s - alloc_size);
                 (res, m, k) = mmap new_end (heap_end s) O_READ_WRITE (umem s, k);
                 s = s\<lparr>umem := m\<rparr>
             in if res \<noteq> 0 then (0, s, k)
                else let (p, s) = malloc_take sz alloc_size (s\<lparr>heap_end := new_end\<rparr>) in (p, s, k)
        else let (p, s) = malloc_take sz alloc_size s in (p, s, k))"

text \<open>\<^verbatim>\<open>free\<close> looks at the magic number and returns in either case.\<close>

definition free :: "addr \<Rightarrow> 'a user_prog_scheme \<Rightarrow> 'a user_prog_scheme" where
  "free ptr s = (if load32 (umem s) (ptr - SIZEOF_malloc_info + 4) \<noteq> HEAP_INFO_MAGIC then s else s)"

section \<open>Numbers\<close>

definition MAX_DIGITS :: nat where [simp]: "MAX_DIGITS = 13"

text \<open>The characters \<^verbatim>\<open>itoa\<close> puts into the buffer, and the terminator.\<close>

definition itoa_chars :: "int \<Rightarrow> u8 list" where
  "itoa_chars value =
     (let sign = (if value < 0 then [45] else []);
          value = (if value < 0 then neg32 value else value);
          num_digits = count_digits value
      in if num_digits = 0 then sign @ [48]
         else sign @ map (\<lambda>i. digit_buf num_digits value ! i) (rev [0..<num_digits]))"

definition itoa :: "int \<Rightarrow> addr \<Rightarrow> memory \<Rightarrow> memory" where
  "itoa value buffer m = put_bytes m buffer (itoa_chars value @ [0])"

text \<open>The accumulator is a 32-bit \<^verbatim>\<open>int\<close>.\<close>

function atoi_loop :: "memory \<Rightarrow> addr \<Rightarrow> nat \<Rightarrow> u32 \<Rightarrow> u32" where
  "atoi_loop m buffer idx res =
     (if m (buffer + of_nat idx) \<noteq> 0 \<and> idx < MAX_DIGITS
      then atoi_loop m buffer (Suc idx) (res * 10 + (scast (m (buffer + of_nat idx)) - 48))
      else res)"
  by pat_completeness auto
termination
  by (relation "measure (\<lambda>(m, b, idx, res). MAX_DIGITS - idx)") auto

declare atoi_loop.simps [simp del]

definition atoi :: "memory \<Rightarrow> addr \<Rightarrow> int" where
  "atoi m buffer =
     (if m buffer = 45 then sint (atoi_loop m (buffer + 1) 0 0 * (- 1)) else sint (atoi_loop m buffer 0 0 * 1))"

section \<open>Strings\<close>

definition stdlib_strlen :: "memory \<Rightarrow> addr \<Rightarrow> nat option" where "stdlib_strlen = strlen"
definition stdlib_strnlen :: "memory \<Rightarrow> addr \<Rightarrow> int \<Rightarrow> int" where "stdlib_strnlen = strnlen"
definition stdlib_strcpy :: "memory \<Rightarrow> addr \<Rightarrow> addr \<Rightarrow> (addr \<times> memory) option" where
  "stdlib_strcpy m dst src = map_option (\<lambda>m. (dst, m)) (strcpy m dst src)"
definition stdlib_strncpy :: "memory \<Rightarrow> addr \<Rightarrow> addr \<Rightarrow> int \<Rightarrow> addr \<times> memory" where
  "stdlib_strncpy m dst src maxlen = (dst, strncpy m dst src maxlen)"
definition stdlib_strncmp :: "memory \<Rightarrow> addr \<Rightarrow> addr \<Rightarrow> int \<Rightarrow> int" where "stdlib_strncmp = strncmp"
definition stdlib_strnlen_terminator :: "memory \<Rightarrow> addr \<Rightarrow> int \<Rightarrow> u8 \<Rightarrow> int" where
  "stdlib_strnlen_terminator = strnlen_terminator"
definition stdlib_to_lower :: "u8 \<Rightarrow> u8" where "stdlib_to_lower = to_lower"
definition stdlib_istrncmp :: "memory \<Rightarrow> addr \<Rightarrow> addr \<Rightarrow> int \<Rightarrow> int" where "stdlib_istrncmp = istrncmp"
definition stdlib_is_digit :: "u8 \<Rightarrow> bool" where "stdlib_is_digit = is_digit"

partial_function (option) str_to_lower_loop :: "memory \<Rightarrow> addr \<Rightarrow> nat \<Rightarrow> memory option" where
  "str_to_lower_loop m str i =
     (if m (str + of_nat i) \<noteq> 0
      then str_to_lower_loop (m(str + of_nat i := stdlib_to_lower (m (str + of_nat i)))) str (Suc i)
      else Some m)"

definition str_to_lower :: "addr \<Rightarrow> memory \<Rightarrow> memory option" where
  "str_to_lower str m = str_to_lower_loop m str 0"

text \<open>The inner loops of \<^verbatim>\<open>strtok\<close>: is the character one of the first \<open>len\<close> delimiters?\<close>

definition is_delimiter :: "memory \<Rightarrow> addr \<Rightarrow> nat \<Rightarrow> u8 \<Rightarrow> bool" where
  "is_delimiter m delimiters len c \<longleftrightarrow> c \<in> (\<lambda>i. m (delimiters + of_nat i)) ` set [0..<len]"

partial_function (option) strtok_skip :: "memory \<Rightarrow> addr \<Rightarrow> nat \<Rightarrow> addr \<Rightarrow> addr option" where
  "strtok_skip m delimiters len p_start =
     (if is_delimiter m delimiters len (m p_start) then strtok_skip m delimiters len (p_start + 1) else Some p_start)"

partial_function (option) strtok_end :: "memory \<Rightarrow> addr \<Rightarrow> nat \<Rightarrow> addr \<Rightarrow> (memory \<times> addr) option" where
  "strtok_end m delimiters len sp =
     (if m sp \<noteq> 0
      then if is_delimiter m delimiters len (m sp) then Some (m(sp := 0), sp + 1)
           else strtok_end m delimiters len (sp + 1)
      else Some (m, sp))"

definition strtok :: "addr \<Rightarrow> addr \<Rightarrow> 'a user_prog_scheme \<Rightarrow> (addr \<times> 'a user_prog_scheme) option" where
  "strtok str delimiters s =
     do {
       len \<leftarrow> stdlib_strlen (umem s) delimiters;
       if str = 0 \<and> tok_sp s = 0 then Some (0, s)
       else do {
         let s = (if str \<noteq> 0 \<and> tok_sp s = 0 then s\<lparr>tok_sp := str\<rparr> else s);
         p_start \<leftarrow> strtok_skip (umem s) delimiters len (tok_sp s);
         if umem s p_start = 0 then Some (0, s\<lparr>tok_sp := 0\<rparr>)
         else do {
           (m, sp) \<leftarrow> strtok_end (umem s) delimiters len p_start;
           Some (p_start, s\<lparr>umem := m, tok_sp := sp\<rparr>)
         }
       }
     }"

section \<open>Input and output\<close>

definition put_char :: "u8 \<Rightarrow> 'a user_prog_scheme \<Rightarrow> 'a user_prog_scheme" where
  "put_char c s = s\<lparr>out := out s @ [c]\<rparr>"

text \<open>The effect of the system call \<^verbatim>\<open>print\<close> as the program sees it: at most \<open>len\<close> characters are printed, up to a terminator. The
  kernel's side is \<open>syscall_print\<close>; the case that it finds no memory for its copy is left out.\<close>

definition print_str :: "addr \<Rightarrow> nat \<Rightarrow> 'a user_prog_scheme \<Rightarrow> 'a user_prog_scheme" where
  "print_str str len s = s\<lparr>out := out s @ takeWhile (\<lambda>c. c \<noteq> 0) (map (chars (umem s) str) [0..<len])\<rparr>"

text \<open>\<^verbatim>\<open>ptr_to_str\<close> fills a buffer with the hexadecimal digits and emits it backwards.\<close>

fun hex_buf :: "nat \<Rightarrow> u8 list" where
  "hex_buf val =
     (if val \<noteq> 0
      then let c = of_nat (val mod 16) + 48 in (if sint c > 57 then c + 7 else c) # hex_buf (val div 16)
      else [])"

declare hex_buf.simps [simp del]

definition ptr_to_str_chars :: "u32 \<Rightarrow> u8 list" where
  "ptr_to_str_chars ptr =
     (let buf = hex_buf (unat ptr); buf = (if buf = [] then [48] else buf) in [48, 120] @ rev buf)"

definition ptr_to_str :: "u32 \<Rightarrow> addr \<Rightarrow> memory \<Rightarrow> memory" where
  "ptr_to_str ptr buf m = put_bytes m buf (ptr_to_str_chars ptr @ [0])"

text \<open>
  \<^verbatim>\<open>printf\<close>: the variable arguments are the words that follow, \<open>buf\<close> is the address of the local buffer; an
  argument that is missing is whatever lies on the stack, the argument \<open>junk\<close>.
\<close>

definition printf_bufsz :: nat where [simp]: "printf_bufsz = 25"

partial_function (option) printf_loop ::
    "u32 \<Rightarrow> addr \<Rightarrow> addr \<Rightarrow> nat \<Rightarrow> u32 list \<Rightarrow> 'a user_prog_scheme \<Rightarrow> 'a user_prog_scheme option" where
  "printf_loop junk buf fmt idx args s =
     (if umem s (fmt + of_nat idx) = 0 then Some s
      else if umem s (fmt + of_nat idx) = 37
      then let idx = Suc idx; c = umem s (fmt + of_nat idx); arg = (if args = [] then junk else hd args)
           in if c = 100
              then let s = s\<lparr>umem := itoa (sint arg) buf (umem s)\<rparr>
                   in printf_loop junk buf fmt (Suc idx) (tl args) (print_str buf printf_bufsz s)
              else if c = 115
              then case stdlib_strlen (umem s) arg of None \<Rightarrow> None
                   | Some n \<Rightarrow> printf_loop junk buf fmt (Suc idx) (tl args) (print_str arg (n + 1) s)
              else if c = 99 then printf_loop junk buf fmt (Suc idx) (tl args) (put_char (ucast arg) s)
              else if c = 112
              then let s = s\<lparr>umem := ptr_to_str arg buf (umem s)\<rparr>
                   in printf_loop junk buf fmt (Suc idx) (tl args) (print_str buf printf_bufsz s)
              else printf_loop junk buf fmt (Suc idx) args s
      else printf_loop junk buf fmt (Suc idx) args (put_char (umem s (fmt + of_nat idx)) s))"

definition printf :: "u32 \<Rightarrow> addr \<Rightarrow> addr \<Rightarrow> u32 list \<Rightarrow> 'a user_prog_scheme \<Rightarrow> 'a user_prog_scheme option" where
  "printf junk buf fmt args s = printf_loop junk buf fmt 0 args s"

definition get_key :: "'a user_prog_scheme \<Rightarrow> u8 \<times> 'a user_prog_scheme" where
  "get_key s = (case keys s of [] \<Rightarrow> (0, s) | k # ks \<Rightarrow> (k, s\<lparr>keys := ks\<rparr>))"

partial_function (option) get_key_blocking :: "'a user_prog_scheme \<Rightarrow> (u8 \<times> 'a user_prog_scheme) option" where
  "get_key_blocking s = (let (c, s) = get_key s in if c \<noteq> 0 then Some (c, s) else get_key_blocking s)"

partial_function (option) readline_loop ::
    "addr \<Rightarrow> nat \<Rightarrow> nat \<Rightarrow> 'a user_prog_scheme \<Rightarrow> 'a user_prog_scheme option" where
  "readline_loop buf max_len idx s =
     (if idx < max_len
      then case get_key_blocking s of None \<Rightarrow> None
           | Some (key, s) \<Rightarrow>
               if key = 0x0d
               then let s = put_char 10 s in Some (s\<lparr>umem := (umem s)(buf + of_nat idx := 0)\<rparr>)
               else if key = 0x08
               then if idx > 0
                    then let s = s\<lparr>umem := (umem s)(buf + of_nat (idx - 1) := 0)\<rparr>
                         in readline_loop buf max_len (idx - 1) (put_char key s)
                    else readline_loop buf max_len idx s
               else let s = put_char key s
                    in readline_loop buf max_len (Suc idx) (s\<lparr>umem := (umem s)(buf + of_nat idx := key)\<rparr>)
      else Some s)"

definition readline_terminal :: "addr \<Rightarrow> int \<Rightarrow> 'a user_prog_scheme \<Rightarrow> 'a user_prog_scheme option" where
  "readline_terminal buf max_len s = readline_loop buf (nat max_len) 0 s"

end
