(* ===== verification/Stdlib_Props.thy ===== *)
theory Stdlib_Props
  imports Stdlib Disk_Props
begin

text \<open>
  Properties of the user library: decimal numbers are read back as they are written, a line read from
  the keyboard is the edited line, and \<^verbatim>\<open>strtok\<close> delivers the tokens of a string.
\<close>

section \<open>Numbers\<close>

lemma put_bytes_cstr:
  assumes "0 \<notin> set xs" and "length xs < 2 ^ 32"
  shows "cstr_at (put_bytes m p (xs @ [0])) p xs"
proof -
  have len: "length (xs @ [0]) \<le> 2 ^ 32" using assms(2) by simp
  have "put_bytes m p (xs @ [0]) (p + of_nat i) = (xs @ [0]) ! i" if "i \<le> length xs" for i
    using that assms(2) by (simp add: put_bytes_eq [OF len] in_block_def unat_of_nat32)
  moreover have "xs ! i \<noteq> 0" if "i < length xs" for i using assms(1) that by (metis nth_mem)
  ultimately show ?thesis by (auto simp: cstr_at_def nth_append)
qed

lemma atoi_loop_digits:
  assumes "cstr_at m p xs" and "length xs \<le> 13" and "i \<le> length xs"
  shows "atoi_loop m p i res = foldl (\<lambda>r c. r * 10 + (scast c - 48)) res (drop i xs)"
  using assms(3)
proof (induction "length xs - i" arbitrary: i res)
  case 0
  then show ?case
    using cstr_at_end_iff [OF assms(1), of i] by (subst atoi_loop.simps) simp
next
  case (Suc k)
  then have i: "i < length xs" by simp
  then have "m (p + of_nat i) = xs ! i" "xs ! i \<noteq> 0" using assms(1) by (auto simp: cstr_at_def)
  with Suc.hyps(1) [of "Suc i"] Suc.hyps(2) i assms(2) show ?case
    by (subst atoi_loop.simps) (simp add: Cons_nth_drop_Suc [symmetric])
qed

lemma scast_digit: "48 \<le> uint c \<Longrightarrow> uint c \<le> 57 \<Longrightarrow> (scast (c :: u8) :: u32) = ucast c"
proof -
  assume "48 \<le> uint c" "uint c \<le> 57"
  then have "sint c = uint c" by (simp add: sint_uint signed_take_bit_int_eq_self)
  then show ?thesis by (simp add: scast_eq)
qed

lemma foldl_digits:
  fixes cs :: "u8 list"
  assumes "\<And>c. c \<in> set cs \<Longrightarrow> 48 \<le> uint c \<and> uint c \<le> 57"
  shows "foldl (\<lambda>r c. r * 10 + (scast c - 48)) (word_of_int v) cs =
    (word_of_int (foldl (\<lambda>v c. 10 * v + (uint c - 48)) v cs) :: u32)"
  using assms
proof (induction cs arbitrary: v)
  case (Cons c cs)
  have step: "word_of_int v * 10 + (scast c - 48) = (word_of_int (10 * v + (uint c - 48)) :: u32)"
    using scast_digit [of c] Cons.prems [of c] by (simp add: algebra_simps)
  have "foldl (\<lambda>r c. r * 10 + (scast c - 48)) (word_of_int (10 * v + (uint c - 48))) cs =
      (word_of_int (foldl (\<lambda>v c. 10 * v + (uint c - 48)) (10 * v + (uint c - 48)) cs) :: u32)"
    using Cons by (intro Cons.IH) simp
  then show ?case by (simp only: foldl_Cons step)
qed simp

lemma atoi_digits:
  assumes "cstr_at m p (decimal_digits x)" and "0 \<le> x" and "x < 2 ^ 31"
  shows "atoi_loop m p 0 0 = word_of_int x"
proof -
  have "length (decimal_digits x) \<le> 13" using num_digits_le_10 [OF assms(3)] by (simp add: length_decimal_digits)
  from atoi_loop_digits [OF assms(1) this, of 0 0]
    foldl_digits [of "decimal_digits x" 0] decimal_digits_range [of _ x] decimal_value_digits [OF assms(2)]
  show ?thesis by (simp add: decimal_value_def)
qed

lemma itoa_chars_text:
  assumes "int32 v" and "v \<noteq> - (2 ^ 31)"
  shows "itoa_chars v = int_text v"
proof -
  have "(if v < 0 then neg32 v else v) = \<bar>v\<bar>" using neg32_eq [OF assms] by simp
  moreover have "count_digits \<bar>v\<bar> = 0 \<longleftrightarrow> v = 0" by (subst count_digits.simps) simp
  ultimately show ?thesis
    using map_nth_rev_upt [of "digit_buf (count_digits \<bar>v\<bar>) \<bar>v\<bar>"]
    by (auto simp: itoa_chars_def int_text_def decimal_digits_def Let_def count_digits.simps [of 0])
qed

lemma itoa_text:
  assumes "int32 v" and "v \<noteq> - (2 ^ 31)"
  shows "0 \<notin> set (int_text v)" and "length (int_text v) \<le> 11" and "cstr_at (itoa v buffer m) buffer (int_text v)"
proof -
  have b: "\<bar>v\<bar> < 2 ^ 31" using assms by (auto simp: int32_def abs_if)
  show t: "0 \<notin> set (int_text v)" "length (int_text v) \<le> 11"
    using decimal_digits_range [of 0 "\<bar>v\<bar>"] num_digits_le_10 [OF b]
    by (auto simp: int_text_def length_decimal_digits)
  show "cstr_at (itoa v buffer m) buffer (int_text v)"
    unfolding itoa_def itoa_chars_text [OF assms] by (rule put_bytes_cstr) (use t in auto)
qed

text \<open>C21: \<^verbatim>\<open>atoi\<close> reads back every number that \<^verbatim>\<open>itoa\<close> writes, except for the smallest one, whose negation does not
  exist.\<close>

theorem itoa_atoi:
  assumes "int32 v" and "v \<noteq> - (2 ^ 31)"
  shows "atoi (itoa v buffer m) buffer = v"
proof -
  have b: "\<bar>v\<bar> < 2 ^ 31" using assms by (auto simp: int32_def abs_if)
  note c = itoa_text(3) [OF assms, of buffer m]
  have s: "sint (word_of_int x :: u32) = x" if "int32 x" for x
    using that by (subst signed_of_int) (simp add: int32_def signed_take_bit_int_eq_self)
  show ?thesis
  proof (cases "v < 0")
    case True
    then have x: "cstr_at (itoa v buffer m) buffer (45 # decimal_digits (- v))"
      using c by (simp add: int_text_def)
    then have "itoa v buffer m buffer = 45" "cstr_at (itoa v buffer m) (buffer + 1) (decimal_digits (- v))"
      using cstr_at_Cons by (auto simp: cstr_at_def)
    then show ?thesis
      using atoi_digits [of _ "buffer + 1" "- v"] b True s [OF assms(1)] by (simp add: atoi_def)
  next
    case False
    show ?thesis
    proof (cases "v = 0")
      case True
      then have "cstr_at (itoa v buffer m) buffer [48]" using c by (simp add: int_text_def)
      then have "itoa v buffer m buffer = 48" "atoi_loop (itoa v buffer m) buffer 0 0 = scast (48 :: u8) - 48"
        using atoi_loop_digits [of "itoa v buffer m" buffer "[48]" 0 0] by (simp_all add: cstr_at_Cons)
      then show ?thesis using True scast_digit [of 48] by (simp add: atoi_def)
    next
      case pos: False
      then have x: "cstr_at (itoa v buffer m) buffer (decimal_digits v)" using c False by (simp add: int_text_def)
      have "decimal_digits v \<noteq> []"
        using pos False length_decimal_digits [of v] count_digits.simps [of v] by auto
      then have "itoa v buffer m buffer \<in> set (decimal_digits v)"
        using x by (cases "decimal_digits v") (auto simp: cstr_at_Cons)
      then have "itoa v buffer m buffer \<noteq> 45" using decimal_digits_range by fastforce
      then show ?thesis using atoi_digits [OF x] False b s [OF assms(1)] by (simp add: atoi_def)
    qed
  qed
qed

theorem itoa_atoi_witness: "atoi (itoa (- 1989) 0x1000 (\<lambda>_. 7)) 0x1000 = - 1989"
  by (rule itoa_atoi) (simp_all add: int32_def)

section \<open>Reading a line\<close>

text \<open>What a sequence of keys up to ENTER means: the line, what is shown while typing it, and whether it always
  stays shorter than \<open>n\<close>. A key 0 means that none was pressed.\<close>

fun edit :: "u8 list \<Rightarrow> u8 list \<Rightarrow> u8 list" where
  "edit line [] = line"
| "edit line (k # ks) = (if k = 0x0d then line else if k = 0 then edit line ks
     else if k = 0x08 then edit (butlast line) ks else edit (line @ [k]) ks)"

fun echo :: "u8 list \<Rightarrow> u8 list \<Rightarrow> u8 list" where
  "echo line [] = []"
| "echo line (k # ks) = (if k = 0x0d then [10] else if k = 0 then echo line ks
     else if k = 0x08 then (if line = [] then echo line ks else 0x08 # echo (butlast line) ks)
     else k # echo (line @ [k]) ks)"

fun line_fits :: "nat \<Rightarrow> u8 list \<Rightarrow> u8 list \<Rightarrow> bool" where
  "line_fits n line [] \<longleftrightarrow> False"
| "line_fits n line (k # ks) \<longleftrightarrow> length line < n \<and> (if k = 0x0d then True else if k = 0 then line_fits n line ks
     else if k = 0x08 then line_fits n (butlast line) ks else line_fits n (line @ [k]) ks)"

definition holds_line :: "memory \<Rightarrow> addr \<Rightarrow> u8 list \<Rightarrow> bool" where
  "holds_line m buf line \<longleftrightarrow> (\<forall>i < length line. m (buf + of_nat i) = line ! i \<and> line ! i \<noteq> 0)"

lemma get_key_blocking_Cons:
  "keys s = k # ks \<Longrightarrow>
   get_key_blocking s = (if k \<noteq> 0 then Some (k, s\<lparr>keys := ks\<rparr>) else get_key_blocking (s\<lparr>keys := ks\<rparr>))"
  by (subst get_key_blocking.simps) (simp add: get_key_def)

lemma readline_loop_skip:
  assumes "keys s = 0 # ks"
  shows "readline_loop buf n i s = (if i < n then readline_loop buf n i (s\<lparr>keys := ks\<rparr>) else Some s)"
  using get_key_blocking_Cons [OF assms] by (subst (1 2) readline_loop.simps) simp

lemma readline_loop_key:
  assumes "keys s = k # ks" and "k \<noteq> 0" and "i < n"
  defines "t \<equiv> s\<lparr>keys := ks\<rparr>"
  shows "readline_loop buf n i s =
    (if k = 0x0d then Some (t\<lparr>out := out s @ [10], umem := (umem s)(buf + of_nat i := 0)\<rparr>)
     else if k = 0x08
     then if i > 0 then readline_loop buf n (i - 1) (t\<lparr>umem := (umem s)(buf + of_nat (i - 1) := 0), out := out s @ [k]\<rparr>)
          else readline_loop buf n i t
     else readline_loop buf n (Suc i) (t\<lparr>out := out s @ [k], umem := (umem s)(buf + of_nat i := k)\<rparr>))"
  using get_key_blocking_Cons [OF assms(1)] assms(2,3)
  by (subst readline_loop.simps) (simp add: t_def put_char_def)

lemma slot_neq: "i < j \<Longrightarrow> j < 2 ^ 32 \<Longrightarrow> (buf :: u32) + of_nat i \<noteq> buf + of_nat j"
  using word_add_of_nat_inj [of buf i j] by auto

lemma holds_line_terminated:
  assumes "holds_line m buf line" and "length line < 2 ^ 32"
  shows "cstr_at (m(buf + of_nat (length line) := 0)) buf line"
  using assms(1) slot_neq [OF _ assms(2), of _ buf] by (auto simp: holds_line_def cstr_at_def)

lemma holds_line_snoc:
  assumes "holds_line m buf line" and "k \<noteq> 0" and "length line < 2 ^ 32"
  shows "holds_line (m(buf + of_nat (length line) := k)) buf (line @ [k])"
  using assms(1,2) slot_neq [OF _ assms(3), of _ buf] by (auto simp: holds_line_def nth_append less_Suc_eq)

lemma holds_line_butlast:
  assumes "holds_line m buf line" and "length line \<le> 2 ^ 32"
  shows "holds_line (m(buf + of_nat (length line - 1) := x)) buf (butlast line)"
proof -
  have "buf + of_nat i \<noteq> buf + of_nat (length line - 1)" if "i < length line - 1" for i
    by (rule slot_neq [OF that]) (use that assms(2) in simp)
  then show ?thesis using assms(1) by (auto simp: holds_line_def nth_butlast)
qed

lemma readline_loop_line:
  assumes "line_fits n line (keys s)" and "holds_line (umem s) buf line" and "n \<le> 2 ^ 32"
  shows "\<exists>u. readline_loop buf n (length line) s = Some u \<and> cstr_at (umem u) buf (edit line (keys s)) \<and>
    out u = out s @ echo line (keys s) \<and> tok_sp u = tok_sp s \<and> (\<forall>a. \<not> in_block a buf n \<longrightarrow> umem u a = umem s a)"
  using assms(1,2)
proof (induction "keys s" arbitrary: s line)
  case Nil
  then show ?case by simp
next
  case (Cons k ks)
  note ks = Cons.hyps(2) [symmetric]
  have i: "length line < n" using Cons.prems(1) ks by simp
  have blk: "in_block (buf + of_nat j) buf n" if "j < n" for j
    using that assms(3) by (simp add: in_block_def unat_of_nat32)
  consider "k = 0" | "k = 0x0d" | "k = 0x08" "line = []" | "k = 0x08" "line \<noteq> []" | "k \<noteq> 0" "k \<noteq> 0x0d" "k \<noteq> 0x08" by blast
  then show ?case
  proof cases
    case 1
    then show ?thesis
      using Cons.hyps(1) [of "s\<lparr>keys := ks\<rparr>" line] Cons.prems ks i readline_loop_skip [of s ks buf n "length line"] by simp
  next
    case 2
    then show ?thesis
      using readline_loop_key [OF ks _ i, of buf] holds_line_terminated [OF Cons.prems(2)] ks blk [OF i] i assms(3) by auto
  next
    case 3
    then show ?thesis
      using Cons.hyps(1) [of "s\<lparr>keys := ks\<rparr>" line] Cons.prems ks readline_loop_key [OF ks _ i, of buf] by simp
  next
    case 4
    let ?t = "s\<lparr>keys := ks, umem := (umem s)(buf + of_nat (length line - 1) := 0), out := out s @ [k]\<rparr>"
    have "holds_line (umem ?t) buf (butlast line)"
      using holds_line_butlast Cons.prems(2) i assms(3) by simp
    then show ?thesis
      using Cons.hyps(1) [of ?t "butlast line"] Cons.prems(1) ks 4 readline_loop_key [OF ks _ i, of buf] blk [of "length line - 1"] i
      by auto
  next
    case 5
    let ?t = "s\<lparr>keys := ks, out := out s @ [k], umem := (umem s)(buf + of_nat (length line) := k)\<rparr>"
    have "holds_line (umem ?t) buf (line @ [k])"
      using holds_line_snoc [OF Cons.prems(2) 5(1)] i assms(3) by simp
    then show ?thesis
      using Cons.hyps(1) [of ?t "line @ [k]"] Cons.prems(1) ks 5 readline_loop_key [OF ks _ i, of buf] blk [OF i]
      by auto
  qed
qed

lemma readline_result:
  assumes "line_fits (nat max_len) [] (keys s)" and "max_len \<le> 2 ^ 32"
  shows "\<exists>u. readline_terminal buf max_len s = Some u \<and> cstr_at (umem u) buf (edit [] (keys s)) \<and>
    out u = out s @ echo [] (keys s) \<and> tok_sp u = tok_sp s \<and> (\<forall>a. \<not> in_block a buf (nat max_len) \<longrightarrow> umem u a = umem s a)"
proof -
  have "nat max_len \<le> 2 ^ 32" using assms(2) by simp
  from readline_loop_line [OF assms(1) _ this, of buf] show ?thesis by (simp add: readline_terminal_def holds_line_def)
qed

text \<open>C20: when the typed line stays shorter than the buffer until ENTER is pressed, \<^verbatim>\<open>readline_terminal\<close> returns with the
  edited line as a terminated string in the buffer: characters are appended, a backspace removes the
  last one and is ignored on an empty line. It shows exactly what is typed and writes nowhere else.\<close>

theorem readline_edits:
  assumes "line_fits (nat max_len) [] (keys s)" and "max_len \<le> 2 ^ 32"
  shows "\<exists>u. readline_terminal buf max_len s = Some u \<and> cstr_at (umem u) buf (edit [] (keys s)) \<and>
    out u = out s @ echo [] (keys s) \<and> (\<forall>a. \<not> in_block a buf (nat max_len) \<longrightarrow> umem u a = umem s a)"
  using readline_result [OF assms, of buf] by blast

definition demo_prog :: "u8 list \<Rightarrow> user_prog" where
  "demo_prog ks = \<lparr>umem = (\<lambda>_. 7), heap_end = HEAP_TOP, heap_curr = HEAP_TOP, tok_sp = 0, out = [], keys = ks\<rparr>"

text \<open>\<^verbatim>\<open>lx\<close>, backspace, nothing, \<^verbatim>\<open>s\<close>, ENTER.\<close>

theorem readline_edits_witness:
  "\<exists>u. readline_terminal 0x1000 100 (demo_prog [108, 120, 8, 0, 115, 13]) = Some u \<and> cstr_at (umem u) 0x1000 [108, 115]"
  using readline_edits [of 100 "demo_prog [108, 120, 8, 0, 115, 13]" "0x1000"] by (auto simp: demo_prog_def)

text \<open>When the line fills the buffer, the loop ends without a terminator.\<close>

lemma readline_unterminated:
  assumes "length ks = n" and "\<forall>k \<in> set ks. k \<notin> {0, 0x08, 0x0d}" and "n < 2 ^ 32" and "keys s = ks @ rest"
  shows "\<exists>u. readline_terminal buf (int n) s = Some u \<and> holds_line (umem u) buf ks \<and>
    umem u (buf + of_nat n) = umem s (buf + of_nat n)"
proof -
  have "\<exists>u. readline_loop buf n (length line) s = Some u \<and> holds_line (umem u) buf (line @ ks) \<and>
      umem u (buf + of_nat n) = umem s (buf + of_nat n)"
    if "length line + length ks = n" "holds_line (umem s) buf line" "keys s = ks @ rest"
      "\<forall>k \<in> set ks. k \<notin> {0, 0x08, 0x0d}" for line ks and s :: "'a user_prog_scheme"
    using that
  proof (induction ks arbitrary: line s)
    case Nil
    then show ?case by (subst readline_loop.simps) simp
  next
    case (Cons k ks)
    let ?t = "s\<lparr>keys := ks @ rest, out := out s @ [k], umem := (umem s)(buf + of_nat (length line) := k)\<rparr>"
    have i: "length line < n" using Cons.prems(1) by simp
    have "readline_loop buf n (length line) s = readline_loop buf n (length (line @ [k])) ?t"
      using readline_loop_key [of s k "ks @ rest" "length line" n buf] Cons.prems(3,4) i by simp
    moreover have hl: "holds_line (umem ?t) buf (line @ [k])"
      using holds_line_snoc [OF Cons.prems(2), of k] Cons.prems(4) i assms(3) by simp
    ultimately show ?case
      using Cons.IH [OF _ hl] Cons.prems slot_neq [OF i assms(3), of buf] by simp
  qed
  from this [of "[]" ks s] show ?thesis using assms by (simp add: readline_terminal_def holds_line_def)
qed

section \<open>Tokens\<close>

text \<open>The maximal runs of characters that are no delimiters.\<close>

function tokens :: "u8 set \<Rightarrow> u8 list \<Rightarrow> u8 list list" where
  "tokens D xs =
     (let ys = dropWhile (\<lambda>c. c \<in> D) xs
      in if ys = [] then [] else takeWhile (\<lambda>c. c \<notin> D) ys # tokens D (drop 1 (dropWhile (\<lambda>c. c \<notin> D) ys)))"
  by pat_completeness auto
termination
proof (relation "measure (\<lambda>(D, xs). length xs)", goal_cases)
  case (2 D xs ys)
  then have "length (dropWhile (\<lambda>c. c \<notin> D) ys) \<le> length ys" "length ys \<le> length xs" "0 < length ys"
    by (simp_all add: length_dropWhile_le)
  then have "length (dropWhile (\<lambda>c. c \<notin> D) ys) - 1 < length xs" by linarith
  then show ?case by simp
qed simp

declare tokens.simps [simp del]

text \<open>The loop with which the shell collects the tokens: call again with a null pointer until that is returned.\<close>

partial_function (option) token_loop ::
    "addr \<Rightarrow> addr \<Rightarrow> 'a user_prog_scheme \<Rightarrow> (addr list \<times> 'a user_prog_scheme) option" where
  "token_loop delimiters token s =
     (if token = 0 then Some ([], s)
      else do {
        (t, s) \<leftarrow> strtok 0 delimiters s;
        (ts, s) \<leftarrow> token_loop delimiters t s;
        Some (token # ts, s)
      })"

lemma strtok_skip_run:
  assumes "cstr_at m p xs" and "\<And>c. is_delimiter m d len c \<longleftrightarrow> c \<in> D" and "0 \<notin> D"
  shows "strtok_skip m d len p = Some (p + of_nat (length (takeWhile (\<lambda>c. c \<in> D) xs)))"
  using assms(1)
proof (induction xs arbitrary: p)
  case Nil
  then show ?case using assms(2,3) by (subst strtok_skip.simps) (simp add: cstr_at_Nil)
next
  case (Cons x xs)
  then have "m p = x" "cstr_at m (p + 1) xs" by (simp_all add: cstr_at_Cons)
  with Cons.IH [of "p + 1"] assms(2) show ?case by (subst strtok_skip.simps) (simp add: algebra_simps)
qed

lemma strtok_end_run:
  assumes "cstr_at m p xs" and "\<And>c. is_delimiter m d len c \<longleftrightarrow> c \<in> D" and "0 \<notin> D"
  shows "strtok_end m d len p =
    (let n = length (takeWhile (\<lambda>c. c \<notin> D) xs)
     in Some (if n = length xs then (m, p + of_nat n) else (m(p + of_nat n := 0), p + of_nat n + 1)))"
  using assms(1)
proof (induction xs arbitrary: p)
  case Nil
  then show ?case by (subst strtok_end.simps) (simp add: cstr_at_Nil)
next
  case (Cons x xs)
  then have "m p = x" "x \<noteq> 0" "cstr_at m (p + 1) xs" by (simp_all add: cstr_at_Cons)
  with Cons.IH [of "p + 1"] assms(2) show ?case by (subst strtok_end.simps) (simp add: algebra_simps Let_def)
qed

lemma is_delimiter_iff: "cstr_at m d ds \<Longrightarrow> is_delimiter m d (length ds) c \<longleftrightarrow> c \<in> set ds"
  by (auto simp: is_delimiter_def cstr_at_def in_set_conv_nth image_iff)

text \<open>One call: where the scan resumes, the token it cuts off and where the next call resumes.\<close>

definition token_start :: "u8 list \<Rightarrow> u8 list \<Rightarrow> nat" where
  "token_start ds xs = length (takeWhile (\<lambda>c. c \<in> set ds) xs)"

definition token_end :: "u8 list \<Rightarrow> u8 list \<Rightarrow> nat" where
  "token_end ds xs = token_start ds xs + length (takeWhile (\<lambda>c. c \<notin> set ds) (drop (token_start ds xs) xs))"

lemma token_bounds: "token_start ds xs \<le> token_end ds xs" "token_end ds xs \<le> length xs" "token_start ds xs \<le> length xs"
proof -
  show s: "token_start ds xs \<le> length xs" by (simp add: token_start_def length_takeWhile_le)
  show "token_start ds xs \<le> token_end ds xs" by (simp add: token_end_def)
  have "length (takeWhile (\<lambda>c. c \<notin> set ds) (drop (token_start ds xs) xs)) \<le> length xs - token_start ds xs"
    using length_takeWhile_le [of _ "drop (token_start ds xs) xs"] by simp
  then show "token_end ds xs \<le> length xs" using s by (simp add: token_end_def)
qed

lemma tokens_step:
  "tokens (set ds) xs =
     (if token_start ds xs = length xs then []
      else take (token_end ds xs - token_start ds xs) (drop (token_start ds xs) xs) # tokens (set ds) (drop (Suc (token_end ds xs)) xs))"
proof -
  have d: "dropWhile (\<lambda>c. c \<in> set ds) xs = drop (token_start ds xs) xs"
    by (simp add: token_start_def dropWhile_eq_drop)
  let ?ys = "drop (token_start ds xs) xs"
  have "?ys = [] \<longleftrightarrow> token_start ds xs = length xs" using token_bounds(3) [of ds xs] by auto
  moreover have "takeWhile (\<lambda>c. c \<notin> set ds) ?ys = take (token_end ds xs - token_start ds xs) ?ys"
    unfolding token_end_def by simp (rule takeWhile_eq_take)
  moreover have "drop 1 (dropWhile (\<lambda>c. c \<notin> set ds) ?ys) = drop (Suc (token_end ds xs)) xs"
    unfolding token_end_def dropWhile_eq_drop [of _ ?ys] by (simp add: add.commute)
  ultimately show ?thesis
    unfolding tokens.simps [of _ xs] Let_def d by simp
qed

lemma strtok_step:
  assumes "p = (if tok_sp s = 0 then str else tok_sp s)" and "p \<noteq> 0"
    and xs: "cstr_at (umem s) p xs" and ds: "cstr_at (umem s) d ds"
  shows "strtok str d s = Some
    (if token_start ds xs = length xs then (0, s\<lparr>tok_sp := 0\<rparr>)
     else (p + of_nat (token_start ds xs),
       if token_end ds xs = length xs then s\<lparr>tok_sp := p + of_nat (length xs)\<rparr>
       else s\<lparr>umem := (umem s)(p + of_nat (token_end ds xs) := 0), tok_sp := p + of_nat (Suc (token_end ds xs))\<rparr>))"
proof -
  let ?b = "token_start ds xs" let ?q = "p + of_nat ?b"
  note del = is_delimiter_iff [OF ds] and nz = cstr_at_nonzero [OF ds]
  have skip: "strtok_skip (umem s) d (length ds) p = Some ?q"
    by (simp add: strtok_skip_run [OF xs del nz] token_start_def)
  have end0: "umem s ?q = 0 \<longleftrightarrow> ?b = length xs" by (rule cstr_at_end_iff [OF xs token_bounds(3)])
  have "?b \<noteq> length xs \<Longrightarrow> strtok_end (umem s) d (length ds) ?q =
      Some (if token_end ds xs = length xs then (umem s, p + of_nat (length xs))
            else ((umem s)(p + of_nat (token_end ds xs) := 0), p + of_nat (Suc (token_end ds xs))))"
    using token_bounds [of ds xs]
    by (subst strtok_end_run [OF cstr_at_drop [OF xs token_bounds(3)] del nz])
      (auto simp: Let_def token_end_def algebra_simps)
  then show ?thesis
    using assms(1,2) skip end0 strlen_cstr [OF ds]
    by (auto simp: strtok_def Let_def stdlib_strlen_def split: if_splits)
qed

definition collect :: "addr \<Rightarrow> addr \<Rightarrow> 'a user_prog_scheme \<Rightarrow> (addr list \<times> 'a user_prog_scheme) option" where
  "collect str delimiters s = do { (t, s) \<leftarrow> strtok str delimiters s; token_loop delimiters t s }"

lemma token_loop_0: "token_loop d 0 s = Some ([], s)"
  by (subst token_loop.simps) simp

lemma token_loop_next: "t \<noteq> 0 \<Longrightarrow> token_loop d t s = map_option (\<lambda>(ts, u). (t # ts, u)) (collect 0 d s)"
  by (subst token_loop.simps) (auto simp: collect_def split: Option.bind_splits)

text \<open>The token that one call cuts off, and the text it leaves for the next.\<close>

lemma token_memory:
  fixes p :: addr and ds xs :: "u8 list"
  defines "b \<equiv> token_start ds xs" and "e \<equiv> token_end ds xs"
  assumes xs: "cstr_at m p xs" and len: "unat p + length xs < 2 ^ 32"
  defines "m' \<equiv> (if e = length xs then m else m(p + of_nat e := 0))"
  shows "cstr_at m' (p + of_nat b) (take (e - b) (drop b xs))"
    and "cstr_at m' (p + of_nat (min (Suc e) (length xs))) (drop (Suc e) xs)"
proof -
  have be: "b \<le> e" "e \<le> length xs" using token_bounds [of ds xs] by (simp_all add: b_def e_def)
  have ne: "p + of_nat i \<noteq> p + of_nat e" if "i \<le> length xs" "i \<noteq> e" for i
    using unat_offset [of p i] unat_offset [of p e] that be len by (metis add_left_cancel le_less_trans add_le_cancel_left)
  have m': "m' (p + of_nat i) = (if i = e then 0 else m (p + of_nat i))" if "i \<le> length xs" for i
    using ne [OF that] xs by (auto simp: m'_def cstr_at_def)
  show "cstr_at m' (p + of_nat b) (take (e - b) (drop b xs))"
    unfolding cstr_at_def using be xs
    by (auto simp: add.assoc m' cstr_at_def simp flip: of_nat_add)
  show "cstr_at m' (p + of_nat (min (Suc e) (length xs))) (drop (Suc e) xs)"
  proof (cases "e = length xs")
    case True
    then show ?thesis using xs by (simp add: m'_def cstr_at_Nil cstr_at_def)
  next
    case False
    then have "Suc e \<le> length xs" using be by simp
    then have "cstr_at m (p + of_nat (Suc e)) (drop (Suc e) xs)" by (rule cstr_at_drop [OF xs])
    then have "cstr_at m' (p + of_nat (Suc e)) (drop (Suc e) xs)"
    proof (rule cstr_at_cong)
      fix i assume "i \<le> length (drop (Suc e) xs)"
      then have "Suc e + i \<le> length xs" using \<open>Suc e \<le> length xs\<close> by simp
      then show "m' (p + of_nat (Suc e) + of_nat i) = m (p + of_nat (Suc e) + of_nat i)"
        using m' [of "Suc e + i"] unfolding add.assoc of_nat_add [symmetric] by simp
    qed
    then show ?thesis using \<open>Suc e \<le> length xs\<close> by (simp add: min_absorb1)
  qed
qed

text \<open>The string at \<open>p\<close> lies below the top of the address space and apart from the delimiters.\<close>

definition separate :: "addr \<Rightarrow> nat \<Rightarrow> addr \<Rightarrow> nat \<Rightarrow> bool" where
  "separate p n d k \<longleftrightarrow> p \<noteq> 0 \<and> unat p + n < 2 ^ 32 \<and> (\<forall>i \<le> k. \<not> in_block (d + of_nat i) p n)"

lemma separate_rest:
  assumes "separate p n d k" and "j \<le> n"
  shows "separate (p + of_nat j) (n - j) d k"
    and "in_block a (p + of_nat j) (n - j) \<Longrightarrow> in_block a p n"
    and "i < j \<Longrightarrow> \<not> in_block (p + of_nat i) (p + of_nat j) (n - j)"
proof -
  have p: "p \<noteq> 0" "unat p + n < 2 ^ 32" using assms(1) by (simp_all add: separate_def)
  then have j: "unat (p + of_nat j) = unat p + j" using assms(2) by (intro unat_offset) simp
  have sub: "in_block a p n" if "in_block a (p + of_nat j) (n - j)" for a
    using that p(2) assms(2) by (simp add: in_block_range j)
  show "in_block a (p + of_nat j) (n - j) \<Longrightarrow> in_block a p n" by (rule sub)
  have "0 < unat p" using p(1) unat_gt_0 by blast
  then have "unat (p + of_nat j) \<noteq> 0" unfolding j by simp
  then have "p + of_nat j \<noteq> 0" by force
  then show "separate (p + of_nat j) (n - j) d k"
    using assms p(2) sub by (auto simp: separate_def j)
  show "\<not> in_block (p + of_nat i) (p + of_nat j) (n - j)" if "i < j"
    using that unat_offset [of p i] p(2) assms(2) by (simp add: in_block_range j)
qed

lemma collect_result:
  assumes "p = (if tok_sp s = 0 then str else tok_sp s)" and "separate p (length xs) d (length ds)"
    and "cstr_at (umem s) p xs" and "cstr_at (umem s) d ds"
  shows "\<exists>ts m. collect str d s = Some (ts, s\<lparr>umem := m, tok_sp := 0\<rparr>) \<and>
    list_all2 (cstr_at m) ts (tokens (set ds) xs) \<and> (\<forall>a. \<not> in_block a p (length xs) \<longrightarrow> m a = umem s a)"
  using assms
proof (induction "length xs" arbitrary: xs p s str rule: less_induct)
  case less
  let ?b = "token_start ds xs" and ?e = "token_end ds xs"
  have p: "p \<noteq> 0" "unat p + length xs < 2 ^ 32" using less.prems(2) by (simp_all add: separate_def)
  note step = strtok_step [OF less.prems(1) p(1) less.prems(3,4)]
  show ?case
  proof (cases "?b = length xs")
    case True
    then show ?thesis
      unfolding collect_def step by (intro exI [of _ "[]"] exI [of _ "umem s"]) (simp add: token_loop_0 tokens_step)
  next
    case False
    define j where "j = min (Suc ?e) (length xs)"
    define m where "m = (if ?e = length xs then umem s else (umem s)(p + of_nat ?e := 0))"
    let ?t = "s\<lparr>umem := m, tok_sp := p + of_nat j\<rparr>"
    have be: "?b < length xs" "?b \<le> ?e" "?e \<le> length xs" using False token_bounds [of ds xs] by simp_all
    then have j: "j \<le> length xs" "?b < j" and rest: "length (drop (Suc ?e) xs) = length xs - j" by (auto simp: j_def)
    note sep = separate_rest [OF less.prems(2) j(1)]
    have "unat (p + of_nat ?b) \<noteq> 0" using unat_offset [of p ?b] be p by (simp add: unat_eq_zero)
    then have t0: "p + of_nat ?b \<noteq> 0" by force
    have out: "m a = umem s a" if "\<not> in_block a p (length xs)" for a
      using that be in_block_offset [of ?e p "length xs"] p(2) by (auto simp: m_def)
    have tok: "cstr_at m (p + of_nat ?b) (take (?e - ?b) (drop ?b xs))"
      unfolding m_def by (rule token_memory(1) [OF less.prems(3) p(2)])
    have nxt: "cstr_at m (p + of_nat j) (drop (Suc ?e) xs)"
      unfolding m_def j_def by (rule token_memory(2) [OF less.prems(3) p(2)])
    have ds: "cstr_at m d ds"
      using less.prems(4) by (rule cstr_at_cong) (use less.prems(2) out in \<open>simp add: separate_def\<close>)
    have "p + of_nat j \<noteq> 0" and "length xs - j < length xs" using sep(1) j be by (auto simp: separate_def)
    then obtain ts u where u: "collect 0 d ?t = Some (ts, ?t\<lparr>umem := u, tok_sp := 0\<rparr>)"
        "list_all2 (cstr_at u) ts (tokens (set ds) (drop (Suc ?e) xs))"
        "\<And>a. \<not> in_block a (p + of_nat j) (length xs - j) \<Longrightarrow> u a = m a"
      using less.hyps [of "drop (Suc ?e) xs" "p + of_nat j" ?t 0] sep(1) nxt ds rest by auto
    have "strtok str d s = Some (p + of_nat ?b, ?t)"
      using be False unfolding step m_def j_def by (auto simp: min_absorb1 Suc_le_eq)
    then have "collect str d s = Some ((p + of_nat ?b) # ts, s\<lparr>umem := u, tok_sp := 0\<rparr>)"
      using u(1) by (simp add: collect_def [of str] token_loop_next [OF t0])
    moreover have "cstr_at u (p + of_nat ?b) (take (?e - ?b) (drop ?b xs))"
      using tok
    proof (rule cstr_at_cong)
      fix i assume "i \<le> length (take (?e - ?b) (drop ?b xs))"
      then have "?b + i < j \<or> j = length xs" using be by (auto simp: j_def)
      then have "\<not> in_block (p + of_nat (?b + i)) (p + of_nat j) (length xs - j)"
        using sep(3) [of "?b + i"] by (cases "?b + i < j") (simp, simp add: in_block_def)
      then show "u (p + of_nat ?b + of_nat i) = m (p + of_nat ?b + of_nat i)"
        using u(3) by (simp add: add.assoc)
    qed
    moreover have "u a = umem s a" if "\<not> in_block a p (length xs)" for a
      using u(3) [of a] out [OF that] sep(2) [of a] that by metis
    ultimately show ?thesis
      using False u(2)
      by (intro exI [of _ "(p + of_nat ?b) # ts"] exI [of _ u]) (auto simp: tokens_step [of ds xs])
  qed
qed

text \<open>C18: cutting up a string with \<^verbatim>\<open>strtok\<close>, as the shell does it with \<^verbatim>\<open>strtok(buf, d)\<close> and then \<^verbatim>\<open>strtok(NULL, d)\<close> until a
  null pointer is returned, ends and yields the maximal runs of non-delimiters in order, each a terminated
  string; it changes no byte outside the string and leaves the tokenizer ready for another string.\<close>

theorem strtok_tokens:
  assumes "tok_sp s = 0" and "separate str (length xs) d (length ds)"
    and "cstr_at (umem s) str xs" and "cstr_at (umem s) d ds"
  shows "\<exists>ts m. collect str d s = Some (ts, s\<lparr>umem := m\<rparr>) \<and>
    list_all2 (cstr_at m) ts (tokens (set ds) xs) \<and> (\<forall>a. \<not> in_block a str (length xs) \<longrightarrow> m a = umem s a)"
proof -
  have eq: "s\<lparr>umem := m, tok_sp := 0\<rparr> = s\<lparr>umem := m\<rparr>" for m using assms(1) by (cases s) simp
  show ?thesis using collect_result [OF _ assms(2-4)] assms(1) unfolding eq by simp
qed

text \<open>\<^verbatim>\<open>" ls  a"\<close>, cut at spaces.\<close>

definition text_prog :: user_prog where
  "text_prog = (demo_prog [])\<lparr>umem := (\<lambda>a. if a = 0x1000 then 32 else if a = 0x1001 then 108 else if a = 0x1002 then 115
     else if a = 0x1003 then 32 else if a = 0x1004 then 32 else if a = 0x1005 then 97 else if a = 0x2000 then 32 else 0)\<rparr>"

lemma text_prog_strings:
  "cstr_at (umem text_prog) 0x1000 [32, 108, 115, 32, 32, 97]" "cstr_at (umem text_prog) 0x2000 [32]"
  by (simp_all add: cstr_at_Cons cstr_at_Nil text_prog_def)

theorem strtok_tokens_witness:
  "\<exists>ts m. collect 0x1000 0x2000 text_prog = Some (ts, text_prog\<lparr>umem := m\<rparr>) \<and> list_all2 (cstr_at m) ts [[108, 115], [97]]"
proof -
  have "tokens (set [32]) [32, 108, 115, 32, 32, 97] = [[108, 115], [97]]" by (simp add: tokens.simps)
  moreover have "separate 0x1000 (length [32 :: u8, 108, 115, 32, 32, 97]) 0x2000 (length [32 :: u8])"
    by (auto simp: separate_def in_block_def le_Suc_eq)
  moreover have "tok_sp text_prog = 0" by (simp add: text_prog_def demo_prog_def)
  ultimately show ?thesis using strtok_tokens [OF _ _ text_prog_strings] by metis
qed

end
