(* ===== verification/User_Heap.thy ===== *)
theory User_Heap
  imports User_Memory Stdlib_Props
begin

text \<open>
  The heap of a user program, \<^verbatim>\<open>malloc\<close> of \<^verbatim>\<open>src/programs/stdlib/src/stdlib.c\<close>, on top of the system call \<^verbatim>\<open>mmap\<close>. The
  locale \<open>page_provider\<close> says what the allocator relies on; it is interpreted on \<open>program_mmap\<close>, the kernel's \<open>mmap_checked\<close>
  with its effect on the memory the program sees.
\<close>

section \<open>What the allocator relies on\<close>

text \<open>A request to map a range acts on the memory the program sees and on the state of the kernel.\<close>

locale page_provider =
  fixes grow :: "addr \<Rightarrow> addr \<Rightarrow> u32 \<Rightarrow> memory \<times> 'k \<Rightarrow> int \<times> memory \<times> 'k"
    and ready :: "'k \<Rightarrow> bool"
    and writable :: "'k \<Rightarrow> addr \<Rightarrow> bool"
  assumes grow_ready: "ready k \<Longrightarrow> grow a b O_READ_WRITE (m, k) = (0, m', k') \<Longrightarrow> ready k'"
    and grow_range: "ready k \<Longrightarrow> grow a b O_READ_WRITE (m, k) = (0, m', k') \<Longrightarrow> a < b"
    and grow_grants: "ready k \<Longrightarrow> grow a b O_READ_WRITE (m, k) = (0, m', k') \<Longrightarrow> a \<le> x \<Longrightarrow> x < b \<Longrightarrow> writable k' x"
    and grow_keeps: "ready k \<Longrightarrow> grow a b O_READ_WRITE (m, k) = (0, m', k') \<Longrightarrow> writable k x \<Longrightarrow> \<not> (a \<le> x \<and> x < b) \<Longrightarrow> writable k' x"
    and grow_zero: "ready k \<Longrightarrow> grow a b O_READ_WRITE (m, k) = (0, m', k') \<Longrightarrow> a \<le> x \<Longrightarrow> x < b \<Longrightarrow> m' x = 0"
    and grow_frame: "grow a b O_READ_WRITE (m, k) = (r, m', k') \<Longrightarrow> \<not> (a \<le> x \<and> x < b) \<Longrightarrow> m' x = m x"

text \<open>The heap grows down from \<^verbatim>\<open>HEAP_TOP\<close>; everything above \<^verbatim>\<open>heap_end\<close> is writable, allocations start at \<^verbatim>\<open>heap_curr\<close>.\<close>

definition user_heap_ok :: "('k \<Rightarrow> bool) \<Rightarrow> ('k \<Rightarrow> addr \<Rightarrow> bool) \<Rightarrow> 'a user_prog_scheme \<Rightarrow> 'k \<Rightarrow> bool" where
  "user_heap_ok ready writable s k \<longleftrightarrow>
     ready k \<and> is_page_aligned (heap_end s) \<and> heap_end s \<le> heap_curr s \<and> heap_curr s \<le> HEAP_TOP \<and>
     (\<forall>x. heap_end s \<le> x \<longrightarrow> x < HEAP_TOP \<longrightarrow> writable k x)"

lemma down_align_eq: "down_align a = paging_down_align_addr a"
  by (simp add: down_align_def paging_down_align_addr_def)

lemma down_align_props: "is_page_aligned (down_align a)" "unat (down_align a) = unat a - unat a mod 4096"
proof -
  show u: "unat (down_align a) = unat a - unat a mod 4096"
    unfolding down_align_def unat_mod_4096 [symmetric] by (rule unat_sub) (simp add: word_le_nat_alt unat_mod_4096)
  show "is_page_aligned (down_align a)"
    unfolding page_aligned_base page_base_def u by (simp add: minus_mod_eq_mult_div)
qed

text \<open>The header of a block and the bytes around it.\<close>

lemma header_stores:
  fixes m :: memory and p :: addr and v w :: u32
  defines "m' \<equiv> store32 (store32 m p v) (p + 4) w"
  shows "load32 m' p = v" and "load32 m' (p + 4) = w" and "\<not> in_block a p 8 \<Longrightarrow> m' a = m a"
proof -
  have far: "p + of_nat i \<noteq> p + 4 + of_nat j" if "i < 4" "j < 4" for i j
  proof -
    have "unat (of_nat i :: addr) \<noteq> unat (of_nat (4 + j) :: addr)" using that by (simp add: unat_of_nat del: of_nat_add)
    then have "of_nat i \<noteq> (of_nat (4 + j) :: addr)" by metis
    then show ?thesis by (simp add: add.assoc)
  qed
  have "load32 m' p = load32 (store32 m p v) p"
    unfolding m'_def by (intro load32_cong store32_other_byte far)
  then show "load32 m' p = v" by (simp add: load32_store32_same)
  show "load32 m' (p + 4) = w" unfolding m'_def by (rule load32_store32_same)
  assume a: "\<not> in_block a p 8"
  have "a \<noteq> p + of_nat i" if "i < 8" for i
    using a in_block_offset [of i p 8] that by auto
  from this [of 4] this [of 5] this [of 6] this [of 7] have "m' a = store32 m p v a"
    unfolding m'_def by (intro store32_other_byte) (auto simp: less_Suc_eq numeral_eq_Suc add.assoc)
  also have "\<dots> = m a" using \<open>\<And>i. i < 8 \<Longrightarrow> a \<noteq> p + of_nat i\<close> by (intro store32_other_byte) simp
  finally show "m' a = m a" .
qed

lemma unat_plus8:
  fixes a b :: addr
  assumes "unat a + 8 \<le> unat b"
  shows "unat (a + 8) = unat a + 8"
proof -
  have "unat a + 8 < 4294967296" using assms unat_u32_bound [of b] by linarith
  then show ?thesis using unat_offset [of a 8] by simp
qed

text \<open>Taking a block from the writable part.\<close>

lemma malloc_take_ok:
  assumes "user_heap_ok ready writable s k" and "unat n + 8 \<le> unat (heap_curr s)"
    and "heap_end s \<le> heap_curr s - (n + 8)" and "malloc_take n (n + 8) s = (p, t)"
  shows "user_heap_ok ready writable t k" and "p = heap_curr t + 8" and "unat p + unat n = unat (heap_curr s)" and "p \<noteq> 0"
    and "load32 (umem t) (p - 8) = n" and "load32 (umem t) (p - 4) = HEAP_INFO_MAGIC"
    and "\<not> in_block a (p - 8) 8 \<Longrightarrow> umem t a = umem s a"
proof -
  let ?i = "heap_curr s - (n + 8)"
  note take = assms(4) [unfolded malloc_take_def Let_def SIZEOF_malloc_info_def prod.inject]
  have t: "t = s\<lparr>heap_curr := ?i, umem := store32 (store32 (umem s) ?i n) (?i + 4) HEAP_INFO_MAGIC\<rparr>"
    by (rule take [THEN conjunct2, symmetric])
  have p: "p = ?i + 8" by (rule take [THEN conjunct1, symmetric])
  note n8 = unat_plus8 [OF assms(2)]
  then have i: "unat ?i = unat (heap_curr s) - (unat n + 8)"
    using assms(2) by (metis unat_sub word_le_nat_alt)
  then have "unat ?i + 8 \<le> unat (heap_curr s)" using assms(2) by simp
  from unat_plus8 [OF this] have p': "unat p = unat ?i + 8" unfolding p .
  show "unat p + unat n = unat (heap_curr s)" unfolding p' i using assms(2) by simp
  have "?i \<le> heap_curr s" unfolding word_le_nat_alt i by simp
  then show "user_heap_ok ready writable t k"
    using assms(1,3) by (auto simp: user_heap_ok_def t)
  show "p = heap_curr t + 8" by (simp add: t p)
  show "p \<noteq> 0" using p' by auto
  have e: "p - 8 = ?i" "p - 4 = ?i + 4" by (simp_all add: p)
  show "load32 (umem t) (p - 8) = n" and "load32 (umem t) (p - 4) = HEAP_INFO_MAGIC"
    and "\<not> in_block a (p - 8) 8 \<Longrightarrow> umem t a = umem s a"
    using header_stores [where m = "umem s" and p = ?i and v = n and w = HEAP_INFO_MAGIC] unfolding e t by simp_all
qed

context page_provider
begin

text \<open>Growing the heap by at least the request.\<close>

lemma grow_heap_ok:
  assumes "user_heap_ok ready writable s k" and "unat n + 8 \<le> unat (heap_curr s)"
    and e: "e = down_align (heap_end s - (n + 8))" and g: "grow e (heap_end s) O_READ_WRITE (m, k) = (0, m', k')"
  shows "user_heap_ok ready writable (s\<lparr>umem := m', heap_end := e\<rparr>) k'" and "e \<le> heap_curr s - (n + 8)" and "e < heap_end s"
proof -
  have h: "ready k" "unat (heap_end s) \<le> unat (heap_curr s)" "unat (heap_curr s) \<le> 0xC0000000"
    "\<And>x. heap_end s \<le> x \<Longrightarrow> x < HEAP_TOP \<Longrightarrow> writable k x"
    using assms(1) by (simp_all add: user_heap_ok_def word_le_nat_alt)
  note n8 = unat_plus8 [OF assms(2)]
  show "e < heap_end s" by (rule grow_range [OF h(1) g])
  then have lt: "unat e < unat (heap_end s)" by (simp add: word_less_nat_alt)
  note d = down_align_props [of "heap_end s - (n + 8)", folded e]
  have "unat n + 8 \<le> unat (heap_end s)"
  proof (rule ccontr)
    assume "\<not> unat n + 8 \<le> unat (heap_end s)"
    then have "unat (heap_end s - (n + 8)) = 2 ^ 32 + unat (heap_end s) - (unat n + 8)"
      using n8 by (simp add: unat_sub_if_size word_size)
    then have "unat (heap_end s - (n + 8)) = 4294967296 + unat (heap_end s) - (unat n + 8)" by simp
    moreover have "unat (heap_end s - (n + 8)) mod 4096 < 4096" by simp
    ultimately show False using lt d(2) h(3) assms(2) by linarith
  qed
  then have "unat (heap_end s - (n + 8)) = unat (heap_end s) - (unat n + 8)"
    using n8 by (metis unat_sub word_le_nat_alt)
  moreover have c: "unat (heap_curr s - (n + 8)) = unat (heap_curr s) - (unat n + 8)"
    using n8 assms(2) by (metis unat_sub word_le_nat_alt)
  ultimately show "e \<le> heap_curr s - (n + 8)"
    unfolding word_le_nat_alt d(2) c using h(2) by linarith
  have "writable k' x" if "e \<le> x" "x < HEAP_TOP" for x
    using grow_grants [OF h(1) g, of x] grow_keeps [OF h(1) g h(4), of x] that by (meson not_le)
  then show "user_heap_ok ready writable (s\<lparr>umem := m', heap_end := e\<rparr>) k'"
    using grow_ready [OF h(1) g] d(1) lt h(2,3) by (simp add: user_heap_ok_def word_le_nat_alt)
qed

lemma malloc_block:
  assumes "user_heap_ok ready writable s k" and "unat n + 8 \<le> unat (heap_curr s)" and "malloc grow n (s, k) = (p, t, k')"
  shows "p = 0 \<and> heap_curr t = heap_curr s \<and> heap_end t = heap_end s \<and> (\<forall>a. heap_end s \<le> a \<longrightarrow> umem t a = umem s a) \<or>
    p \<noteq> 0 \<and> user_heap_ok ready writable t k' \<and> p = heap_curr t + 8 \<and> unat p + unat n = unat (heap_curr s) \<and>
    load32 (umem t) (p - 8) = n \<and> load32 (umem t) (p - 4) = HEAP_INFO_MAGIC \<and>
    (\<forall>a. \<not> in_block a (p - 8) 8 \<longrightarrow> heap_end s \<le> a \<longrightarrow> umem t a = umem s a) \<and>
    (\<forall>a. \<not> in_block a (p - 8) 8 \<longrightarrow> heap_end t \<le> a \<longrightarrow> a < heap_end s \<longrightarrow> umem t a = 0)"
proof (cases "heap_curr s - (n + 8) < heap_end s")
  case True
  let ?e = "down_align (heap_end s - (n + 8))"
  obtain r m1 k1 where g: "grow ?e (heap_end s) O_READ_WRITE (umem s, k) = (r, m1, k1)" by (metis prod_cases3)
  have kept: "m1 a = umem s a" if "heap_end s \<le> a" for a using grow_frame [OF g, of a] that by (simp add: not_less)
  show ?thesis
  proof (cases "r = 0")
    case r: True
    note new = grow_heap_ok [OF assms(1,2) refl g [unfolded r]]
    have t: "malloc_take n (n + 8) (s\<lparr>umem := m1, heap_end := ?e\<rparr>) = (p, t)" "k' = k1"
      using assms(3) True g r by (auto simp: malloc_def Let_def split: prod.splits)
    have "m1 a = 0" if "?e \<le> a" "a < heap_end s" for a
      using grow_zero [OF _ g [unfolded r] that] assms(1) by (simp add: user_heap_ok_def)
    moreover have "heap_end t = ?e" using t(1) by (auto simp: malloc_take_def Let_def)
    ultimately show ?thesis
      using malloc_take_ok [OF new(1) _ _ t(1)] new(2) assms(2) kept t(2) by simp
  next
    case False
    then show ?thesis using assms(3) True g kept by (auto simp: malloc_def Let_def)
  qed
next
  case False
  then have t: "malloc_take n (n + 8) s = (p, t)" "k' = k"
    using assms(3) by (auto simp: malloc_def Let_def split: prod.splits)
  then have "heap_end t = heap_end s" by (auto simp: malloc_take_def Let_def)
  with malloc_take_ok [OF assms(1,2) _ t(1)] False t(2) show ?thesis by (auto simp: not_less)
qed

end

section \<open>The kernel as a provider of pages\<close>

definition task_table :: "'a proc_st_scheme \<Rightarrow> page_table_32b" where
  "task_table k = page_table (tasks k (curr_task k))"

definition table_ready :: "'a proc_st_scheme \<Rightarrow> bool" where
  "table_ready k \<longleftrightarrow> pt_wf k (task_table k)"

text \<open>The running program may read and write the address: both levels of its page table grant user access and writing.\<close>

definition user_writable :: "'a proc_st_scheme \<Rightarrow> addr \<Rightarrow> bool" where
  "user_writable k a \<longleftrightarrow> map_option snd (walk (mem k) (cr3 (task_table k)) (a div 4096)) = Some 7"

text \<open>
  What the running program finds at an address of a range after \<^verbatim>\<open>mmap\<close> was asked to map it. On success, and where a failed
  call has changed the translation, this is the byte of the frame the page table now names; elsewhere
  the memory of the program is as it was. The range is not compared with ranges mapped before.
\<close>

definition frame_of :: "'a proc_st_scheme \<Rightarrow> addr \<Rightarrow> addr option" where
  "frame_of k a = translate (mem k) (cr3 (task_table k)) a"

definition program_mmap ::
    "nat \<Rightarrow> addr \<Rightarrow> addr \<Rightarrow> u32 \<Rightarrow> memory \<times> 'a proc_st_scheme \<Rightarrow> int \<times> memory \<times> 'a proc_st_scheme" where
  "program_mmap proc a b f = (\<lambda>(m, k).
     let (r, u) = mmap_checked a b f proc k
     in (r, (\<lambda>x. if a \<le> x \<and> x < b \<and> (r = STATUS_OK \<or> frame_of u x \<noteq> frame_of k x)
                 then case frame_of u x of None \<Rightarrow> m x | Some pa \<Rightarrow> mem u pa else m x), u))"

lemma map_region_rights:
  assumes "pt_wf s pt" and "is_page_aligned va" and "is_page_aligned pa" and "is_page_aligned ve" and "va < ve"
    and "bit f 0" and "paging_map_memory_region pt va pa ve f s = (r, u)" and "\<not> (va \<le> a \<and> a < ve)"
    and "walk (mem s) (cr3 pt) (a div 4096) = Some (fr, ucast f)"
  shows "walk (mem u) (cr3 pt) (a div 4096) = Some (fr, ucast f)"
proof -
  note al = assms(2,4) [unfolded page_aligned_base]
  have "\<not> ve div 4096 \<le> va div 4096"
    using assms(5) unfolding page_order [OF al(2)] by (simp add: word_le_nat_alt)
  then have loop: "paging_map_loop pt (va div 4096) (pa div 4096) 0 (ve div 4096) f s = (r, u)"
    using assms(2-4,7) by (simp add: paging_map_memory_region_def Let_def)
  have "unat (ve div 4096) \<le> 1048576" using vpn_bound [of ve] by simp
  note res = map_loop_walk [OF assms(1) this assms(6) loop]
  have "unat (a div 4096) < unat (va div 4096) + 0 \<or> unat (ve div 4096) \<le> unat (a div 4096)"
    using assms(8) page_order [OF al(1), of a] page_order [OF al(2), of a] by auto
  then show ?thesis using res assms(9) vpn_bound by blast
qed

lemma mmap_rights:
  assumes "table_ready s" and "mmap_checked va ve O_READ_WRITE proc s = (STATUS_OK, u)"
  shows "table_ready u" and "va < ve" and "va \<le> a \<Longrightarrow> a < ve \<Longrightarrow> user_writable u a"
    and "user_writable s a \<Longrightarrow> \<not> (va \<le> a \<and> a < ve) \<Longrightarrow> user_writable u a"
    and "va \<le> a \<Longrightarrow> a < ve \<Longrightarrow> \<exists>pa. frame_of u a = Some pa \<and> mem u pa = 0"
proof -
  let ?pt = "task_table s"
  obtain pa t v i where
    g: "is_page_aligned va" "is_page_aligned ve" "KHEAP_SAFE_BOUNDARY \<le> va" "va < ve" and
    z: "kzalloc (ve - va) s = (pa, t)" "pa \<noteq> 0" and
    b: "process_add_vmem_block proc va ve t = (i, v)" "\<not> i < 0" and
    mv: "mem v = mem t" "live v = live t" and
    v: "pt_wf v ?pt" and pg: "pt_pages v ?pt = pt_pages s ?pt" and
    w: "\<And>a. walk (mem v) (cr3 ?pt) (a div 4096) = walk (mem s) (cr3 ?pt) (a div 4096)" and
    m: "paging_map_memory_region ?pt va pa ve (if O_READ_WRITE AND O_WRITE \<noteq> 0 then 7 else 5) v = (STATUS_OK, u)"
    by (rule mmap_mapped [OF task_table_def assms(1) [unfolded table_ready_def] assms(2)]) blast
  have m7: "paging_map_memory_region ?pt va pa ve 7 v = (STATUS_OK, u)" using m by simp
  have wf: "pt_wf s ?pt" and bit: "bit (7 :: u8) 0" using assms(1) by (simp_all add: table_ready_def)
  note new = mmap_memory [OF pt_wfD(1) [OF wf] g(3,4) z]
  note r = map_region_result [OF v bit g(1) new(4) g(2,4) m7]
  have tt: "task_table u = ?pt"
    using heap_frame_proc(1,2) [OF map_region_frame [OF m7]] heap_frame_proc(1,2) [OF kzalloc_frame [OF z(1)]]
      add_vmem_block_ok [OF b] by (simp add: task_table_def)
  show "va < ve" by (rule g(4))
  show "table_ready u" using r by (simp add: table_ready_def tt)
  show "user_writable u a" if "va \<le> a" "a < ve"
    using r that by (simp add: user_writable_def tt)
  have own: "(pa, pages_of (ve - va)) \<notin> pt_pages v ?pt" "(pa, pages_of (ve - va)) \<in> live v"
    using pt_pages_live [OF wf] new(1,2) mv(2) unfolding pg by auto
  show "\<exists>pa. frame_of u a = Some pa \<and> mem u pa = 0" if "va \<le> a" "a < ve"
    using map_region_contents [OF v m7 own(2,1)] new(6) [OF that] mv(1) r that by (simp add: frame_of_def tt)
  assume "user_writable s a" and out: "\<not> (va \<le> a \<and> a < ve)"
  then obtain fr where "walk (mem v) (cr3 ?pt) (a div 4096) = Some (fr, ucast (7 :: u8))"
    using w by (auto simp: user_writable_def)
  from map_region_rights [OF v g(1) new(4) g(2,4) bit m7 out this] show "user_writable u a"
    by (simp add: user_writable_def tt)
qed

lemma program_mmap_ok:
  assumes "program_mmap proc a b O_READ_WRITE (m, k) = (r, m', u)"
  shows "mmap_checked a b O_READ_WRITE proc k = (r, u)" and "\<not> (a \<le> x \<and> x < b) \<Longrightarrow> m' x = m x"
    and "table_ready k \<Longrightarrow> r = STATUS_OK \<Longrightarrow> a \<le> x \<Longrightarrow> x < b \<Longrightarrow> m' x = 0"
proof -
  show c: "mmap_checked a b O_READ_WRITE proc k = (r, u)"
    using assms by (simp add: program_mmap_def Let_def split: prod.splits)
  have m': "m' = (\<lambda>x. if a \<le> x \<and> x < b \<and> (r = STATUS_OK \<or> frame_of u x \<noteq> frame_of k x)
      then case frame_of u x of None \<Rightarrow> m x | Some pa \<Rightarrow> mem u pa else m x)"
    using assms c by (simp add: program_mmap_def)
  show "m' x = m x" if "\<not> (a \<le> x \<and> x < b)" using that by (auto simp: m')
  show "m' x = 0" if "table_ready k" "r = STATUS_OK" "a \<le> x" "x < b"
    using mmap_rights(5) [OF that(1) c [unfolded that(2)] that(3,4)] that by (auto simp: m')
qed

interpretation um: page_provider "program_mmap proc" table_ready user_writable
  for proc
proof unfold_locales
  fix k u :: "'a proc_st_scheme" and a b x m m' r
  show "m' x = m x" if "program_mmap proc a b O_READ_WRITE (m, k) = (r, m', u)" "\<not> (a \<le> x \<and> x < b)"
    by (rule program_mmap_ok(2) [OF that])
  assume k: "table_ready k" and "program_mmap proc a b O_READ_WRITE (m, k) = (0, m', u)"
  note p = program_mmap_ok [OF this(2)]
  show "table_ready u" "a < b" using mmap_rights [OF k] p(1) by simp_all
  show "user_writable u x" "m' x = 0" if "a \<le> x" "x < b" using mmap_rights(3) [OF k] p(1,3) k that by simp_all
  show "user_writable u x" if "user_writable k x" "\<not> (a \<le> x \<and> x < b)" using mmap_rights(4) [OF k] p(1) that by simp
qed



text \<open>The sizes are not checked: a request larger than what is left below \<^verbatim>\<open>heap_curr\<close> returns a pointer above the heap
  without asking for memory.\<close>

lemma malloc_unchecked:
  assumes "heap_end s \<le> heap_curr s" and "unat (heap_curr s) < unat n + 8" and "unat n + 8 < 2 ^ 32"
  shows "\<exists>t. malloc grow n (s, k) = (heap_curr s - n, t, k) \<and> heap_end t = heap_end s"
proof -
  have n8: "unat (n + 8) = unat n + 8" using unat_offset [OF assms(3)] by simp
  then have "unat (heap_curr s - (n + 8)) = 2 ^ 32 + unat (heap_curr s) - (unat n + 8)"
    using assms(2) by (simp add: unat_sub_if_size word_size)
  then have "unat (heap_end s) \<le> unat (heap_curr s - (n + 8))"
    using assms by (simp add: word_le_nat_alt)
  then have "\<not> heap_curr s - (n + 8) < heap_end s" by (simp add: word_less_nat_alt)
  then show ?thesis by (simp add: malloc_def malloc_take_def Let_def)
qed

end
