(* ===== verification/Shell.thy ===== *)
theory Shell
  imports Stdlib
begin

text \<open>
  The shell, \<^verbatim>\<open>src/programs/shell/shell.c\<close>: one pass of its endless loop. The compiler's placement of string literals
  and local variables is the argument \<open>env\<close>. The system calls that create and wait for a process are the argument \<open>os\<close>,
  with the state of the kernel passed along; the kernel sees the memory of the caller. \<open>out\<close> holds what was printed
  since the screen was cleared. \<open>None\<close> is a pass that does not come back: an endless wait, or a fault on a
  null token.
\<close>

section \<open>Environment\<close>

record shell_env =
  rodata :: "string \<Rightarrow> addr"
  buf_at :: addr
  file_path_at :: addr
  printf_buf_at :: addr
  printf_junk :: u32
  argc_at :: addr
  argv_at :: addr
  argc_val :: u32
  argv_val :: addr

record 'k os_calls =
  create_proccess :: "addr \<Rightarrow> int \<Rightarrow> int \<Rightarrow> addr \<Rightarrow> memory \<Rightarrow> 'k \<Rightarrow> int \<times> 'k"
  waitpid :: "int \<Rightarrow> 'k \<Rightarrow> int \<times> 'k"

definition cls :: "'a user_prog_scheme \<Rightarrow> 'a user_prog_scheme" where
  "cls s = s\<lparr>out := []\<rparr>"

definition sh_printf :: "shell_env \<Rightarrow> string \<Rightarrow> u32 list \<Rightarrow> 'a user_prog_scheme \<Rightarrow> 'a user_prog_scheme option" where
  "sh_printf env fmt args s = printf (printf_junk env) (printf_buf_at env) (rodata env fmt) args s"

definition token_strlen :: "addr \<Rightarrow> 'a user_prog_scheme \<Rightarrow> nat option" where
  "token_strlen p s = (if p = 0 then None else stdlib_strlen (umem s) p)"

section \<open>Commands\<close>

partial_function (option) wait_pid_blocking :: "'k os_calls \<Rightarrow> int \<Rightarrow> 'k \<Rightarrow> 'k option" where
  "wait_pid_blocking os pid k =
     (let (r, k) = waitpid os pid k in if r \<noteq> 0 then wait_pid_blocking os pid k else Some k)"

partial_function (option) tok_loop :: "shell_env \<Rightarrow> addr \<Rightarrow> 'a user_prog_scheme \<Rightarrow> 'a user_prog_scheme option" where
  "tok_loop env token s =
     (if token \<noteq> 0
      then do {
        s \<leftarrow> sh_printf env (''%s'' @ [CHR 0x0A]) [token] s;
        (token, s) \<leftarrow> strtok 0 (rodata env '' '') s;
        tok_loop env token s
      }
      else Some s)"

definition tok_command :: "shell_env \<Rightarrow> 'a user_prog_scheme \<Rightarrow> 'a user_prog_scheme option" where
  "tok_command env s =
     do {
       (token, s) \<leftarrow> strtok (buf_at env) (rodata env '' '') s;
       n \<leftarrow> token_strlen token s;
       s \<leftarrow> sh_printf env (''Token: %s, length=%d'' @ [CHR 0x0A]) [token, of_nat n] s;
       tok_loop env token s
     }"

function info_loop :: "shell_env \<Rightarrow> int \<Rightarrow> 'a user_prog_scheme \<Rightarrow> 'a user_prog_scheme option" where
  "info_loop env i s =
     (if i < sint (argc_val env)
      then case sh_printf env (''argv[%d]:  %s'' @ [CHR 0x0A])
                  [word_of_int i, load32 (umem s) (argv_val env + word_of_int (4 * i))] s of
             None \<Rightarrow> None
           | Some s \<Rightarrow> info_loop env (i + 1) s
      else Some s)"
  by pat_completeness auto
termination
  by (relation "measure (\<lambda>(env, i, s). nat (sint (argc_val env) - i))") auto

declare info_loop.simps [simp del]

definition info_args :: "shell_env \<Rightarrow> 'a user_prog_scheme \<Rightarrow> 'a user_prog_scheme option" where
  "info_args env s =
     do {
       s \<leftarrow> sh_printf env (''&argc: %p'' @ [CHR 0x0A]) [argc_at env] s;
       s \<leftarrow> sh_printf env (''&argv: %p'' @ [CHR 0x0A]) [argv_at env] s;
       s \<leftarrow> sh_printf env (''argc: %d'' @ [CHR 0x0A]) [argc_val env] s;
       s \<leftarrow> sh_printf env (''argv: %p'' @ [CHR 0x0A]) [argv_val env] s;
       info_loop env 0 s
     }"

definition wait_if_created :: "'k os_calls \<Rightarrow> int \<Rightarrow> 'k \<Rightarrow> 'k option" where
  "wait_if_created os p k = (if p \<ge> 0 then wait_pid_blocking os p k else Some k)"

definition showmt :: "shell_env \<Rightarrow> 'k os_calls \<Rightarrow> 'a user_prog_scheme \<Rightarrow> 'k \<Rightarrow> ('a user_prog_scheme \<times> 'k) option" where
  "showmt env os s k =
     do {
       s \<leftarrow> sh_printf env (''Showing multi tasking capabilities: Launching two procs that print to screen counting upwards''
              @ [CHR 0x0A]) [] (cls s);
       let path = rodata env ''0:/blank'';
       let args = rodata env (''0:/blank'' @ [CHR 0x00] @ ''showmt'' @ [CHR 0x00]);
       let (p1, k) = create_proccess os path 2 16 args (umem s) k;
       let (p2, k) = create_proccess os path 2 16 args (umem s) k;
       k \<leftarrow> wait_if_created os p1 k;
       k \<leftarrow> wait_if_created os p2 k;
       Some (s, k)
     }"

text \<open>The loop that counts the arguments and their characters.\<close>

partial_function (option) count_args ::
    "shell_env \<Rightarrow> addr \<Rightarrow> int \<Rightarrow> int \<Rightarrow> 'a user_prog_scheme \<Rightarrow> (int \<times> int \<times> 'a user_prog_scheme) option" where
  "count_args env tmp argc len s =
     (if tmp \<noteq> 0
      then do {
        n \<leftarrow> token_strlen tmp s;
        (tmp, s) \<leftarrow> strtok 0 (rodata env '' '') s;
        count_args env tmp (argc + 1) (len + int n + 1) s
      }
      else Some (argc, len, s))"

text \<open>Filling in \<^verbatim>\<open>FILE_PATH\<close>: zeros, the drive, the name.\<close>

definition set_file_path :: "shell_env \<Rightarrow> addr \<Rightarrow> memory \<Rightarrow> memory option" where
  "set_file_path env token m =
     do {
       let m = put_bytes m (file_path_at env) (replicate 128 0);
       (_, m) \<leftarrow> stdlib_strcpy m (file_path_at env) (rodata env ''0:/'');
       Some (snd (stdlib_strncpy m (file_path_at env + 3) token 120))
     }"

definition report_or_wait ::
    "shell_env \<Rightarrow> 'k os_calls \<Rightarrow> addr \<Rightarrow> int \<Rightarrow> 'a user_prog_scheme \<Rightarrow> 'k \<Rightarrow> ('a user_prog_scheme \<times> 'k) option" where
  "report_or_wait env os token res s k =
     (if res < 0
      then do { s \<leftarrow> sh_printf env (''Command not found: %s'' @ [CHR 0x0A]) [token] s; Some (s, k) }
      else do { k \<leftarrow> wait_pid_blocking os res k; Some (s, k) })"

definition run_command :: "shell_env \<Rightarrow> 'k os_calls \<Rightarrow> 'a user_prog_scheme \<Rightarrow> 'k \<Rightarrow> ('a user_prog_scheme \<times> 'k) option" where
  "run_command env os s k =
     do {
       (token, s) \<leftarrow> strtok (buf_at env) (rodata env '' '') s;
       n \<leftarrow> token_strlen token s;
       (tmp, s) \<leftarrow> strtok 0 (rodata env '' '') s;
       (argc, len, s) \<leftarrow> count_args env tmp 1 (int n + 1) s;
       m \<leftarrow> str_to_lower token (umem s);
       m \<leftarrow> set_file_path env token m;
       let s = s\<lparr>umem := m\<rparr>;
       let (res, k) = create_proccess os (file_path_at env) argc len (buf_at env) m k;
       report_or_wait env os token res s k
     }"

section \<open>The loop\<close>

definition dispatch :: "shell_env \<Rightarrow> 'k os_calls \<Rightarrow> 'a user_prog_scheme \<Rightarrow> 'k \<Rightarrow> ('a user_prog_scheme \<times> 'k) option" where
  "dispatch env os s k =
     (let is_cmd = (\<lambda>name len. stdlib_istrncmp (umem s) (buf_at env) (rodata env name) len = 0)
      in if is_cmd ''clear'' 5 then Some (cls s, k)
         else if is_cmd ''tok'' 3 then map_option (\<lambda>s. (s, k)) (tok_command env s)
         else if is_cmd ''info args'' 9 then map_option (\<lambda>s. (s, k)) (info_args env s)
         else if is_cmd ''showmt'' 6 then showmt env os s k
         else run_command env os s k)"

definition shell_pass :: "shell_env \<Rightarrow> 'k os_calls \<Rightarrow> 'a user_prog_scheme \<Rightarrow> 'k \<Rightarrow> ('a user_prog_scheme \<times> 'k) option" where
  "shell_pass env os s k =
     do {
       s \<leftarrow> readline_terminal (buf_at env) 100 (print_str (rodata env ''> '') 10 s);
       n \<leftarrow> stdlib_strlen (umem s) (buf_at env);
       if n = 0 then Some (s, k) else dispatch env os s k
     }"

text \<open>The greeting and the passes that come back.\<close>

inductive shell_passes :: "shell_env \<Rightarrow> 'k os_calls \<Rightarrow> 'a user_prog_scheme \<times> 'k \<Rightarrow> 'a user_prog_scheme \<times> 'k \<Rightarrow> bool"
  for env os where
  start: "sh_printf env (''Welcome to AmogOS, Sussy Baka'' @ [CHR 0x0A]) [] s = Some t \<Longrightarrow> shell_passes env os (s, k) (t, k)"
| pass: "shell_passes env os a (s, k) \<Longrightarrow> shell_pass env os s k = Some b \<Longrightarrow> shell_passes env os a b"

end
