(* ===== verification/Arguments.thy ===== *)
theory Arguments
  imports Demo Disk_Props
begin

text \<open>
  The arguments of a new process: what \<^verbatim>\<open>process_add_arguments\<close> leaves on the user stack. They come as one text, the
  strings in order with a terminator after each.
\<close>

section \<open>The text of the arguments\<close>

definition arg_text :: "u8 list list \<Rightarrow> u8 list" where
  "arg_text xss = concat (map (\<lambda>xs. xs @ [0]) xss)"

definition arg_off :: "u8 list list \<Rightarrow> nat \<Rightarrow> nat" where
  "arg_off xss i = length (arg_text (take i xss))"

definition has_bytes :: "memory \<Rightarrow> addr \<Rightarrow> u8 list \<Rightarrow> bool" where
  "has_bytes m p bs \<longleftrightarrow> (\<forall>k < length bs. m (p + of_nat k) = bs ! k)"

lemma arg_text_append: "arg_text (xss @ yss) = arg_text xss @ arg_text yss"
  by (simp add: arg_text_def)

lemma arg_text_split:
  assumes "i < length xss"
  shows "arg_text xss = arg_text (take i xss) @ (xss ! i @ [0]) @ arg_text (drop (Suc i) xss)"
  by (subst id_take_nth_drop [OF assms]) (simp add: arg_text_def)

lemma arg_off_0 [simp]: "arg_off xss 0 = 0"
  by (simp add: arg_off_def arg_text_def)

lemma arg_off_Suc: "i < length xss \<Longrightarrow> arg_off xss (Suc i) = arg_off xss i + length (xss ! i) + 1"
  by (simp add: arg_off_def arg_text_def take_Suc_conv_app_nth)

lemma strings_at:
  assumes "has_bytes m p (arg_text xss)" and "\<forall>xs \<in> set xss. 0 \<notin> set xs" and "i < length xss"
  shows "cstr_at m (p + of_nat (arg_off xss i)) (xss ! i)"
proof -
  let ?o = "arg_off xss i" and ?x = "xss ! i"
  note sp = arg_text_split [OF assms(3)]
  have len: "?o + length ?x < length (arg_text xss)" unfolding sp by (simp add: arg_off_def)
  have b: "m (p + of_nat ?o + of_nat k) = (?x @ [0]) ! k" if "k \<le> length ?x" for k
  proof -
    have "m (p + of_nat (?o + k)) = arg_text xss ! (?o + k)" using assms(1) len that unfolding has_bytes_def by (metis add_le_cancel_left le_less_trans)
    also have "\<dots> = (?x @ [0]) ! k" unfolding sp using that by (simp add: arg_off_def nth_append)
    finally show ?thesis by (simp add: add.assoc)
  qed
  have "?x ! k \<noteq> 0" if "k < length ?x" for k using assms(2,3) that by (metis nth_mem)
  then show ?thesis using b by (auto simp: cstr_at_def nth_append)
qed

section \<open>The array of pointers\<close>

lemma store32_outside: "\<not> in_block x a 4 \<Longrightarrow> store32 m a v x = m x"
  using in_block_offset [of _ a 4] by (intro store32_other_byte) auto

lemma load32_outside:
  assumes "\<And>i. i < 4 \<Longrightarrow> m' (a + of_nat i) = m (a + of_nat i)"
  shows "load32 m' a = load32 m a"
  using assms by (intro load32_cong)

text \<open>A range of addresses that does not wrap around.\<close>

definition in_range :: "addr \<Rightarrow> nat \<Rightarrow> nat \<Rightarrow> bool" where
  "in_range a lo hi \<longleftrightarrow> lo \<le> unat a \<and> unat a < hi"

lemma store32_range: "unat a + 4 \<le> 2 ^ 32 \<Longrightarrow> \<not> in_range x (unat a) (unat a + 4) \<Longrightarrow> store32 m a v x = m x"
  using in_block_range [of a 4 x] by (intro store32_outside) (simp add: in_range_def)

lemma load32_range:
  assumes "unat a + 4 \<le> 2 ^ 32" and "\<And>x. in_range x (unat a) (unat a + 4) \<Longrightarrow> m' x = m x"
  shows "load32 m' a = load32 m a"
proof (rule load32_outside)
  fix i :: nat assume "i < 4"
  then show "m' (a + of_nat i) = m (a + of_nat i)"
    using assms(1) unat_offset [of a i] by (intro assms(2)) (simp add: in_range_def)
qed

lemma has_bytes_range:
  assumes "has_bytes m p bs" and "unat p + length bs \<le> 2 ^ 32"
    and "\<And>x. in_range x (unat p) (unat p + length bs) \<Longrightarrow> m' x = m x"
  shows "has_bytes m' p bs"
  unfolding has_bytes_def
proof (intro allI impI)
  fix k assume "k < length bs"
  then show "m' (p + of_nat k) = bs ! k"
    using assms(1,2) unat_offset [of p k] assms(3) [of "p + of_nat k"] by (simp add: in_range_def has_bytes_def)
qed

lemma set_arg_ptrs_result:
  assumes "has_bytes m buf (arg_text xss)" and nz: "\<forall>xs \<in> set xss. 0 \<notin> set xs"
    and sep: "unat ptrs + 4 * length xss \<le> unat buf" "unat buf + length (arg_text xss) \<le> 2 ^ 32"
    and "0 < i" and "i \<le> length xss"
  shows "\<exists>m'. set_arg_ptrs (int i) (int (length xss)) ptrs (buf + of_nat (arg_off xss (i - 1)))
      (va + of_nat (arg_off xss (i - 1))) m = Some m' \<and>
    (\<forall>j. i \<le> j \<longrightarrow> j < length xss \<longrightarrow> load32 m' (ptrs + of_nat (4 * j)) = va + of_nat (arg_off xss j)) \<and>
    (\<forall>a. \<not> in_range a (unat ptrs + 4 * i) (unat ptrs + 4 * length xss) \<longrightarrow> m' a = m a)"
  using assms(1,5,6)
proof (induction "length xss - i" arbitrary: i m)
  case 0
  then show ?case by (subst set_arg_ptrs.simps) simp
next
  case (Suc d)
  let ?n = "length xss"
  define a where "a = ptrs + of_nat (4 * i)"
  define m1 where "m1 = store32 m a (va + of_nat (arg_off xss i))"
  have i: "i < ?n" "i - 1 < ?n" using Suc.hyps(2) Suc.prems by auto
  have a: "unat a = unat ptrs + 4 * i" "unat a + 4 \<le> unat buf"
    using unat_offset [of ptrs "4 * i"] i(1) sep unat_u32_bound [of buf] unfolding a_def by simp_all
  have "unat a + 4 \<le> 4294967296" using a(2) unat_u32_bound [of buf] by linarith
  then have a4: "unat a + 4 \<le> 2 ^ 32" by simp
  have out: "m1 x = m x" if "\<not> in_range x (unat a) (unat a + 4)" for x
    unfolding m1_def using a4 that by (rule store32_range)
  have "has_bytes m1 buf (arg_text xss)"
    using Suc.prems(1) sep(2) by (rule has_bytes_range) (rule out, use a(2) in \<open>simp add: in_range_def\<close>)
  moreover have "d = ?n - Suc i" "Suc i \<le> ?n" using Suc.hyps(2) i by simp_all
  ultimately obtain m' where m': "set_arg_ptrs (int (Suc i)) (int ?n) ptrs (buf + of_nat (arg_off xss i)) (va + of_nat (arg_off xss i)) m1 = Some m'"
    "\<And>j. Suc i \<le> j \<Longrightarrow> j < ?n \<Longrightarrow> load32 m' (ptrs + of_nat (4 * j)) = va + of_nat (arg_off xss j)"
    "\<And>a. \<not> in_range a (unat ptrs + 4 * Suc i) (unat ptrs + 4 * ?n) \<Longrightarrow> m' a = m1 a"
    using Suc.hyps(1) [of "Suc i" m1] by auto
  have off: "arg_off xss (i - 1) + (length (xss ! (i - 1)) + 1) = arg_off xss i"
    using arg_off_Suc [OF i(2)] Suc.prems(2) by simp
  have "set_arg_ptrs (int i) (int ?n) ptrs (buf + of_nat (arg_off xss (i - 1))) (va + of_nat (arg_off xss (i - 1))) m = Some m'"
  proof -
    have "p + of_nat (arg_off xss (i - 1)) + of_nat (length (xss ! (i - 1)) + 1) = p + of_nat (arg_off xss i)" for p :: addr
      unfolding off [symmetric] by (simp only: of_nat_add add.assoc)
    moreover have "ptrs + word_of_int (4 * int i) = a" by (simp add: a_def)
    moreover have "strlen m (buf + of_nat (arg_off xss (i - 1))) = Some (length (xss ! (i - 1)))"
      by (rule strlen_cstr [OF strings_at [OF Suc.prems(1) nz i(2)]])
    moreover have "int i + 1 = int (Suc i)" by simp
    ultimately show ?thesis
      using m'(1) i(1) by (subst set_arg_ptrs.simps) (simp only: Let_def option.case m1_def of_nat_less_iff if_True)
  qed
  moreover have "load32 m' a = va + of_nat (arg_off xss i)"
    using load32_range [OF a4, of m' m1] m'(3) a by (simp add: m1_def in_range_def load32_store32_same)
  then have "load32 m' (ptrs + of_nat (4 * j)) = va + of_nat (arg_off xss j)" if "i \<le> j" "j < ?n" for j
    using m'(2) that unfolding a_def by (cases "j = i") simp_all
  moreover have "m' x = m x" if "\<not> in_range x (unat ptrs + 4 * i) (unat ptrs + 4 * ?n)" for x
    using that m'(3) [of x] out [of x] i(1) a(1) by (auto simp: in_range_def)
  ultimately show ?case by blast
qed

section \<open>The frame of \<^verbatim>\<open>main\<close>\<close>

lemma put_bytes_has: "length bs < 2 ^ 32 \<Longrightarrow> has_bytes (put_bytes m p bs) p bs"
  by (simp add: has_bytes_def put_bytes_eq in_block_def unat_of_nat32)

lemma put_bytes_range:
  "unat p + length bs \<le> 2 ^ 32 \<Longrightarrow> \<not> in_range x (unat p) (unat p + length bs) \<Longrightarrow> put_bytes m p bs x = m x"
  by (auto simp: put_bytes_eq in_block_range in_range_def)

text \<open>From \<open>b\<close> upwards: the number of arguments, the address of the pointers, the pointers, the text.\<close>

definition arg_frame :: "memory \<Rightarrow> addr \<Rightarrow> u32 \<Rightarrow> u32 \<Rightarrow> addr \<Rightarrow> u8 list list \<Rightarrow> bool" where
  "arg_frame m b argc argv va xss \<longleftrightarrow> load32 m b = argc \<and> load32 m (b + 4) = argv \<and>
     (\<forall>j < length xss. load32 m (b + 8 + of_nat (4 * j)) = va + of_nat (arg_off xss j)) \<and>
     has_bytes m (b + of_nat (8 + 4 * length xss)) (arg_text xss)"

lemma arg_text_nonempty: "xss \<noteq> [] \<Longrightarrow> 0 < length (arg_text xss)"
  by (cases xss) (simp_all add: arg_text_def)

lemma frame_memory:
  fixes b :: addr and xss :: "u8 list list"
  defines "n \<equiv> length xss" and "buf \<equiv> b + of_nat (8 + 4 * length xss)"
  assumes "xss \<noteq> []" and nz: "\<forall>xs \<in> set xss. 0 \<notin> set xs" and fit: "unat b + 8 + 4 * n + length (arg_text xss) \<le> 2 ^ 32"
  shows "\<exists>m'. set_arg_ptrs 1 (int n) (b + 8) buf va (store32 (put_bytes m buf (arg_text xss)) (b + 8) va) = Some m' \<and>
    arg_frame (store32 (store32 m' (b + 4) argv) b argc) b argc argv va xss \<and>
    (\<forall>a. \<not> in_range a (unat b) (unat b + 8 + 4 * n + length (arg_text xss)) \<longrightarrow>
       store32 (store32 m' (b + 4) argv) b argc a = m a)"
proof -
  let ?L = "length (arg_text xss)"
  have n: "0 < n" "0 < ?L" using assms(3) arg_text_nonempty by (auto simp: n_def)
  have at: "unat (b + of_nat k) = unat b + k" if "k \<le> 8 + 4 * n" for k
    using that fit n(2) by (intro unat_offset) linarith
  have u: "unat (b + 4) = unat b + 4" "unat (b + 8) = unat b + 8" "unat buf = unat b + 8 + 4 * n"
    using at [of 4] at [of 8] at [of "8 + 4 * n"] by (simp_all add: buf_def n_def)
  let ?m1 = "put_bytes m buf (arg_text xss)" let ?m2 = "store32 ?m1 (b + 8) va"
  have fit': "unat buf + ?L \<le> 2 ^ 32" "unat (b + 8) + 4 * length xss \<le> unat buf" using fit u by (simp_all add: n_def)
  have st: "store32 k (b + of_nat j) v x = k x"
    if "j + 4 \<le> 8 + 4 * n" "\<not> in_range x (unat b + j) (unat b + j + 4)" for k j v x
    using that at [of j] fit by (intro store32_range) simp_all
  have "has_bytes ?m1 buf (arg_text xss)" using fit by (intro put_bytes_has) linarith
  then have "has_bytes ?m2 buf (arg_text xss)"
    using fit'(1) by (rule has_bytes_range) (use st [of 8] n(1) u(3) in \<open>auto simp: in_range_def\<close>)
  from set_arg_ptrs_result [OF this nz fit'(2,1), of 1 va] n(1)
  obtain m' where m': "set_arg_ptrs 1 (int n) (b + 8) buf va ?m2 = Some m'"
    "\<And>j. 1 \<le> j \<Longrightarrow> j < n \<Longrightarrow> load32 m' (b + 8 + of_nat (4 * j)) = va + of_nat (arg_off xss j)"
    "\<And>a. \<not> in_range a (unat b + 12) (unat b + 8 + 4 * n) \<Longrightarrow> m' a = ?m2 a"
    unfolding n_def u(2) by (auto simp: add.commute)
  let ?m5 = "store32 (store32 m' (b + 4) argv) b argc"
  have keep: "?m5 x = m' x" if "\<not> in_range x (unat b) (unat b + 8)" for x
    using st [of 4] st [of 0] that by (auto simp: in_range_def)
  have load: "load32 k (b + of_nat j) = load32 k' (b + of_nat j)"
    if "j + 4 \<le> 8 + 4 * n" "\<And>x. in_range x (unat b + j) (unat b + j + 4) \<Longrightarrow> k x = k' x" for j k k'
    using that at [of j] fit by (intro load32_range) simp_all
  have "load32 m' (b + 8 + of_nat (4 * j)) = va + of_nat (arg_off xss j)" if "j < n" for j
  proof (cases "j = 0")
    case True
    have "load32 m' (b + of_nat 8) = load32 ?m2 (b + of_nat 8)"
      using n(1) m'(3) by (intro load) (auto simp: in_range_def)
    then show ?thesis using True by (simp add: load32_store32_same)
  qed (use m'(2) that in simp)
  moreover have "load32 ?m5 (b + of_nat (8 + 4 * j)) = load32 m' (b + of_nat (8 + 4 * j))" if "j < n" for j
    using that by (intro load keep) (auto simp: in_range_def)
  moreover have "load32 ?m5 (b + of_nat 4) = load32 (store32 m' (b + 4) argv) (b + of_nat 4)"
    using st [of 0] by (intro load) (auto simp: in_range_def)
  moreover have "has_bytes ?m5 buf (arg_text xss)"
    using \<open>has_bytes ?m2 buf (arg_text xss)\<close> fit'(1)
    by (rule has_bytes_range) (use keep m'(3) u(3) in \<open>auto simp: in_range_def\<close>)
  ultimately have "arg_frame ?m5 b argc argv va xss"
    by (simp add: arg_frame_def load32_store32_same buf_def n_def add.assoc)
  moreover have "?m5 a = m a" if "\<not> in_range a (unat b) (unat b + 8 + 4 * n + ?L)" for a
    using that keep [of a] m'(3) [of a] st [of 8 a ?m1 va] put_bytes_range [OF fit'(1), of a m] u(3) n(1)
    by (auto simp: in_range_def)
  ultimately show ?thesis using m'(1) by blast
qed

text \<open>The stack pages through the addresses of the program, and what \<^verbatim>\<open>main\<close> finds at its stack pointer.\<close>

definition stack_view :: "memory \<Rightarrow> addr \<Rightarrow> memory" where
  "stack_view m pa a = m (pa + (a - DEFAULT_USER_STACK_END))"

definition main_args :: "memory \<Rightarrow> addr \<Rightarrow> u8 list list \<Rightarrow> bool" where
  "main_args v esp xss \<longleftrightarrow> load32 v esp = of_nat (length xss) \<and>
     (\<forall>i < length xss. cstr_at v (load32 v (load32 v (esp + 4) + of_nat (4 * i))) (xss ! i))"

lemma view_shift:
  assumes "p - q = a - b"
  shows "load32 (\<lambda>x. m (p + (x - a))) (b + k) = load32 m (q + k)"
    and "cstr_at (\<lambda>x. m (p + (x - a))) (b + k) xs = cstr_at m (q + k) xs"
proof -
  have q: "q = p + (b - a)" using assms by (simp add: algebra_simps)
  show "load32 (\<lambda>x. m (p + (x - a))) (b + k) = load32 m (q + k)"
    and "cstr_at (\<lambda>x. m (p + (x - a))) (b + k) xs = cstr_at m (q + k) xs"
    unfolding q by (simp_all add: load32_def cstr_at_def algebra_simps)
qed

lemma arg_frame_main:
  assumes "arg_frame m b (of_nat (length xss)) (e + 8) (e + of_nat (8 + 4 * length xss)) xss"
    and "\<forall>xs \<in> set xss. 0 \<notin> set xs" and "pa - b = DEFAULT_USER_STACK_END - e"
  shows "main_args (stack_view m pa) e xss"
proof -
  note f = assms(1) [unfolded arg_frame_def]
  have v: "load32 (stack_view m pa) (e + k) = load32 m (b + k)" "cstr_at (stack_view m pa) (e + k) xs = cstr_at m (b + k) xs" for k xs
    using view_shift [OF assms(3)] unfolding stack_view_def [abs_def] by blast+
  have "load32 (stack_view m pa) e = of_nat (length xss)" "load32 (stack_view m pa) (e + 4) = e + 8"
    using f v(1) [of 0] v(1) [of 4] by simp_all
  moreover have "load32 (stack_view m pa) (e + 8 + of_nat (4 * i)) = e + (of_nat (8 + 4 * length xss) + of_nat (arg_off xss i))"
    if "i < length xss" for i
    using f that v(1) [of "8 + of_nat (4 * i)"] by (simp add: add.assoc)
  moreover have "cstr_at (stack_view m pa) (e + (of_nat (8 + 4 * length xss) + of_nat (arg_off xss i))) (xss ! i)"
    if "i < length xss" for i
    unfolding v(2) unfolding add.assoc [symmetric] by (rule strings_at [OF _ assms(2) that]) (use f in blast)
  ultimately show ?thesis by (simp add: main_args_def)
qed

text \<open>The steps of \<^verbatim>\<open>process_add_arguments\<close>.\<close>

lemma add_arguments_eq:
  assumes "p_status (procs s proc) = PROC_CREATING" and "task = p_task (procs s proc)" and "pa = stack_paddr (procs s proc)"
    and "r_esp (regs (tasks s task)) = DEFAULT_USER_STACK_START"
    and "\<not> DEFAULT_USER_STACK_SIZE < 4 * argc + len" and "argc \<noteq> 0"
    and "pa + DEFAULT_USER_STACK_SIZE - len = buf" and "buf - 4 * argc = ptrs"
    and "DEFAULT_USER_STACK_START - len = va" and "va - 4 * argc = argv"
    and "set_arg_ptrs 1 (sint argc) ptrs buf va (store32 (put_bytes (mem s) buf (take (unat len) args)) ptrs va) = Some m'"
  shows "process_add_arguments proc argc len args s = Ret STATUS_OK
    (upd_proc proc (\<lambda>p. p\<lparr>p_status := PROC_CAN_START\<rparr>) (upd_task task (\<lambda>t. t\<lparr>regs := (regs t)\<lparr>r_esp := argv - 8\<rparr>\<rparr>)
      (s\<lparr>mem := store32 (store32 m' (ptrs - 4) argv) (ptrs - 4 - 4) argc\<rparr>)))"
  using assms unfolding process_add_arguments_def push_argc_argv_def Let_def upd_task_def upd_proc_def by simp

text \<open>C15: \<^verbatim>\<open>process_add_arguments\<close> given the text of the arguments leaves the stack of the new process so that \<^verbatim>\<open>main\<close>, at its
  stack pointer, finds the number of arguments and an array of pointers to them, each a terminated string, in order, all
  addresses being those of the program. The process can start, and nothing outside its stack pages changes.\<close>

theorem arguments_passed:
  assumes "p_status (procs s proc) = PROC_CREATING" and "task = p_task (procs s proc)" and "pa = stack_paddr (procs s proc)"
    and "r_esp (regs (tasks s task)) = DEFAULT_USER_STACK_START" and "unat pa + 16384 \<le> 2 ^ 32"
    and "xss \<noteq> []" and "\<forall>xs \<in> set xss. 0 \<notin> set xs" and fit: "8 + 4 * length xss + length (arg_text xss) \<le> 16384"
    and "take (length (arg_text xss)) args = arg_text xss"
  shows "\<exists>u. process_add_arguments proc (of_nat (length xss)) (of_nat (length (arg_text xss))) args s = Ret STATUS_OK u \<and>
    p_status (procs u proc) = PROC_CAN_START \<and> main_args (stack_view (mem u) pa) (r_esp (regs (tasks u task))) xss \<and>
    (\<forall>a. \<not> in_block a pa 16384 \<longrightarrow> mem u a = mem s a)"
proof -
  let ?n = "length xss" and ?L = "length (arg_text xss)"
  define K where "K = 16384 - (8 + 4 * ?n + ?L)"
  define b where "b = pa + of_nat K"
  define e where "e = DEFAULT_USER_STACK_END + of_nat K"
  have K: "K + (8 + 4 * ?n) + ?L = 16384" "K < 16384" using fit by (simp_all add: K_def)
  then have ub: "unat b = unat pa + K" unfolding b_def using assms(5) by (intro unat_offset) simp
  have "of_nat (K + (8 + 4 * ?n) + ?L) = (16384 :: addr)" unfolding K(1) by simp
  then have k: "(16384 :: addr) = of_nat K + (8 + 4 * of_nat ?n) + of_nat ?L" by simp
  have pos: "pa + 16384 - of_nat ?L = b + of_nat (8 + 4 * ?n)" "b + of_nat (8 + 4 * ?n) - 4 * of_nat ?n = b + 8"
    "DEFAULT_USER_STACK_START - of_nat ?L = e + of_nat (8 + 4 * ?n)" "e + of_nat (8 + 4 * ?n) - 4 * of_nat ?n = e + 8"
    using k by (simp_all add: b_def e_def algebra_simps)
  have guard: "\<not> DEFAULT_USER_STACK_SIZE < 4 * of_nat ?n + of_nat ?L" and small: "unat (of_nat ?L :: u32) = ?L"
      "sint (of_nat ?n :: u32) = int ?n" "(of_nat ?n :: u32) \<noteq> 0"
  proof -
    have n: "?n \<le> 4096" "?L \<le> 16384" "0 < ?n" using fit assms(6) by simp_all
    have "4 * of_nat ?n + of_nat ?L = (of_nat (4 * ?n + ?L) :: u32)" by simp
    then show "\<not> DEFAULT_USER_STACK_SIZE < 4 * of_nat ?n + of_nat ?L"
      using fit by (simp only: word_less_nat_alt unat_of_nat) simp
    show "unat (of_nat ?L :: u32) = ?L" using n by (simp add: unat_of_nat)
    show "sint (of_nat ?n :: u32) = int ?n" using n by (simp add: signed_of_nat signed_take_bit_int_eq_self)
    have "unat (of_nat ?n :: u32) \<noteq> 0" using n by (simp add: unat_of_nat)
    then show "(of_nat ?n :: u32) \<noteq> 0" by force
  qed
  have "unat b + 8 + 4 * ?n + ?L \<le> 2 ^ 32" using ub K assms(5) by simp
  from frame_memory [OF assms(6,7) this, of "e + of_nat (8 + 4 * ?n)" "mem s" "e + 8" "of_nat ?n"]
  obtain m' where m': "set_arg_ptrs 1 (int ?n) (b + 8) (b + of_nat (8 + 4 * ?n)) (e + of_nat (8 + 4 * ?n))
        (store32 (put_bytes (mem s) (b + of_nat (8 + 4 * ?n)) (arg_text xss)) (b + 8) (e + of_nat (8 + 4 * ?n))) = Some m'"
    "arg_frame (store32 (store32 m' (b + 4) (e + 8)) b (of_nat ?n)) b (of_nat ?n) (e + 8) (e + of_nat (8 + 4 * ?n)) xss"
    "\<And>a. \<not> in_range a (unat b) (unat b + 8 + 4 * ?n + ?L) \<Longrightarrow> store32 (store32 m' (b + 4) (e + 8)) b (of_nat ?n) a = mem s a"
    by blast
  have d: "b + 8 - 4 = b + 4" "b + 4 - 4 = b" "e + 8 - 8 = e" by simp_all
  have "pa + DEFAULT_USER_STACK_SIZE - of_nat ?L = b + of_nat (8 + 4 * ?n)" using pos(1) by simp
  note eq = add_arguments_eq [OF assms(1-4) guard small(3) this pos(2,3,4), of args m', unfolded small(1,2) assms(9) d]
  have "main_args (stack_view (store32 (store32 m' (b + 4) (e + 8)) b (of_nat ?n)) pa) e xss"
    using m'(2) assms(7) by (rule arg_frame_main) (simp add: b_def e_def)
  moreover have "\<not> in_range a (unat b) (unat b + 8 + 4 * ?n + ?L)" if "\<not> in_block a pa 16384" for a
    using that in_block_range [OF assms(5), of a] ub K(1) unfolding in_range_def by linarith
  ultimately show ?thesis
    using eq [OF m'(1)] m'(3) assms(2) by (simp add: upd_task_def upd_proc_def)
qed

definition new_process :: kernel_st where
  "new_process = fresh_kernel\<lparr>tasks := (\<lambda>_. zero_task\<lparr>regs := (regs zero_task)\<lparr>r_esp := DEFAULT_USER_STACK_START\<rparr>\<rparr>),
     procs := (\<lambda>_. zero_process\<lparr>p_status := PROC_CREATING, p_task := 0x1000000, stack_paddr := 0x2000000\<rparr>)\<rparr>"

lemma new_process_fields:
  "p_status (procs new_process 3) = PROC_CREATING" "0x1000000 = p_task (procs new_process 3)"
  "0x2000000 = stack_paddr (procs new_process 3)" "r_esp (regs (tasks new_process 0x1000000)) = DEFAULT_USER_STACK_START"
  by (simp_all add: new_process_def)

theorem arguments_passed_witness:
  "\<exists>u. process_add_arguments 3 2 5 [97, 98, 0, 99, 0] new_process = Ret STATUS_OK u \<and>
     main_args (stack_view (mem u) 0x2000000) (r_esp (regs (tasks u 0x1000000))) [[97, 98], [99]]"
proof -
  have t: "arg_text [[97, 98], [99]] = [97, 98, 0, 99, 0]" by (simp add: arg_text_def)
  from arguments_passed [OF new_process_fields, of "[[97, 98], [99]]" "[97, 98, 0, 99, 0]", unfolded t]
  show ?thesis by auto
qed

end
