(* ===== verification/Shell_Props.thy ===== *)
theory Shell_Props
  imports Shell Arguments Stdlib_Props
begin

text \<open>
  What the shell hands to the kernel when a command line is typed: the path of the program and the text of the
  arguments in the form that \<^verbatim>\<open>process_add_arguments\<close> expects.
\<close>

section \<open>Strings and bytes\<close>

lemma has_bytes_append: "has_bytes m p (xs @ ys) \<longleftrightarrow> has_bytes m p xs \<and> has_bytes m (p + of_nat (length xs)) ys"
proof (intro iffI)
  assume a: "has_bytes m p (xs @ ys)"
  have "m (p + of_nat k) = xs ! k" if "k < length xs" for k
    using a that by (simp add: has_bytes_def nth_append)
  moreover have "m (p + of_nat (length xs) + of_nat k) = ys ! k" if "k < length ys" for k
    using a [unfolded has_bytes_def, rule_format, of "length xs + k"] that by (simp add: add.assoc)
  ultimately show "has_bytes m p xs \<and> has_bytes m (p + of_nat (length xs)) ys" by (simp add: has_bytes_def)
next
  assume a: "has_bytes m p xs \<and> has_bytes m (p + of_nat (length xs)) ys"
  show "has_bytes m p (xs @ ys)"
    unfolding has_bytes_def
  proof (intro allI impI)
    fix k assume k: "k < length (xs @ ys)"
    show "m (p + of_nat k) = (xs @ ys) ! k"
    proof (cases "k < length xs")
      case True
      then show ?thesis using a by (simp add: has_bytes_def nth_append)
    next
      case False
      then have "m (p + of_nat (length xs) + of_nat (k - length xs)) = ys ! (k - length xs)"
        using a [THEN conjunct2, unfolded has_bytes_def, rule_format, of "k - length xs"] k False
        by (simp del: of_nat_diff)
      moreover have "p + of_nat (length xs) + of_nat (k - length xs) = p + of_nat k" using False by (simp add: of_nat_diff)
      ultimately show ?thesis using False by (simp add: nth_append)
    qed
  qed
qed

lemma cstr_has_bytes: "cstr_at m p xs \<Longrightarrow> has_bytes m p (xs @ [0])"
  by (auto simp: cstr_at_def has_bytes_def nth_append less_Suc_eq)

lemma has_bytes_cong: "has_bytes m p bs \<Longrightarrow> (\<And>k. k < length bs \<Longrightarrow> m' (p + of_nat k) = m (p + of_nat k)) \<Longrightarrow> has_bytes m' p bs"
  by (simp add: has_bytes_def)

lemma arg_text_Cons: "arg_text (w # ws) = w @ [0] @ arg_text ws"
  by (simp add: arg_text_def)

lemma length_arg_text_lower: "length (arg_text (map f w # ws)) = length (arg_text (w # ws))"
  by (simp add: arg_text_def)

section \<open>Words of a line\<close>

fun join_words :: "u8 list list \<Rightarrow> u8 list" where
  "join_words [] = []"
| "join_words [w] = w"
| "join_words (w # ws) = w @ 32 # join_words ws"

definition good_word :: "u8 list \<Rightarrow> bool" where
  "good_word w \<longleftrightarrow> w \<noteq> [] \<and> 0 \<notin> set w \<and> 32 \<notin> set w"

lemma join_words_Cons: "join_words (w # ws) = (if ws = [] then w else w @ 32 # join_words ws)"
  by (cases ws) simp_all

lemma length_arg_text: "ws \<noteq> [] \<Longrightarrow> length (arg_text ws) = Suc (length (join_words ws))"
  by (induction ws rule: join_words.induct) (simp_all add: arg_text_def)

lemma token_join:
  assumes "good_word w"
  shows "token_start [32] (join_words (w # ws)) = 0" and "token_end [32] (join_words (w # ws)) = length w"
    and "take (length w) (join_words (w # ws)) = w" and "drop (Suc (length w)) (join_words (w # ws)) = join_words ws"
proof -
  obtain c cs where w: "w = c # cs" "c \<noteq> 32" using assms by (cases w) (auto simp: good_word_def)
  show s: "token_start [32] (join_words (w # ws)) = 0" using w by (simp add: token_start_def join_words_Cons)
  have "takeWhile (\<lambda>c. c \<notin> set [32]) (join_words (w # ws)) = w"
  proof -
    have "takeWhile (\<lambda>c. c \<noteq> 32) w = w" using assms by (auto simp: good_word_def takeWhile_eq_all_conv)
    then show ?thesis using assms by (auto simp: join_words_Cons good_word_def takeWhile_append2 takeWhile_tail)
  qed
  then show "token_end [32] (join_words (w # ws)) = length w" by (simp add: token_end_def s)
  show "take (length w) (join_words (w # ws)) = w" "drop (Suc (length w)) (join_words (w # ws)) = join_words ws"
    by (simp_all add: join_words_Cons)
qed

text \<open>Cutting the first word off.\<close>

lemma word_step:
  assumes "good_word w" and "p = (if tok_sp s = 0 then str else tok_sp s)"
    and "separate p (length (join_words (w # ws))) d (Suc 0)"
    and "cstr_at (umem s) p (join_words (w # ws))" and "cstr_at (umem s) d [32]"
  obtains m j where "strtok str d s = Some (p, s\<lparr>umem := m, tok_sp := p + of_nat j\<rparr>)"
    and "cstr_at m p w" and "cstr_at m (p + of_nat j) (join_words ws)" and "cstr_at m d [32]"
    and "separate (p + of_nat j) (length (join_words ws)) d (Suc 0)" and "p + of_nat j \<noteq> 0"
    and "\<And>a. \<not> in_block a p (length (join_words (w # ws))) \<Longrightarrow> m a = umem s a"
    and "\<And>a. in_block a (p + of_nat j) (length (join_words ws)) \<Longrightarrow> in_block a p (length (join_words (w # ws)))"
    and "\<And>i. i \<le> length w \<Longrightarrow> \<not> in_block (p + of_nat i) (p + of_nat j) (length (join_words ws))"
    and "ws \<noteq> [] \<Longrightarrow> j = Suc (length w)"
proof -
  let ?xs = "join_words (w # ws)" let ?e = "length w"
  define j where "j = min (Suc ?e) (length ?xs)"
  define m where "m = (if ?e = length ?xs then umem s else (umem s)(p + of_nat ?e := 0))"
  have p: "p \<noteq> 0" "unat p + length ?xs < 2 ^ 32" using assms(3) by (simp_all add: separate_def)
  note tk = token_join [OF assms(1), of ws]
  have w: "w \<noteq> []" "length w \<le> length ?xs" using assms(1) by (auto simp: good_word_def join_words_Cons)
  have j: "j \<le> length ?xs" "length ?xs - j = length (join_words ws)" by (auto simp: j_def join_words_Cons)
  note sep = separate_rest [OF assms(3) j(1), unfolded j(2)]
  note tm = token_memory [OF assms(4) p(2), of "[32]", unfolded tk(1,2), folded m_def j_def]
  show ?thesis
  proof (rule that)
    show "strtok str d s = Some (p, s\<lparr>umem := m, tok_sp := p + of_nat j\<rparr>)"
      using w strtok_step [OF assms(2) p(1) assms(4,5), unfolded tk(1,2)] by (auto simp: m_def j_def min_def)
    show "cstr_at m p w" using tm(1) tk(3) by simp
    show "cstr_at m (p + of_nat j) (join_words ws)" using tm(2) tk(4) by simp
    show "separate (p + of_nat j) (length (join_words ws)) d (Suc 0)" by (rule sep(1))
    then show "p + of_nat j \<noteq> 0" by (simp add: separate_def)
    show out: "m a = umem s a" if "\<not> in_block a p (length ?xs)" for a
      using that w(2) in_block_offset [of ?e p "length ?xs"] p(2) by (auto simp: m_def)
    show "cstr_at m d [32]"
      using assms(5) by (rule cstr_at_cong) (use assms(3) out in \<open>simp add: separate_def\<close>)
    show "in_block a p (length ?xs)" if "in_block a (p + of_nat j) (length (join_words ws))" for a
      using sep(2) that .
    show "\<not> in_block (p + of_nat i) (p + of_nat j) (length (join_words ws))" if "i \<le> length w" for i
      using sep(3) [of i] that by (cases "ws = []") (simp_all add: in_block_def j_def join_words_Cons)
    show "j = Suc (length w)" if "ws \<noteq> []" using that by (simp add: j_def join_words_Cons)
  qed
qed

text \<open>Bytes of a word and of the rest that later steps leave alone.\<close>

lemma words_bytes:
  assumes "cstr_at m p w" and "has_bytes m' (p + of_nat j) (arg_text ws)" and "ws \<noteq> [] \<Longrightarrow> j = Suc (length w)"
    and "\<And>i. i \<le> length w \<Longrightarrow> m' (p + of_nat i) = m (p + of_nat i)"
  shows "has_bytes m' p (arg_text (w # ws))"
proof -
  have "has_bytes m' p (w @ [0])" using assms(4) by (intro cstr_has_bytes cstr_at_cong [OF assms(1)])
  moreover have "has_bytes m' (p + of_nat (length (w @ [0]))) (arg_text ws)"
    using assms(2,3) by (cases "ws = []") (simp_all add: arg_text_def has_bytes_def)
  ultimately have "has_bytes m' p ((w @ [0]) @ arg_text ws)" by (simp only: has_bytes_append)
  then show ?thesis by (simp add: arg_text_Cons)
qed

lemma count_args_words:
  assumes "\<forall>w \<in> set ws. good_word w" and "tok_sp s = p" and "rodata env '' '' = d"
    and "separate p (length (join_words ws)) d (Suc 0)" and "cstr_at (umem s) p (join_words ws)" and "cstr_at (umem s) d [32]"
  shows "\<exists>m. (do { (tmp, s) \<leftarrow> strtok 0 d s; count_args env tmp c l s }) =
      Some (c + int (length ws), l + int (length (arg_text ws)), s\<lparr>umem := m, tok_sp := 0\<rparr>) \<and>
    has_bytes m p (arg_text ws) \<and> (\<forall>a. \<not> in_block a p (length (join_words ws)) \<longrightarrow> m a = umem s a)"
  using assms
proof (induction ws arbitrary: p s c l)
  case Nil
  have "p = (if tok_sp s = 0 then 0 else tok_sp s)" "p \<noteq> 0" using Nil.prems by (simp_all add: separate_def)
  from strtok_step [OF this _ Nil.prems(6)] Nil.prems(5)
  have "strtok 0 d s = Some (0, s\<lparr>tok_sp := 0\<rparr>)" by (simp add: token_start_def)
  then show ?case
    by (intro exI [of _ "umem s"]) (simp add: count_args.simps arg_text_def has_bytes_def)
next
  case (Cons w ws)
  have w: "good_word w" and ws: "\<forall>w \<in> set ws. good_word w" using Cons.prems(1) by simp_all
  have p: "p = (if tok_sp s = 0 then 0 else tok_sp s)" "p \<noteq> 0" using Cons.prems by (simp_all add: separate_def)
  obtain m j where st: "strtok 0 d s = Some (p, s\<lparr>umem := m, tok_sp := p + of_nat j\<rparr>)"
    and m: "cstr_at m p w" "cstr_at m (p + of_nat j) (join_words ws)" "cstr_at m d [32]"
    and sep: "separate (p + of_nat j) (length (join_words ws)) d (Suc 0)" and "p + of_nat j \<noteq> 0"
    and out: "\<And>a. \<not> in_block a p (length (join_words (w # ws))) \<Longrightarrow> m a = umem s a"
    and sub: "\<And>a. in_block a (p + of_nat j) (length (join_words ws)) \<Longrightarrow> in_block a p (length (join_words (w # ws)))"
    and old: "\<And>i. i \<le> length w \<Longrightarrow> \<not> in_block (p + of_nat i) (p + of_nat j) (length (join_words ws))"
    and j: "ws \<noteq> [] \<Longrightarrow> j = Suc (length w)"
    by (rule word_step [OF w p(1) Cons.prems(4-6)]) blast
  let ?t = "s\<lparr>umem := m, tok_sp := p + of_nat j\<rparr>"
  obtain m' where IH: "(do { (tmp, s) \<leftarrow> strtok 0 d ?t; count_args env tmp (c + 1) (l + int (length w) + 1) s }) =
      Some (c + 1 + int (length ws), l + int (length w) + 1 + int (length (arg_text ws)), ?t\<lparr>umem := m', tok_sp := 0\<rparr>)"
    "has_bytes m' (p + of_nat j) (arg_text ws)"
    "\<And>a. \<not> in_block a (p + of_nat j) (length (join_words ws)) \<Longrightarrow> m' a = m a"
    using Cons.IH [OF ws, of ?t "p + of_nat j" "c + 1" "l + int (length w) + 1"] Cons.prems(3) sep m(2,3) by auto
  have "has_bytes m' p (arg_text (w # ws))"
    using words_bytes [OF m(1) IH(2) j] IH(3) old by blast
  moreover have "m' a = umem s a" if "\<not> in_block a p (length (join_words (w # ws)))" for a
    using that out sub IH(3) by metis
  moreover have "token_strlen p ?t = Some (length w)"
    using strlen_cstr [OF m(1)] p(2) by (simp add: token_strlen_def stdlib_strlen_def)
  then have "(do { (tmp, s) \<leftarrow> strtok 0 d s; count_args env tmp c l s }) =
      Some (c + int (length (w # ws)), l + int (length (arg_text (w # ws))), s\<lparr>umem := m', tok_sp := 0\<rparr>)"
    using IH(1) p(2) Cons.prems(3) by (simp add: st count_args.simps [of env p] arg_text_Cons algebra_simps)
  ultimately show ?case by blast
qed

section \<open>Lower case and copies\<close>

lemma to_lower_nonzero: "c \<noteq> 0 \<Longrightarrow> to_lower c \<noteq> 0"
proof
  assume "c \<noteq> 0" "to_lower c = 0"
  then have "c + 32 = 0" "65 \<le> sint c" by (auto simp: to_lower_def split: if_splits)
  then have "c = - 32" by (simp add: eq_neg_iff_add_eq_0)
  with \<open>65 \<le> sint c\<close> show False by simp
qed

lemma in_block_Suc:
  assumes "i < 2 ^ 32"
  shows "in_block a p (Suc i) \<longleftrightarrow> in_block a p i \<or> a = p + of_nat i"
proof -
  have "a = p + of_nat (unat (a - p))" by simp
  then have "unat (a - p) = i \<longleftrightarrow> a = p + of_nat i" using assms by (auto simp: unat_of_nat32)
  then show ?thesis by (simp add: in_block_def less_Suc_eq)
qed

lemma lower_loop:
  assumes "cstr_at m p w" and "length w < 2 ^ 32" and "i \<le> length w"
  shows "str_to_lower_loop (\<lambda>a. if in_block a p i then to_lower (m a) else m a) p i =
    Some (\<lambda>a. if in_block a p (length w) then to_lower (m a) else m a)"
  using assms(3)
proof (induction "length w - i" arbitrary: i)
  case 0
  let ?m = "\<lambda>a. if in_block a p (length w) then to_lower (m a) else m a"
  have i: "i = length w" using 0 by simp
  have "?m (p + of_nat (length w)) = 0"
    using assms(1,2) in_block_offset [of "length w" p "length w"] by (simp add: cstr_at_def)
  then show ?case unfolding i by (subst str_to_lower_loop.simps) simp
next
  case (Suc d)
  let ?m = "\<lambda>i a. if in_block a p i then to_lower (m a) else m a"
  have i: "i < length w" "i < 2 ^ 32" using Suc.hyps(2) assms(2) by simp_all
  have c: "?m i (p + of_nat i) = m (p + of_nat i)" using in_block_offset [OF i(2), of p i] by simp
  have nz: "m (p + of_nat i) \<noteq> 0" using assms(1) i(1) by (simp add: cstr_at_def)
  note in_block_Suc [OF i(2), of _ p]
  then have "(?m i)(p + of_nat i := to_lower (m (p + of_nat i))) = ?m (Suc i)" by (auto simp: fun_eq_iff)
  then have "str_to_lower_loop (?m i) p i = str_to_lower_loop (?m (Suc i)) p (Suc i)"
    using c nz by (subst str_to_lower_loop.simps) (simp only: stdlib_to_lower_def if_True not_False_eq_True)
  then show ?case using Suc.hyps(1) [of "Suc i"] Suc.hyps(2) i(1) by simp
qed

lemma str_to_lower_cstr:
  assumes "cstr_at m p w" and "length w < 2 ^ 32"
  obtains m' where "str_to_lower p m = Some m'" and "cstr_at m' p (map to_lower w)"
    and "\<And>a. \<not> in_block a p (length w) \<Longrightarrow> m' a = m a"
proof
  let ?m = "\<lambda>a. if in_block a p (length w) then to_lower (m a) else m a"
  show "str_to_lower p m = Some ?m"
    using lower_loop [OF assms, of 0] by (simp add: str_to_lower_def in_block_def)
  have "?m (p + of_nat i) = to_lower (w ! i)" if "i < length w" for i
    using that assms in_block_offset [of i p "length w"] by (simp add: cstr_at_def)
  moreover have "?m (p + of_nat (length w)) = 0"
    using assms in_block_offset [of "length w" p "length w"] by (simp add: cstr_at_def)
  ultimately show "cstr_at ?m p (map to_lower w)" using assms(1) by (auto simp: cstr_at_def to_lower_nonzero)
qed simp

lemma strcpy_loop_cstr:
  assumes "cstr_at m src xs" and "length xs < 2 ^ 32" and "blocks_disjoint dst (Suc (length xs)) src (Suc (length xs))"
    and "i \<le> length xs"
  shows "strcpy_loop (\<lambda>a. if in_block a dst i then xs ! unat (a - dst) else m a) dst src i =
    Some (length xs, \<lambda>a. if in_block a dst (length xs) then xs ! unat (a - dst) else m a)"
  using assms(4)
proof (induction "length xs - i" arbitrary: i)
  let ?m = "\<lambda>i a. if in_block a dst i then xs ! unat (a - dst) else m a"
  have src: "?m i (src + of_nat i) = m (src + of_nat i)" if "i \<le> length xs" for i
  proof -
    have "in_block (src + of_nat i) src (Suc (length xs))" using that assms(2) by (simp add: in_block_offset)
    then have "\<not> in_block (src + of_nat i) dst (Suc (length xs))" using assms(3) by (auto simp: blocks_disjoint_def)
    then show ?thesis using that by (auto simp: in_block_def)
  qed
  {
    case 0
    then have "i = length xs" by simp
    then show ?case using src [of i] assms(1) by (subst strcpy_loop.simps) (simp add: cstr_at_def)
  next
    case (Suc d)
    have i: "i < length xs" "i < 2 ^ 32" using Suc.hyps(2) assms(2) by simp_all
    have c: "m (src + of_nat i) = xs ! i" "xs ! i \<noteq> 0" using assms(1) i(1) by (simp_all add: cstr_at_def)
    have "(?m i)(dst + of_nat i := xs ! i) = ?m (Suc i)"
      using in_block_Suc [OF i(2), of _ dst] i(2) by (auto simp: fun_eq_iff unat_of_nat32)
    then have "strcpy_loop (?m i) dst src i = strcpy_loop (?m (Suc i)) dst src (Suc i)"
      using c src [of i] i(1) by (subst strcpy_loop.simps) simp
    then show ?case using Suc.hyps(1) [of "Suc i"] Suc.hyps(2) i(1) by simp
  }
qed

lemma strcpy_cstr:
  assumes "cstr_at m src xs" and "length xs < 2 ^ 32" and "blocks_disjoint dst (Suc (length xs)) src (Suc (length xs))"
  obtains m' where "strcpy m dst src = Some m'" and "cstr_at m' dst xs"
    and "\<And>a. \<not> in_block a dst (Suc (length xs)) \<Longrightarrow> m' a = m a"
proof
  let ?m = "\<lambda>a. if in_block a dst (length xs) then xs ! unat (a - dst) else m a"
  let ?m' = "?m(dst + of_nat (length xs) := 0)"
  show "strcpy m dst src = Some ?m'"
    using strcpy_loop_cstr [OF assms, of 0] by (simp add: strcpy_def in_block_def)
  have "?m' (dst + of_nat i) = xs ! i" if "i < length xs" for i
  proof -
    have "unat (of_nat i :: addr) \<noteq> unat (of_nat (length xs) :: addr)" using that assms(2) by (simp add: unat_of_nat32)
    then have "of_nat i \<noteq> (of_nat (length xs) :: addr)" by metis
    then show ?thesis using that assms(2) by (simp add: in_block_offset unat_of_nat32)
  qed
  then show "cstr_at ?m' dst xs" using assms(1) by (auto simp: cstr_at_def)
  show "\<not> in_block a dst (Suc (length xs)) \<Longrightarrow> ?m' a = m a" for a
    using in_block_Suc [OF assms(2), of a dst] by auto
qed

section \<open>Layout\<close>

text \<open>The local buffers of the shell do not overlap, and string literals lie elsewhere.\<close>

definition shell_layout :: "shell_env \<Rightarrow> bool" where
  "shell_layout env \<longleftrightarrow> buf_at env \<noteq> 0 \<and> unat (buf_at env) + 1024 \<le> 2 ^ 32 \<and> unat (file_path_at env) + 128 \<le> 2 ^ 32 \<and>
     blocks_disjoint (file_path_at env) 128 (buf_at env) 1024"

definition local_byte :: "shell_env \<Rightarrow> addr \<Rightarrow> bool" where
  "local_byte env a \<longleftrightarrow> in_block a (buf_at env) 1024 \<or> in_block a (file_path_at env) 128"

definition literal :: "shell_env \<Rightarrow> memory \<Rightarrow> string \<Rightarrow> bool" where
  "literal env m name \<longleftrightarrow> cstr_at m (rodata env name) (lit name) \<and>
     (\<forall>i \<le> length name. \<not> local_byte env (rodata env name + of_nat i))"

lemma length_lit [simp]: "length (lit name) = length name"
  by (simp add: lit_def)

lemma literal_cong: "literal env m name \<Longrightarrow> (\<And>a. \<not> local_byte env a \<Longrightarrow> m' a = m a) \<Longrightarrow> literal env m' name"
  unfolding literal_def by (auto elim!: cstr_at_cong)

lemma lit_chars [simp]: "lit '' '' = [32]" "lit ''0:/'' = [48, 58, 47]"
  by (simp_all add: lit_def)

lemma in_block_mono: "in_block a p n \<Longrightarrow> n \<le> k \<Longrightarrow> in_block a p k"
  by (simp add: in_block_def)

lemma set_file_path_cstr:
  assumes "shell_layout env" and "literal env m ''0:/''" and "cstr_at m (buf_at env) w" and "length w < 100"
  obtains m' where "set_file_path env (buf_at env) m = Some m'" and "cstr_at m' (file_path_at env) (lit ''0:/'' @ w)"
    and "\<And>a. \<not> in_block a (file_path_at env) 128 \<Longrightarrow> m' a = m a"
proof -
  let ?p = "file_path_at env" and ?b = "buf_at env" and ?r = "rodata env ''0:/''"
  let ?m0 = "put_bytes m ?p (replicate 128 0)"
  have lay: "unat ?p + 128 \<le> 2 ^ 32" "blocks_disjoint ?p 128 ?b 1024" using assms(1) by (simp_all add: shell_layout_def)
  have sub: "in_block a ?p 128" if "in_block a (?p + 3) 120" for a
  proof -
    have u: "unat (?p + 3) = unat ?p + 3" using unat_offset [of ?p 3] lay(1) by simp
    then show ?thesis using that in_block_range [of "?p + 3" 120 a] in_block_range [of ?p 128 a] lay(1) by simp
  qed
  have m0: "?m0 a = m a" if "\<not> in_block a ?p 128" for a using that by (simp add: put_bytes_eq)
  have r: "cstr_at m ?r [48, 58, 47]" and ro: "\<And>i. i \<le> 3 \<Longrightarrow> \<not> in_block (?r + of_nat i) ?p 128"
    using assms(2) by (auto simp: literal_def local_byte_def)
  have c0: "cstr_at ?m0 ?r [48, 58, 47]" using r by (rule cstr_at_cong) (use m0 ro in simp)
  have dj: "blocks_disjoint ?p (Suc (length [48 :: u8, 58, 47])) ?r (Suc (length [48 :: u8, 58, 47]))"
    unfolding blocks_disjoint_def
  proof (intro allI notI, elim conjE)
    fix a assume a: "in_block a ?p (Suc (length [48 :: u8, 58, 47]))" "in_block a ?r (Suc (length [48 :: u8, 58, 47]))"
    obtain i where "i < Suc (length [48 :: u8, 58, 47])" "a = ?r + of_nat i"
      using a(2) in_block_iff [of "Suc (length [48 :: u8, 58, 47])" a ?r] by auto
    then show False using ro [of i] in_block_mono [OF a(1), of 128] by simp
  qed
  have "length [48 :: u8, 58, 47] < 2 ^ 32" by simp
  then obtain m1 where m1: "strcpy ?m0 ?p ?r = Some m1" "cstr_at m1 ?p [48, 58, 47]"
      "\<And>a. \<not> in_block a ?p (Suc (length [48 :: u8, 58, 47])) \<Longrightarrow> m1 a = ?m0 a"
    by (rule strcpy_cstr [OF c0 _ dj]) blast
  have out1: "m1 a = m a" if "\<not> in_block a ?p 128" for a
    using m1(3) [of a] m0 [OF that] that in_block_mono [of a ?p "Suc (length [48 :: u8, 58, 47])" 128] by auto
  have bo: "\<not> in_block a ?p 128" if "in_block a ?b 1024" for a using lay(2) that by (auto simp: blocks_disjoint_def)
  have w: "cstr_at m1 ?b w"
    using assms(3) by (rule cstr_at_cong) (use assms(4) out1 bo in \<open>simp add: in_block_offset\<close>)
  have dis: "blocks_disjoint (?p + 3) (nat 120) ?b (Suc (length w))"
    unfolding blocks_disjoint_def using sub bo in_block_mono [of _ ?b "Suc (length w)" 1024] assms(4) by fastforce
  let ?m2 = "strncpy m1 (?p + 3) ?b 120"
  have small: "(0 :: int) < 120" "(120 :: int) \<le> 2 ^ 31" "length w < 2 ^ 31" using assms(4) by simp_all
  note cp = strncpy_cstr [OF w small dis]
  have "?m2 (?p + of_nat i) = m1 (?p + of_nat i)" if "i < 3" for i
  proof (rule cp(2))
    have "unat (?p + of_nat i) = unat ?p + i" "unat (?p + 3) = unat ?p + 3"
      using unat_offset [of ?p i] unat_offset [of ?p 3] lay(1) that by simp_all
    then show "\<not> in_block (?p + of_nat i) (?p + 3) (nat 120)"
      using in_block_range [of "?p + 3" 120 "?p + of_nat i"] that lay(1) by simp
  qed
  from this [of 0] this [of 1] this [of 2] have "cstr_at ?m2 ?p (lit ''0:/'' @ w)"
    using m1(2) cp(1) assms(4) by (simp add: cstr_at_Cons add.assoc)
  moreover have "?m2 a = m a" if "\<not> in_block a ?p 128" for a
    using cp(2) [of a] sub [of a] out1 [OF that] that by auto
  moreover have "set_file_path env ?b m = Some ?m2"
    using m1(1) by (simp add: set_file_path_def stdlib_strcpy_def stdlib_strncpy_def)
  ultimately show ?thesis by (intro that)
qed

section \<open>Running a command\<close>

text \<open>Cutting up the line: the number of words, the length of their text, and the text itself in place of the line.\<close>

lemma tokenise_line:
  assumes d: "rodata env '' '' = d" and sep: "separate b (length (join_words (w # ws))) d (Suc 0)" and sp: "tok_sp s = 0"
    and w: "good_word w" "\<forall>x \<in> set ws. good_word x"
    and line: "cstr_at (umem s) b (join_words (w # ws))" "cstr_at (umem s) d [32]"
  obtains t tmp u m where "strtok b d s = Some (b, t)" and "token_strlen b t = Some (length w)" and "strtok 0 d t = Some (tmp, u)"
    and "count_args env tmp 1 (int (length w) + 1) u =
      Some (1 + int (length ws), int (length w) + 1 + int (length (arg_text ws)), s\<lparr>umem := m\<rparr>)"
    and "cstr_at m b w" and "has_bytes m b (arg_text (w # ws))"
    and "\<And>a. \<not> in_block a b (length (join_words (w # ws))) \<Longrightarrow> m a = umem s a"
proof -
  let ?n = "length (join_words (w # ws))"
  have b: "b \<noteq> 0" "b = (if tok_sp s = 0 then b else tok_sp s)" using sep sp by (simp_all add: separate_def)
  obtain m1 j where st: "strtok b d s = Some (b, s\<lparr>umem := m1, tok_sp := b + of_nat j\<rparr>)"
    and m1: "cstr_at m1 b w" "cstr_at m1 (b + of_nat j) (join_words ws)" "cstr_at m1 d [32]"
    and sep1: "separate (b + of_nat j) (length (join_words ws)) d (Suc 0)" and "b + of_nat j \<noteq> 0"
    and out1: "\<And>a. \<not> in_block a b ?n \<Longrightarrow> m1 a = umem s a"
    and sub: "\<And>a. in_block a (b + of_nat j) (length (join_words ws)) \<Longrightarrow> in_block a b ?n"
    and old: "\<And>i. i \<le> length w \<Longrightarrow> \<not> in_block (b + of_nat i) (b + of_nat j) (length (join_words ws))"
    and j: "ws \<noteq> [] \<Longrightarrow> j = Suc (length w)"
    by (rule word_step [OF w(1) b(2) sep line]) blast
  let ?t = "s\<lparr>umem := m1, tok_sp := b + of_nat j\<rparr>"
  obtain m where m: "(do { (tmp, s) \<leftarrow> strtok 0 d ?t; count_args env tmp 1 (int (length w) + 1) s }) =
      Some (1 + int (length ws), int (length w) + 1 + int (length (arg_text ws)), ?t\<lparr>umem := m, tok_sp := 0\<rparr>)"
    "has_bytes m (b + of_nat j) (arg_text ws)"
    "\<And>a. \<not> in_block a (b + of_nat j) (length (join_words ws)) \<Longrightarrow> m a = m1 a"
    using count_args_words [OF w(2), of ?t "b + of_nat j" env d 1 "int (length w) + 1"] d sep1 m1(2,3) by auto
  have eq: "?t\<lparr>umem := m, tok_sp := 0\<rparr> = s\<lparr>umem := m\<rparr>" using sp by (cases s) simp
  obtain tmp u where u: "strtok 0 d ?t = Some (tmp, u)" "count_args env tmp 1 (int (length w) + 1) u =
         Some (1 + int (length ws), int (length w) + 1 + int (length (arg_text ws)), s\<lparr>umem := m\<rparr>)"
    using m(1) unfolding eq by (auto simp: bind_eq_Some_conv)
  show ?thesis
  proof (rule that [OF st _ u])
    show "token_strlen b ?t = Some (length w)"
      using strlen_cstr [OF m1(1)] b(1) by (simp add: token_strlen_def stdlib_strlen_def)
    show "cstr_at m b w" using m1(1) by (rule cstr_at_cong) (use m(3) old in simp)
    show "has_bytes m b (arg_text (w # ws))" using words_bytes [OF m1(1) m(2) j] m(3) old by blast
    show "\<not> in_block a b ?n \<Longrightarrow> m a = umem s a" for a using m(3) [of a] out1 [of a] sub [of a] by metis
  qed
qed

text \<open>The first word in lower case.\<close>

lemma lower_first_word:
  assumes "cstr_at m b w" and "has_bytes m b (arg_text (w # ws))" and len: "length (arg_text (w # ws)) < 2 ^ 32"
  obtains m' where "str_to_lower b m = Some m'" and "cstr_at m' b (map to_lower w)"
    and "has_bytes m' b (arg_text (map to_lower w # ws))" and "\<And>a. \<not> in_block a b (length w) \<Longrightarrow> m' a = m a"
proof -
  have "length w < 2 ^ 32" using len by (simp add: arg_text_Cons)
  from str_to_lower_cstr [OF assms(1) this] obtain m' where m': "str_to_lower b m = Some m'" "cstr_at m' b (map to_lower w)"
      "\<And>a. \<not> in_block a b (length w) \<Longrightarrow> m' a = m a" by blast
  have rest: "has_bytes m' (b + of_nat (Suc (length w))) (arg_text ws)"
  proof (rule has_bytes_cong)
    have "has_bytes m b ((w @ [0]) @ arg_text ws)" using assms(2) by (simp add: arg_text_Cons)
    then show "has_bytes m (b + of_nat (Suc (length w))) (arg_text ws)" unfolding has_bytes_append by simp
    fix k assume "k < length (arg_text ws)"
    then have "Suc (length w) + k < 2 ^ 32" using len by (simp add: arg_text_Cons)
    from in_block_offset [OF this, of b "length w"]
    show "m' (b + of_nat (Suc (length w)) + of_nat k) = m (b + of_nat (Suc (length w)) + of_nat k)"
      by (intro m'(3)) (simp add: add.assoc)
  qed
  have "has_bytes m' b ((map to_lower w @ [0]) @ arg_text ws)"
    using cstr_has_bytes [OF m'(2)] rest by (subst has_bytes_append) simp
  then show ?thesis using that [OF m'(1,2)] m'(3) by (simp add: arg_text_Cons)
qed

lemma run_command_words:
  assumes lay: "shell_layout env" and lits: "literal env (umem s) '' ''" "literal env (umem s) ''0:/''" and sp: "tok_sp s = 0"
    and w: "good_word w" "\<forall>x \<in> set ws. good_word x"
    and line: "cstr_at (umem s) (buf_at env) (join_words (w # ws))" "length (join_words (w # ws)) < 100"
  obtains m where "cstr_at m (file_path_at env) (lit ''0:/'' @ map to_lower w)"
    and "has_bytes m (buf_at env) (arg_text (map to_lower w # ws))"
    and "\<And>a. \<not> local_byte env a \<Longrightarrow> m a = umem s a"
    and "\<And>k. run_command env os s k =
      (let (res, k) = create_proccess os (file_path_at env) (int (length (w # ws))) (int (length (arg_text (w # ws)))) (buf_at env) m k
       in report_or_wait env os (buf_at env) res (s\<lparr>umem := m\<rparr>) k)"
proof -
  let ?b = "buf_at env" and ?p = "file_path_at env" and ?d = "rodata env '' ''" and ?n = "length (join_words (w # ws))"
  have b: "?b \<noteq> 0" "unat ?b + 1024 \<le> 2 ^ 32" "blocks_disjoint ?p 128 ?b 1024" using lay by (simp_all add: shell_layout_def)
  have d: "cstr_at (umem s) ?d [32]" using lits(1) by (simp add: literal_def)
  have inb: "local_byte env a" if "in_block a ?b ?n" for a
    using in_block_mono [OF that, of 1024] line(2) by (simp add: local_byte_def)
  have sep: "separate ?b ?n ?d (Suc 0)"
    using b(1,2) line(2) lits(1) inb by (auto simp: separate_def literal_def)
  obtain t tmp u m2 where cut: "strtok ?b ?d s = Some (?b, t)" "token_strlen ?b t = Some (length w)" "strtok 0 ?d t = Some (tmp, u)"
    "count_args env tmp 1 (int (length w) + 1) u =
       Some (1 + int (length ws), int (length w) + 1 + int (length (arg_text ws)), s\<lparr>umem := m2\<rparr>)"
    and m2: "cstr_at m2 ?b w" "has_bytes m2 ?b (arg_text (w # ws))" "\<And>a. \<not> in_block a ?b ?n \<Longrightarrow> m2 a = umem s a"
    by (rule tokenise_line [OF refl sep sp w line(1) d]) blast
  have len: "length (arg_text (w # ws)) \<le> 100" "length (arg_text (w # ws)) < 2 ^ 32" "length (map to_lower w) < 100" "length w \<le> ?n"
    using line(2) length_arg_text [of "w # ws"] by (auto simp: join_words_Cons split: if_splits)
  obtain m3 where m3: "str_to_lower ?b m2 = Some m3" "cstr_at m3 ?b (map to_lower w)" "has_bytes m3 ?b (arg_text (map to_lower w # ws))"
      "\<And>a. \<not> in_block a ?b (length w) \<Longrightarrow> m3 a = m2 a"
    by (rule lower_first_word [OF m2(1,2) len(2)]) blast
  have out3: "m3 a = umem s a" if "\<not> in_block a ?b ?n" for a
    using that m3(4) [of a] m2(3) [of a] in_block_mono [of a ?b "length w" ?n] len(4) by metis
  have "literal env m3 ''0:/''" using lits(2) by (rule literal_cong) (use out3 inb in blast)
  then obtain m where m: "set_file_path env ?b m3 = Some m" "cstr_at m ?p (lit ''0:/'' @ map to_lower w)"
      "\<And>a. \<not> in_block a ?p 128 \<Longrightarrow> m a = m3 a"
    by (rule set_file_path_cstr [OF lay _ m3(2) len(3)]) blast
  show ?thesis
  proof (rule that [OF m(2)])
    show "m a = umem s a" if "\<not> local_byte env a" for a
      using m(3) [of a] out3 [of a] inb [of a] that by (auto simp: local_byte_def)
    show "has_bytes m ?b (arg_text (map to_lower w # ws))"
      using m3(3)
    proof (rule has_bytes_cong)
      fix k assume "k < length (arg_text (map to_lower w # ws))"
      then have "in_block (?b + of_nat k) ?b 1024" using len(1) by (simp add: length_arg_text_lower in_block_offset)
      then show "m (?b + of_nat k) = m3 (?b + of_nat k)" using b(3) by (intro m(3)) (auto simp: blocks_disjoint_def)
    qed
    have lens: "int (length (w # ws)) = 1 + int (length ws)"
      "int (length (arg_text (w # ws))) = int (length w) + 1 + int (length (arg_text ws))" by (simp_all add: arg_text_Cons)
    show "run_command env os s k =
      (let (res, k) = create_proccess os ?p (int (length (w # ws))) (int (length (arg_text (w # ws)))) ?b m k
       in report_or_wait env os ?b res (s\<lparr>umem := m\<rparr>) k)" for k
      unfolding run_command_def lens by (simp add: cut m3(1) m(1))
  qed
qed

section \<open>A pass of the loop\<close>

definition builtins :: "string list" where
  "builtins = [''clear'', ''tok'', ''info args'', ''showmt'']"

definition not_builtin :: "u8 list \<Rightarrow> bool" where
  "not_builtin line \<longleftrightarrow> (\<forall>name \<in> set builtins. map to_lower (take (length name) line) \<noteq> map to_lower (lit name))"

lemma edit_fits: "line_fits n line ks \<Longrightarrow> length (edit line ks) < n"
  by (induction line ks rule: edit.induct) (auto split: if_splits)

lemma dispatch_command:
  assumes "\<forall>name \<in> set builtins. literal env (umem s) name" and "cstr_at (umem s) (buf_at env) line" and "not_builtin line"
  shows "dispatch env os s k = run_command env os s k"
proof -
  have "stdlib_istrncmp (umem s) (buf_at env) (rodata env name) (int (length name)) \<noteq> 0" if "name \<in> set builtins" for name
    using assms(1,3) that istrncmp_cstr [OF assms(2), of "rodata env name" "lit name" "int (length name)"]
    by (auto simp: literal_def not_builtin_def stdlib_istrncmp_def)
  from this [of "''clear''"] this [of "''tok''"] this [of "''info args''"] this [of "''showmt''"]
  show ?thesis by (simp add: dispatch_def builtins_def)
qed

text \<open>C14: when a line of words separated by single spaces is typed that is no command of the shell itself, a pass of its
  loop asks the kernel for exactly one process: with the path made of the drive and the first word in lower case, the
  number of words, and their text, each word followed by a terminator, with its length. This is the form
  \<^verbatim>\<open>process_add_arguments\<close> expects. Then the shell waits for the process or reports that there is none; no memory
  but its two buffers has changed.\<close>

theorem shell_runs_command:
  assumes "shell_layout env" and "\<forall>name \<in> set ('' '' # ''0:/'' # builtins). literal env (umem s) name" and "tok_sp s = 0"
    and "line_fits 100 [] (keys s)" and line: "edit [] (keys s) = join_words (w # ws)"
    and "good_word w" and "\<forall>x \<in> set ws. good_word x" and "not_builtin (join_words (w # ws))"
  shows "\<exists>t. cstr_at (umem t) (file_path_at env) (lit ''0:/'' @ map to_lower w) \<and>
    has_bytes (umem t) (buf_at env) (arg_text (map to_lower w # ws)) \<and> tok_sp t = 0 \<and>
    (\<forall>a. \<not> local_byte env a \<longrightarrow> umem t a = umem s a) \<and>
    shell_pass env os s k =
      (let (res, k) = create_proccess os (file_path_at env) (int (length (w # ws))) (int (length (arg_text (w # ws)))) (buf_at env) (umem t) k
       in report_or_wait env os (buf_at env) res t k)"
proof -
  let ?s = "print_str (rodata env ''> '') 10 s"
  have "line_fits (nat 100) [] (keys ?s)" using assms(4) by (simp add: print_str_def)
  from readline_result [OF this, of "buf_at env"] obtain u where
    u: "readline_terminal (buf_at env) 100 ?s = Some u" "cstr_at (umem u) (buf_at env) (join_words (w # ws))" "tok_sp u = 0"
      "\<And>a. \<not> in_block a (buf_at env) 100 \<Longrightarrow> umem u a = umem s a"
    using line assms(3) by (auto simp: print_str_def)
  have keep: "umem u a = umem s a" if "\<not> local_byte env a" for a
    using that u(4) [of a] in_block_mono [of a "buf_at env" 100 1024] by (auto simp: local_byte_def)
  then have lits: "literal env (umem u) name" if "name \<in> set ('' '' # ''0:/'' # builtins)" for name
    using assms(2) that literal_cong [of env "umem s" name "umem u"] by blast
  have len: "length (join_words (w # ws)) < 100" using edit_fits [OF assms(4)] line by simp
  have "literal env (umem u) '' ''" "literal env (umem u) ''0:/''" by (simp_all add: lits)
  then obtain m where m: "cstr_at m (file_path_at env) (lit ''0:/'' @ map to_lower w)"
    "has_bytes m (buf_at env) (arg_text (map to_lower w # ws))" "\<And>a. \<not> local_byte env a \<Longrightarrow> m a = umem u a"
    "\<And>k. run_command env os u k =
      (let (res, k) = create_proccess os (file_path_at env) (int (length (w # ws))) (int (length (arg_text (w # ws)))) (buf_at env) m k
       in report_or_wait env os (buf_at env) res (u\<lparr>umem := m\<rparr>) k)"
    by (rule run_command_words [OF assms(1) _ _ u(3) assms(6,7) u(2) len, where os = os]) blast
  have "stdlib_strlen (umem u) (buf_at env) = Some (length (join_words (w # ws)))" "join_words (w # ws) \<noteq> []"
    using strlen_cstr [OF u(2)] assms(6) by (auto simp: stdlib_strlen_def join_words_Cons good_word_def)
  moreover have "dispatch env os u k = run_command env os u k" using lits u(2) assms(8) by (intro dispatch_command) auto
  ultimately have "shell_pass env os s k = run_command env os u k" by (simp add: shell_pass_def u(1))
  then show ?thesis using m u(3) keep by (intro exI [of _ "u\<lparr>umem := m\<rparr>"]) simp
qed

text \<open>Literals from 0x5000, the buffers below; a kernel that notes each request and creates process 5.\<close>

definition demo_env :: shell_env where
  "demo_env = \<lparr>rodata = (\<lambda>name. if name = '' '' then 0x5000 else if name = ''0:/'' then 0x5010 else if name = ''clear'' then 0x5020
       else if name = ''tok'' then 0x5030 else if name = ''info args'' then 0x5040 else if name = ''showmt'' then 0x5050 else 0x5060),
     buf_at = 0x1000, file_path_at = 0x2000, printf_buf_at = 0x3000, printf_junk = 0, argc_at = 0x4000, argv_at = 0x4004,
     argc_val = 0, argv_val = 0\<rparr>"

definition demo_rodata :: "u8 list" where
  "demo_rodata = concat (map (\<lambda>name. lit name @ replicate (16 - length name) 0)
     ['' '', ''0:/'', ''clear'', ''tok'', ''info args'', ''showmt''])"

definition demo_shell :: user_prog where
  "demo_shell = (demo_prog [76, 83, 32, 97, 13])\<lparr>umem := put_bytes (\<lambda>_. 0) 0x5000 demo_rodata\<rparr>"

definition demo_os :: "(int \<times> int) list os_calls" where
  "demo_os = \<lparr>create_proccess = (\<lambda>path argc len args m k. (5, k @ [(argc, len)])), waitpid = (\<lambda>pid k. (0, k))\<rparr>"

lemma demo_layout: "shell_layout demo_env"
proof -
  have "\<not> (in_block a 0x2000 128 \<and> in_block a 0x1000 1024)" for a
    using in_block_range [of "0x2000" 128 a] in_block_range [of "0x1000" 1024 a] by simp
  then show ?thesis by (simp add: shell_layout_def demo_env_def blocks_disjoint_def)
qed

lemma demo_rodata_eq:
  "demo_rodata = [32, 0, 0, 0, 0, 0, 0, 0, 0, 0, 0, 0, 0, 0, 0, 0, 48, 58, 47, 0, 0, 0, 0, 0, 0, 0, 0, 0, 0, 0, 0, 0, 99, 108,
    101, 97, 114, 0, 0, 0, 0, 0, 0, 0, 0, 0, 0, 0, 116, 111, 107, 0, 0, 0, 0, 0, 0, 0, 0, 0, 0, 0, 0, 0, 105, 110,
    102, 111, 32, 97, 114, 103, 115, 0, 0, 0, 0, 0, 0, 0, 115, 104, 111, 119, 109, 116, 0, 0, 0, 0, 0, 0, 0, 0, 0,
    0]"
  by (simp add: demo_rodata_def lit_def eval_nat_numeral)

lemma demo_byte: "umem demo_shell a = (if unat (a - 0x5000) < 96 then demo_rodata ! unat (a - 0x5000) else 0)"
proof -
  have "length demo_rodata = 96" by (simp add: demo_rodata_eq)
  then show ?thesis by (simp add: demo_shell_def put_bytes_eq in_block_def)
qed

lemma demo_literals: "\<forall>name \<in> set ('' '' # ''0:/'' # builtins). literal demo_env (umem demo_shell) name"
proof -
  have out: "\<not> local_byte demo_env (0x5000 + of_nat i)" if "i < 96" for i
  proof -
    have "unat (0x5000 + of_nat i :: addr) = 0x5000 + i" using that unat_offset [of "0x5000" i] by simp
    then show ?thesis
      using in_block_range [of "0x2000" 128 "0x5000 + of_nat i"] in_block_range [of "0x1000" 1024 "0x5000 + of_nat i"]
      by (simp add: local_byte_def demo_env_def)
  qed
  have lit: "literal demo_env (umem demo_shell) name"
    if "rodata demo_env name = 0x5000 + of_nat k" "k + length name < 96" "cstr_at (umem demo_shell) (rodata demo_env name) (lit name)"
    for name k
    using that out [of "k + _"] by (auto simp: literal_def add.assoc)
  have "literal demo_env (umem demo_shell) '' ''"
    by (rule lit [of _ 0]) (simp_all add: demo_env_def lit_def cstr_at_Cons cstr_at_Nil demo_byte demo_rodata_eq)
  moreover have "literal demo_env (umem demo_shell) ''0:/''"
    by (rule lit [of _ 16]) (simp_all add: demo_env_def lit_def cstr_at_Cons cstr_at_Nil demo_byte demo_rodata_eq)
  moreover have "literal demo_env (umem demo_shell) ''clear''"
    by (rule lit [of _ 32]) (simp_all add: demo_env_def lit_def cstr_at_Cons cstr_at_Nil demo_byte demo_rodata_eq)
  moreover have "literal demo_env (umem demo_shell) ''tok''"
    by (rule lit [of _ 48]) (simp_all add: demo_env_def lit_def cstr_at_Cons cstr_at_Nil demo_byte demo_rodata_eq)
  moreover have "literal demo_env (umem demo_shell) ''info args''"
    by (rule lit [of _ 64]) (simp_all add: demo_env_def lit_def cstr_at_Cons cstr_at_Nil demo_byte demo_rodata_eq)
  moreover have "literal demo_env (umem demo_shell) ''showmt''"
    by (rule lit [of _ 80]) (simp_all add: demo_env_def lit_def cstr_at_Cons cstr_at_Nil demo_byte demo_rodata_eq)
  ultimately show ?thesis by (simp add: builtins_def)
qed

theorem shell_runs_command_witness:
  "\<exists>t. shell_pass demo_env demo_os demo_shell [] = Some (t, [(2, 5)]) \<and> cstr_at (umem t) 0x2000 [48, 58, 47, 108, 115]"
proof -
  have k: "keys demo_shell = [76, 83, 32, 97, 13]" "tok_sp demo_shell = 0" by (simp_all add: demo_shell_def demo_prog_def)
  have "not_builtin (join_words [[76, 83], [97]])" by (simp add: not_builtin_def builtins_def lit_def to_lower_def)
  moreover have "edit [] (keys demo_shell) = join_words [[76, 83], [97]]" "line_fits 100 [] (keys demo_shell)"
    "good_word [76, 83]" "\<forall>x \<in> set [[97 :: u8]]. good_word x"
    by (simp_all add: k(1) good_word_def)
  ultimately obtain t where t: "cstr_at (umem t) (file_path_at demo_env) (lit ''0:/'' @ map to_lower [76, 83])"
    "shell_pass demo_env demo_os demo_shell [] =
      (let (res, k) = create_proccess demo_os (file_path_at demo_env) (int (length [[76 :: u8, 83], [97]]))
             (int (length (arg_text [[76, 83], [97]]))) (buf_at demo_env) (umem t) []
       in report_or_wait demo_env demo_os (buf_at demo_env) res t k)"
    using shell_runs_command [OF demo_layout demo_literals k(2), of "[76, 83]" "[[97]]" demo_os "[]"] by blast
  have "wait_pid_blocking demo_os 5 k = Some k" for k by (subst wait_pid_blocking.simps) (simp add: demo_os_def)
  then have "shell_pass demo_env demo_os demo_shell [] = Some (t, [(2, 5)])"
    unfolding t(2) by (simp add: demo_os_def report_or_wait_def arg_text_def)
  moreover have "cstr_at (umem t) 0x2000 [48, 58, 47, 108, 115]" using t(1) by (simp add: demo_env_def to_lower_def)
  ultimately show ?thesis by blast
qed

end
