(* ===== verification/Os_Stubs.thy ===== *)
theory Os_Stubs
  imports Arguments
begin

text \<open>
  The system call stubs of the user library, \<^verbatim>\<open>src/programs/stdlib/src/os.asm\<close>: the registers they use and the memory of the
  program. The trap into the kernel is an argument, a function on this state.
\<close>

section \<open>Instructions\<close>

record user_cpu =
  c_eax :: u32
  c_ebp :: u32
  c_esp :: u32
  c_eip :: u32
  c_mem :: memory

definition push :: "u32 \<Rightarrow> user_cpu \<Rightarrow> user_cpu" where
  "push v c = c\<lparr>c_esp := c_esp c - 4, c_mem := store32 (c_mem c) (c_esp c - 4) v\<rparr>"

definition pop_ebp :: "user_cpu \<Rightarrow> user_cpu" where
  "pop_ebp c = c\<lparr>c_ebp := load32 (c_mem c) (c_esp c), c_esp := c_esp c + 4\<rparr>"

definition ret :: "user_cpu \<Rightarrow> user_cpu" where
  "ret c = c\<lparr>c_eip := load32 (c_mem c) (c_esp c), c_esp := c_esp c + 4\<rparr>"

text \<open>The common shape: save \<^verbatim>\<open>ebp\<close>, push copies of the arguments, load the number, trap, drop the copies, return.\<close>

definition stub_entry :: "u32 \<Rightarrow> u32 list \<Rightarrow> user_cpu \<Rightarrow> user_cpu" where
  "stub_entry n offs c =
     (let c = push (c_ebp c) c; c = c\<lparr>c_ebp := c_esp c\<rparr>;
          c = fold (\<lambda>d c. push (load32 (c_mem c) (c_ebp c + d)) c) offs c
      in c\<lparr>c_eax := n\<rparr>)"

definition stub_exit :: "u32 \<Rightarrow> user_cpu \<Rightarrow> user_cpu" where
  "stub_exit bytes c = ret (pop_ebp (c\<lparr>c_esp := c_esp c + bytes\<rparr>))"

section \<open>Stubs\<close>

definition os_print :: "(user_cpu \<Rightarrow> user_cpu) \<Rightarrow> user_cpu \<Rightarrow> user_cpu" where
  "os_print trap c = stub_exit 8 (trap (stub_entry 1 [8, 12] c))"

definition os_get_key :: "(user_cpu \<Rightarrow> user_cpu) \<Rightarrow> user_cpu \<Rightarrow> user_cpu" where
  "os_get_key trap c = stub_exit 0 (trap (stub_entry 2 [] c))"

definition os_put_char :: "(user_cpu \<Rightarrow> user_cpu) \<Rightarrow> user_cpu \<Rightarrow> user_cpu" where
  "os_put_char trap c = stub_exit 4 (trap (stub_entry 3 [8] c))"

definition os_mmap :: "(user_cpu \<Rightarrow> user_cpu) \<Rightarrow> user_cpu \<Rightarrow> user_cpu" where
  "os_mmap trap c = stub_exit 12 (trap (stub_entry 4 [8, 12, 16] c))"

definition os_munmap :: "(user_cpu \<Rightarrow> user_cpu) \<Rightarrow> user_cpu \<Rightarrow> user_cpu" where
  "os_munmap trap c = stub_exit 4 (trap (stub_entry 5 [8] c))"

definition os_cls :: "(user_cpu \<Rightarrow> user_cpu) \<Rightarrow> user_cpu \<Rightarrow> user_cpu" where
  "os_cls trap c = stub_exit 0 (trap (stub_entry 6 [] c))"

definition os_create_proccess :: "(user_cpu \<Rightarrow> user_cpu) \<Rightarrow> user_cpu \<Rightarrow> user_cpu" where
  "os_create_proccess trap c = stub_exit 16 (trap (stub_entry 7 [8, 12, 16, 20] c))"

definition os_exit :: "(user_cpu \<Rightarrow> user_cpu) \<Rightarrow> user_cpu \<Rightarrow> user_cpu" where
  "os_exit trap c = stub_exit 4 (trap (stub_entry 8 [8] c))"

definition os_waitpid :: "(user_cpu \<Rightarrow> user_cpu) \<Rightarrow> user_cpu \<Rightarrow> user_cpu" where
  "os_waitpid trap c = stub_exit 4 (trap (stub_entry 9 [8] c))"

text \<open>\<^verbatim>\<open>_start\<close> of \<^verbatim>\<open>start.asm\<close>: \<^verbatim>\<open>main\<close> is called with a return address on top of what the kernel left on the stack, and its
  result is handed to \<^verbatim>\<open>exit\<close>. The addresses of the two instructions after the calls are arguments.\<close>

definition start :: "addr \<Rightarrow> addr \<Rightarrow> (user_cpu \<Rightarrow> user_cpu) \<Rightarrow> (user_cpu \<Rightarrow> user_cpu) \<Rightarrow> user_cpu \<Rightarrow> user_cpu" where
  "start after_main after_exit main trap c =
     (let c = main (push after_main c); c = push (c_eax c) c
      in ret (os_exit trap (push after_exit c)))"

section \<open>Arguments of the trap\<close>

text \<open>Every stub with the number of its system call and the number of its arguments.\<close>

definition os_stubs :: "(((user_cpu \<Rightarrow> user_cpu) \<Rightarrow> user_cpu \<Rightarrow> user_cpu) \<times> u32 \<times> nat) list" where
  "os_stubs = [(os_print, 1, 2), (os_get_key, 2, 0), (os_put_char, 3, 1), (os_mmap, 4, 3), (os_munmap, 5, 1), (os_cls, 6, 0),
     (os_create_proccess, 7, 4), (os_exit, 8, 1), (os_waitpid, 9, 1)]"

definition arg_offsets :: "nat \<Rightarrow> u32 list" where
  "arg_offsets k = map (\<lambda>i. 8 + 4 * of_nat i) [0..<k]"

lemma os_stubs_shape:
  "(f, n, k) \<in> set os_stubs \<Longrightarrow> f trap c = stub_exit (4 * of_nat k) (trap (stub_entry n (arg_offsets k) c)) \<and> k \<le> 4"
  unfolding os_stubs_def
  by (simp, elim disjE conjE) (simp_all add: arg_offsets_def os_print_def os_get_key_def os_put_char_def os_mmap_def
      os_munmap_def os_cls_def os_create_proccess_def os_exit_def os_waitpid_def eval_nat_numeral)

lemma unat_minus:
  assumes "k \<le> unat (p :: addr)"
  shows "unat (p - of_nat k) = unat p - k"
proof -
  have "k < 4294967296" using assms unat_u32_bound [of p] by linarith
  then have k: "unat (of_nat k :: addr) = k" by (simp add: unat_of_nat)
  then show ?thesis using assms by (simp add: unat_sub word_le_nat_alt)
qed

lemma load32_kept:
  assumes "unat a + 4 \<le> 2 ^ 32" and "\<And>x. \<not> in_range x lo hi \<Longrightarrow> m' x = m x" and "unat a + 4 \<le> lo \<or> hi \<le> unat a"
  shows "load32 m' a = load32 m a"
  using assms by (intro load32_range) (auto simp: in_range_def)

text \<open>The copies of the arguments, the first one highest.\<close>

definition pushed :: "nat \<Rightarrow> user_cpu \<Rightarrow> user_cpu" where
  "pushed j c = fold (\<lambda>d c. push (load32 (c_mem c) (c_ebp c + d)) c) (arg_offsets j) c"

lemma pushed_args:
  fixes c :: user_cpu
  defines "B \<equiv> unat (c_ebp c)"
  assumes "c_esp c = c_ebp c" and "4 * k \<le> B" and "B + 8 + 4 * k \<le> 2 ^ 32" and "j \<le> k"
  shows "c_esp (pushed j c) = c_ebp c - of_nat (4 * j) \<and> c_ebp (pushed j c) = c_ebp c \<and>
    (\<forall>a. \<not> in_range a (B - 4 * j) B \<longrightarrow> c_mem (pushed j c) a = c_mem c a) \<and>
    (\<forall>i < j. load32 (c_mem (pushed j c)) (c_ebp c - of_nat (4 * Suc i)) = load32 (c_mem c) (c_ebp c + (8 + 4 * of_nat i)))"
  using assms(5)
proof (induction j)
  case 0
  then show ?case using assms(2) by (simp add: pushed_def arg_offsets_def)
next
  case (Suc j)
  let ?b = "c_ebp c" let ?x = "pushed j c" let ?v = "load32 (c_mem c) (?b + (8 + 4 * of_nat j))"
  have IH: "c_esp ?x = ?b - of_nat (4 * j)" "c_ebp ?x = ?b" "\<And>a. \<not> in_range a (B - 4 * j) B \<Longrightarrow> c_mem ?x a = c_mem c a"
    "\<And>i. i < j \<Longrightarrow> load32 (c_mem ?x) (?b - of_nat (4 * Suc i)) = load32 (c_mem c) (?b + (8 + 4 * of_nat i))"
    using Suc by auto
  have B: "4 * Suc j \<le> B" using Suc.prems assms(3) by simp
  then have e: "B - 4 * Suc j + 4 = B - 4 * j" by simp
  have u: "unat (?b - of_nat (4 * Suc j)) = B - 4 * Suc j" using unat_minus B by (simp only: B_def)
  have hi: "unat (?b + (8 + 4 * of_nat j)) = B + 8 + 4 * j"
    using unat_offset [of ?b "8 + 4 * j"] assms(4) Suc.prems by (simp add: B_def)
  have "load32 (c_mem ?x) (?b + (8 + 4 * of_nat j)) = ?v"
    using assms(4) Suc.prems by (intro load32_kept [OF _ IH(3)]) (auto simp: hi)
  then have "pushed (Suc j) c = push ?v ?x" by (simp add: pushed_def arg_offsets_def IH(2) [unfolded pushed_def arg_offsets_def])
  moreover have "?b - of_nat (4 * j) - 4 = ?b - of_nat (4 * Suc j)" by simp
  ultimately have x: "c_esp (pushed (Suc j) c) = ?b - of_nat (4 * Suc j)" "c_ebp (pushed (Suc j) c) = ?b"
    "c_mem (pushed (Suc j) c) = store32 (c_mem ?x) (?b - of_nat (4 * Suc j)) ?v"
    using IH(2) by (simp_all only: push_def IH(1)) simp_all
  have st: "store32 m (?b - of_nat (4 * Suc j)) v a = m a" if "\<not> in_range a (B - 4 * Suc j) (B - 4 * j)" for m v a
  proof (rule store32_range)
    show "unat (?b - of_nat (4 * Suc j)) + 4 \<le> 2 ^ 32" unfolding u using B assms(4) by linarith
    show "\<not> in_range a (unat (?b - of_nat (4 * Suc j))) (unat (?b - of_nat (4 * Suc j)) + 4)"
      using that unfolding u e .
  qed
  have "c_mem (pushed (Suc j) c) a = c_mem c a" if "\<not> in_range a (B - 4 * Suc j) B" for a
  proof -
    have "\<not> in_range a (B - 4 * Suc j) (B - 4 * j)" "\<not> in_range a (B - 4 * j) B" using that by (auto simp: in_range_def)
    then show ?thesis unfolding x(3) using st IH(3) by simp
  qed
  moreover have "load32 (c_mem (pushed (Suc j) c)) (?b - of_nat (4 * Suc i)) = load32 (c_mem c) (?b + (8 + 4 * of_nat i))"
    if "i < Suc j" for i
  proof (cases "i = j")
    case True
    then show ?thesis unfolding x(3) by (simp only: load32_store32_same)
  next
    case False
    then have i: "i < j" using that by simp
    have ui: "unat (?b - of_nat (4 * Suc i)) = B - 4 * Suc i" using unat_minus [of "4 * Suc i" ?b] B i by (simp add: B_def)
    have "load32 (c_mem (pushed (Suc j) c)) (?b - of_nat (4 * Suc i)) = load32 (c_mem ?x) (?b - of_nat (4 * Suc i))"
      unfolding x(3) by (rule load32_kept [OF _ st]) (use ui B i assms(4) in auto)
    then show ?thesis using IH(4) [OF i] by simp
  qed
  ultimately show ?case using x(1,2) by blast
qed

section \<open>The whole stub\<close>

text \<open>What the stubs need of the kernel: a trap leaves \<^verbatim>\<open>esp\<close> and \<^verbatim>\<open>ebp\<close> as they are, and the two words at \<^verbatim>\<open>ebp\<close>, the
  saved \<^verbatim>\<open>ebp\<close> and the return address of the stub. Other memory, the stack included, may change.\<close>

definition keeps_stack :: "(user_cpu \<Rightarrow> user_cpu) \<Rightarrow> bool" where
  "keeps_stack trap \<longleftrightarrow> (\<forall>x. c_esp (trap x) = c_esp x \<and> c_ebp (trap x) = c_ebp x \<and>
     (\<forall>a. in_block a (c_ebp x) 8 \<longrightarrow> c_mem (trap x) a = c_mem x a))"

lemma stub_entry_state:
  fixes c :: user_cpu and k :: nat and n :: u32
  defines "S \<equiv> unat (c_esp c)" and "x \<equiv> stub_entry n (arg_offsets k) c"
  assumes "4 * Suc k \<le> S" and "S + 4 + 4 * k \<le> 2 ^ 32"
  shows "c_eax x = n" and "c_esp x = c_esp c - of_nat (4 * Suc k)" and "c_ebp x = c_esp c - 4"
    and "\<And>a. \<not> in_range a (S - 4 * Suc k) S \<Longrightarrow> c_mem x a = c_mem c a" and "load32 (c_mem x) (c_esp c - 4) = c_ebp c"
    and "i < k \<Longrightarrow> load32 (c_mem x) (c_esp x + of_nat (4 * i)) = load32 (c_mem c) (c_esp c + of_nat (4 * (k - i)))"
proof -
  define c1 where "c1 = (push (c_ebp c) c)\<lparr>c_ebp := c_esp c - 4\<rparr>"
  have c1: "c_ebp c1 = c_esp c - 4" "c_esp c1 = c_ebp c1" "c_mem c1 = store32 (c_mem c) (c_esp c - 4) (c_ebp c)"
    by (simp_all add: c1_def push_def)
  have x: "x = (pushed k c1)\<lparr>c_eax := n\<rparr>" by (simp add: x_def stub_entry_def pushed_def c1_def push_def Let_def)
  have B: "unat (c_ebp c1) = S - 4" unfolding c1(1) using unat_minus [of 4 "c_esp c"] assms(3) by (simp add: S_def)
  have "4 * k \<le> unat (c_ebp c1)" "unat (c_ebp c1) + 8 + 4 * k \<le> 2 ^ 32" using assms(3,4) B by auto
  note p = pushed_args [OF c1(2) this order_refl, unfolded B, folded x]
  show "c_eax x = n" by (simp add: x)
  show esp: "c_esp x = c_esp c - of_nat (4 * Suc k)" and "c_ebp x = c_esp c - 4"
    using p by (simp_all add: x c1(1))
  have st: "c_mem c1 a = c_mem c a" if "\<not> in_range a (S - 4) S" for a
    unfolding c1(3) using that B assms(3,4) c1(1) by (intro store32_range) (auto simp: S_def)
  have px: "c_mem x a = c_mem c1 a" if "\<not> in_range a (S - 4 - 4 * k) (S - 4)" for a using p that by (simp add: x)
  show "c_mem x a = c_mem c a" if "\<not> in_range a (S - 4 * Suc k) S" for a
  proof -
    have "\<not> in_range a (S - 4) S" "\<not> in_range a (S - 4 - 4 * k) (S - 4)" using that assms(3) by (auto simp: in_range_def)
    then show ?thesis using st px by simp
  qed
  have "load32 (c_mem x) (c_ebp c1) = load32 (c_mem c1) (c_ebp c1)"
    by (rule load32_kept [OF _ px]) (use B assms(3,4) in auto)
  then show "load32 (c_mem x) (c_esp c - 4) = c_ebp c" by (simp add: c1 load32_store32_same)
  assume i: "i < k"
  then obtain l where l: "k = Suc (i + l)" using less_iff_Suc_add by auto
  have a: "c_esp x + of_nat (4 * i) = c_ebp c1 - of_nat (4 * Suc l)" unfolding esp c1(1) l by (simp add: algebra_simps)
  have b: "c_ebp c1 + (8 + 4 * of_nat l) = c_esp c + of_nat (4 * (k - i))" unfolding c1(1) l by (simp add: algebra_simps)
  have "unat (c_esp c + of_nat (4 * (k - i))) = S + 4 * (k - i)"
    unfolding S_def by (rule unat_offset) (use assms(4) l in \<open>simp add: S_def\<close>)
  then have "load32 (c_mem c1) (c_esp c + of_nat (4 * (k - i))) = load32 (c_mem c) (c_esp c + of_nat (4 * (k - i)))"
    by (intro load32_kept [OF _ st]) (use assms(4) l in auto)
  moreover have "load32 (c_mem (pushed k c1)) (c_ebp c1 - of_nat (4 * Suc l)) = load32 (c_mem c1) (c_ebp c1 + (8 + 4 * of_nat l))"
    using p l by simp
  ultimately show "load32 (c_mem x) (c_esp x + of_nat (4 * i)) = load32 (c_mem c) (c_esp c + of_nat (4 * (k - i)))"
    unfolding a b by (simp add: x)
qed

text \<open>C16: every stub traps once, with its number in \<^verbatim>\<open>eax\<close> and its arguments on the stack so that item \<open>i\<close> is the argument that the
  caller pushed \<open>k - i\<close> words above the return address: the last argument is item 0. Afterwards it returns to its caller
  with \<^verbatim>\<open>ebp\<close> restored, only the return address popped, and in \<^verbatim>\<open>eax\<close> what the kernel put there.\<close>

theorem stubs_trap:
  assumes "(f, n, k) \<in> set os_stubs" and "keeps_stack trap" and "20 \<le> unat (c_esp c)" and "unat (c_esp c) + 20 \<le> 2 ^ 32"
  shows "\<exists>x. f trap c = (trap x)\<lparr>c_ebp := c_ebp c, c_esp := c_esp c + 4, c_eip := load32 (c_mem c) (c_esp c)\<rparr> \<and> c_eax x = n \<and>
    (\<forall>i < k. load32 (c_mem x) (c_esp x + of_nat (4 * i)) = load32 (c_mem c) (c_esp c + of_nat (4 * (k - i)))) \<and>
    (\<forall>a. \<not> in_range a (unat (c_esp c) - 4 * Suc k) (unat (c_esp c)) \<longrightarrow> c_mem x a = c_mem c a)"
proof -
  let ?x = "stub_entry n (arg_offsets k) c" and ?s = "c_esp c"
  have f: "f trap c = stub_exit (4 * of_nat k) (trap ?x)" "k \<le> 4" using os_stubs_shape [OF assms(1)] by auto
  have room: "4 * Suc k \<le> unat ?s" "unat ?s + 4 + 4 * k \<le> 2 ^ 32" using f(2) assms(3,4) by auto
  note x = stub_entry_state [OF room, where n = n]
  have t: "c_esp (trap ?x) = c_esp ?x" "c_ebp (trap ?x) = c_ebp ?x"
    "\<And>a. in_block a (?s - 4) 8 \<Longrightarrow> c_mem (trap ?x) a = c_mem ?x a"
    using assms(2) x(3) by (simp_all add: keeps_stack_def)
  have keep: "load32 (c_mem (trap ?x)) (?s - 4 + of_nat j) = load32 (c_mem ?x) (?s - 4 + of_nat j)" if "j \<le> 4" for j
  proof (intro load32_cong t(3))
    fix i :: nat assume "i < 4"
    show "in_block (?s - 4 + of_nat j + of_nat i) (?s - 4) 8"
      using in_block_offset [of "j + i" "?s - 4" 8] that \<open>i < 4\<close> by (simp add: add.assoc)
  qed
  have "load32 (c_mem (trap ?x)) (?s - 4) = c_ebp c" using x(5) keep [of 0] by simp
  moreover have "load32 (c_mem (trap ?x)) ?s = load32 (c_mem c) ?s"
    using keep [of 4] load32_kept [OF _ x(4), of ?s] assms(4) by simp
  moreover have "c_esp ?x + 4 * of_nat k = ?s - 4" unfolding x(2) by simp
  ultimately have "f trap c = (trap ?x)\<lparr>c_ebp := c_ebp c, c_esp := ?s + 4, c_eip := load32 (c_mem c) ?s\<rparr>"
    unfolding f(1) stub_exit_def pop_ebp_def ret_def by (simp add: t(1))
  then show ?thesis using x(1,4,6) by blast
qed

text \<open>\<^verbatim>\<open>mmap\<close> called with the arguments 11, 12 and 13 at 0x8000 and a kernel that returns item 2.\<close>

definition demo_cpu :: user_cpu where
  "demo_cpu = \<lparr>c_eax = 0, c_ebp = 0x9000, c_esp = 0x8000, c_eip = 0,
     c_mem = store32 (store32 (store32 (store32 (\<lambda>_. 0) 0x8000 0x400) 0x8004 11) 0x8008 12) 0x800C 13\<rparr>"

definition demo_trap :: "user_cpu \<Rightarrow> user_cpu" where
  "demo_trap x = x\<lparr>c_eax := load32 (c_mem x) (c_esp x + 8)\<rparr>"

theorem stubs_trap_witness:
  "c_eax (os_mmap demo_trap demo_cpu) = 11 \<and> c_eip (os_mmap demo_trap demo_cpu) = 0x400 \<and> c_esp (os_mmap demo_trap demo_cpu) = 0x8004"
proof -
  have m: "load32 (c_mem demo_cpu) 0x8000 = 0x400" "load32 (c_mem demo_cpu) 0x8004 = 11"
    by (simp_all add: demo_cpu_def load32_def store32_def)
  have e: "c_esp demo_cpu = 0x8000" by (simp add: demo_cpu_def)
  have "(os_mmap, 4, 3) \<in> set os_stubs" by (simp add: os_stubs_def)
  moreover have "keeps_stack demo_trap" by (simp add: keeps_stack_def demo_trap_def)
  ultimately obtain x where x: "os_mmap demo_trap demo_cpu = (demo_trap x)\<lparr>c_ebp := c_ebp demo_cpu, c_esp := c_esp demo_cpu + 4,
      c_eip := load32 (c_mem demo_cpu) (c_esp demo_cpu)\<rparr>"
    "\<forall>i < 3. load32 (c_mem x) (c_esp x + of_nat (4 * i)) = load32 (c_mem demo_cpu) (c_esp demo_cpu + of_nat (4 * (3 - i)))"
    using stubs_trap [of os_mmap 4 3 demo_trap demo_cpu] e by auto
  from x(2) have "load32 (c_mem x) (c_esp x + 8) = 11" using m(2) e by (auto dest!: spec [of _ 2])
  then show ?thesis using m(1) e by (simp add: x(1) demo_trap_def)
qed

end
