(* ===== verification/Trap.thy ===== *)
theory Trap
  imports Os_Stubs
begin

text \<open>
  The way into the kernel and out of it at the level of instructions: the stubs \<^verbatim>\<open>int80h\<close> and \<^verbatim>\<open>interrupt\<close> of
  \<^verbatim>\<open>src/src/idt/idt.asm\<close> and \<^verbatim>\<open>task_return\<close> with \<^verbatim>\<open>restore_general_purpose_registers\<close> of \<^verbatim>\<open>src/src/task/task.asm\<close>, with the
  kernel stack in memory, against the operations on whole frames and register sets in the theories of the kernel.
  The C function a stub calls is an argument, a function on the processor state from the call to the return.
\<close>

section \<open>Processor\<close>

record kcpu = registers +
  k_ds :: u16
  k_es :: u16
  k_fs :: u16
  k_gs :: u16
  k_mem :: memory

definition kpush :: "u32 \<Rightarrow> kcpu \<Rightarrow> kcpu" where
  "kpush v c = c\<lparr>r_esp := r_esp c - 4, k_mem := store32 (k_mem c) (r_esp c - 4) v\<rparr>"

definition stk :: "nat \<Rightarrow> kcpu \<Rightarrow> u32" where
  "stk i c = load32 (k_mem c) (r_esp c + of_nat (4 * i))"

text \<open>The interrupt flag is bit 9.\<close>

definition cli :: "kcpu \<Rightarrow> kcpu" where
  "cli c = c\<lparr>r_eflags := unset_bit 9 (r_eflags c)\<rparr>"

text \<open>An interrupt of user code through an interrupt gate: the processor takes the stack of the task state segment
  and pushes the user's \<^verbatim>\<open>ss\<close>, \<^verbatim>\<open>esp\<close>, \<^verbatim>\<open>eflags\<close>, \<^verbatim>\<open>cs\<close> and \<^verbatim>\<open>eip\<close>.\<close>

definition user_trap :: "addr \<Rightarrow> u32 \<Rightarrow> addr \<Rightarrow> kcpu \<Rightarrow> kcpu" where
  "user_trap ks kss entry u =
     (let c = u\<lparr>r_esp := ks, r_ss := kss\<rparr>;
          c = fold kpush [r_ss u, r_esp u, r_eflags u, r_cs u, r_eip u] c
      in cli (c\<lparr>r_cs := ucast KERNEL_CODE_SEGMENT, r_eip := entry\<rparr>))"

definition pushad :: "kcpu \<Rightarrow> kcpu" where
  "pushad c = fold kpush [r_eax c, r_ecx c, r_edx c, r_ebx c, r_esp c, r_ebp c, r_esi c, r_edi c] c"

definition popad :: "kcpu \<Rightarrow> kcpu" where
  "popad c = c\<lparr>r_edi := stk 0 c, r_esi := stk 1 c, r_ebp := stk 2 c, r_ebx := stk 4 c, r_edx := stk 5 c,
     r_ecx := stk 6 c, r_eax := stk 7 c, r_esp := r_esp c + 32\<rparr>"

definition iretd :: "kcpu \<Rightarrow> kcpu" where
  "iretd c = c\<lparr>r_eip := stk 0 c, r_cs := stk 1 c, r_eflags := stk 2 c, r_esp := stk 3 c, r_ss := stk 4 c\<rparr>"

section \<open>Entry stubs\<close>

definition int80h_call :: "kcpu \<Rightarrow> kcpu" where
  "int80h_call c =
     (let c = pushad (cli c); c = kpush (r_esp c) c in kpush (r_eax c) c)"

definition int80h_return :: "addr \<Rightarrow> kcpu \<Rightarrow> kcpu" where
  "int80h_return tmp_res c =
     (let c = c\<lparr>k_mem := store32 (k_mem c) tmp_res (r_eax c)\<rparr>;
          c = popad (c\<lparr>r_esp := r_esp c + 8\<rparr>)
      in iretd (c\<lparr>r_eax := load32 (k_mem c) tmp_res\<rparr>))"

definition int80h_asm :: "addr \<Rightarrow> (kcpu \<Rightarrow> kcpu) \<Rightarrow> kcpu \<Rightarrow> kcpu" where
  "int80h_asm tmp_res handler c = int80h_return tmp_res (handler (int80h_call c))"

definition interrupt_call :: "u32 \<Rightarrow> kcpu \<Rightarrow> kcpu" where
  "interrupt_call n c = (let c = pushad c; c = kpush (r_esp c) c in kpush n c)"

definition interrupt_asm :: "u32 \<Rightarrow> (kcpu \<Rightarrow> kcpu) \<Rightarrow> kcpu \<Rightarrow> kcpu" where
  "interrupt_asm n handler c =
     (let c = handler (interrupt_call n c) in iretd (popad (c\<lparr>r_esp := r_esp c + 8\<rparr>)))"

section \<open>Leaving the kernel\<close>

definition restore_general_purpose_registers :: "kcpu \<Rightarrow> kcpu" where
  "restore_general_purpose_registers c =
     (let c = kpush (r_ebp c) c; c = c\<lparr>r_ebp := r_esp c\<rparr>;
          p = load32 (k_mem c) (r_ebp c + 8); m = k_mem c;
          c = c\<lparr>r_edi := load32 m p, r_esi := load32 m (p + 4), r_ebp := load32 m (p + 8), r_edx := load32 m (p + 16),
                r_ecx := load32 m (p + 20), r_eax := load32 m (p + 24), r_ebx := load32 m (p + 12)\<rparr>;
          c = c\<lparr>r_esp := r_esp c + 4\<rparr>
      in c\<lparr>r_eip := stk 0 c, r_esp := r_esp c + 4\<rparr>)"

text \<open>The address behind the call of \<^verbatim>\<open>restore_general_purpose_registers\<close> is an argument.\<close>

definition task_return_asm :: "addr \<Rightarrow> kcpu \<Rightarrow> kcpu" where
  "task_return_asm after c =
     (let c = c\<lparr>r_ebp := r_esp c\<rparr>; c = c\<lparr>r_ebx := load32 (k_mem c) (r_ebp c + 4)\<rparr>;
          c = kpush (load32 (k_mem c) (r_ebx c + 44)) c;
          c = kpush (load32 (k_mem c) (r_ebx c + 40)) c;
          c = kpush (load32 (k_mem c) (r_ebx c + 36)) c;
          c = kpush (load32 (k_mem c) (r_ebx c + 32)) c;
          c = kpush (load32 (k_mem c) (r_ebx c + 28)) c;
          ax = load16 (k_mem c) (r_ebx c + 44);
          c = c\<lparr>r_eax := push_bit 16 (drop_bit 16 (r_eax c)) OR ucast ax\<rparr>;
          c = c\<lparr>k_ds := ax, k_es := ax, k_fs := ax, k_gs := ax\<rparr>;
          c = kpush (load32 (k_mem c) (r_ebp c + 4)) c;
          c = restore_general_purpose_registers (kpush after c)
      in iretd (c\<lparr>r_esp := r_esp c + 4\<rparr>))"

section \<open>Structures in memory\<close>

definition frame_at :: "memory \<Rightarrow> addr \<Rightarrow> interrupt_frame" where
  "frame_at m p = \<lparr>f_edi = load32 m p, f_esi = load32 m (p + 4), f_ebp = load32 m (p + 8), f_reserved = load32 m (p + 12),
     f_ebx = load32 m (p + 16), f_edx = load32 m (p + 20), f_ecx = load32 m (p + 24), f_eax = load32 m (p + 28),
     f_eip = load32 m (p + 32), f_cs = load32 m (p + 36), f_eflags = load32 m (p + 40), f_esp = load32 m (p + 44),
     f_ss = load32 m (p + 48)\<rparr>"

definition regs_at :: "memory \<Rightarrow> addr \<Rightarrow> registers" where
  "regs_at m p = \<lparr>r_edi = load32 m p, r_esi = load32 m (p + 4), r_ebp = load32 m (p + 8), r_ebx = load32 m (p + 12),
     r_edx = load32 m (p + 16), r_ecx = load32 m (p + 20), r_eax = load32 m (p + 24), r_eip = load32 m (p + 28),
     r_cs = load32 m (p + 32), r_eflags = load32 m (p + 36), r_esp = load32 m (p + 40), r_ss = load32 m (p + 44)\<rparr>"

definition user_frame :: "u32 \<Rightarrow> kcpu \<Rightarrow> interrupt_frame" where
  "user_frame t u = \<lparr>f_edi = r_edi u, f_esi = r_esi u, f_ebp = r_ebp u, f_reserved = t, f_ebx = r_ebx u, f_edx = r_edx u,
     f_ecx = r_ecx u, f_eax = r_eax u, f_eip = r_eip u, f_cs = r_cs u, f_eflags = r_eflags u, f_esp = r_esp u, f_ss = r_ss u\<rparr>"

lemma frame_registers_user: "frame_registers (user_frame t u) = registers.truncate u"
  by (simp add: frame_registers_def user_frame_def registers.truncate_def)

section \<open>Pushing\<close>

lemma kpush_simps [simp]:
  "r_esp (kpush v c) = r_esp c - 4" "r_edi (kpush v c) = r_edi c" "r_esi (kpush v c) = r_esi c" "r_ebp (kpush v c) = r_ebp c"
  "r_ebx (kpush v c) = r_ebx c" "r_edx (kpush v c) = r_edx c" "r_ecx (kpush v c) = r_ecx c" "r_eax (kpush v c) = r_eax c"
  "k_mem (kpush v c) = store32 (k_mem c) (r_esp c - 4) v" "k_ds (kpush v c) = k_ds c" "k_es (kpush v c) = k_es c"
  "k_fs (kpush v c) = k_fs c" "k_gs (kpush v c) = k_gs c"
  by (simp_all add: kpush_def)

lemma pushes_esp: "r_esp (fold kpush ws c) = r_esp c - of_nat (4 * length ws)"
  by (induction ws arbitrary: c) simp_all

lemma pushes_outside:
  assumes "4 * length ws \<le> unat (r_esp c)" and "\<not> in_range a (unat (r_esp c) - 4 * length ws) (unat (r_esp c))"
  shows "k_mem (fold kpush ws c) a = k_mem c a"
  using assms
proof (induction ws arbitrary: c)
  case (Cons v ws)
  have u: "unat (r_esp c - 4) = unat (r_esp c) - 4" using unat_minus [of 4 "r_esp c"] Cons.prems(1) by simp
  have "k_mem (fold kpush ws (kpush v c)) a = k_mem (kpush v c) a"
    using Cons.prems by (intro Cons.IH) (auto simp: u in_range_def)
  also have "\<dots> = k_mem c a"
    using Cons.prems unat_u32_bound [of "r_esp c"] unfolding kpush_simps by (intro store32_range) (auto simp: u in_range_def)
  finally show ?case by simp
qed simp

lemma pushes_load:
  assumes "4 * length ws \<le> n" and "n \<le> unat (r_esp c)" and "unat a + 4 \<le> 2 ^ 32"
    and "unat a + 4 \<le> unat (r_esp c) - n \<or> unat (r_esp c) \<le> unat a"
  shows "load32 (k_mem (fold kpush ws c)) a = load32 (k_mem c) a"
  using assms by (intro load32_range pushes_outside) (auto simp: in_range_def)

text \<open>Item \<open>i\<close> of the stack is the value pushed \<open>i\<close> pushes before the last one.\<close>

lemma pushes_stk:
  assumes "4 * length ws \<le> unat (r_esp c)" and "i < length ws"
  shows "stk i (fold kpush ws c) = rev ws ! i"
  using assms
proof (induction ws arbitrary: i rule: rev_induct)
  case (snoc v ws)
  let ?e = "fold kpush ws c"
  have e: "unat (r_esp ?e) = unat (r_esp c) - 4 * length ws" unfolding pushes_esp by (rule unat_minus) (use snoc.prems in simp)
  have bound: "unat (r_esp c) < 4294967296" "4 * length ws + 4 \<le> unat (r_esp c)" using snoc.prems(1) by simp_all
  show ?case
  proof (cases i)
    case 0
    then show ?thesis by (simp add: stk_def load32_store32_same)
  next
    case (Suc j)
    have le: "4 * j + 4 \<le> 4 * length ws" using Suc snoc.prems(2) by simp
    have fit: "unat (r_esp ?e) + 4 * j + 4 < 4294967296" using le bound e by linarith
    have u: "unat (r_esp ?e + of_nat (4 * j)) = unat (r_esp ?e) + 4 * j"
      by (rule unat_offset) (use fit in simp)
    have "stk i (kpush v ?e) = load32 (k_mem (fold kpush [v] ?e)) (r_esp ?e + of_nat (4 * j))"
      by (simp add: stk_def Suc algebra_simps)
    also have "\<dots> = load32 (k_mem ?e) (r_esp ?e + of_nat (4 * j))"
    proof (rule pushes_load [where n = 4])
      show "unat (r_esp ?e + of_nat (4 * j)) + 4 \<le> 2 ^ 32" unfolding u using fit by simp
      show "unat (r_esp ?e + of_nat (4 * j)) + 4 \<le> unat (r_esp ?e) - 4 \<or> unat (r_esp ?e) \<le> unat (r_esp ?e + of_nat (4 * j))"
        unfolding u by simp
    qed (use snoc.prems(1) e in simp_all)
    also have "\<dots> = rev ws ! j" using snoc.IH [of j] snoc.prems Suc by (simp add: stk_def)
    finally show ?thesis by (simp add: Suc)
  qed
qed simp

section \<open>System calls and interrupts\<close>

text \<open>What the stubs leave on the stack of \<open>ks\<close>, top first, at the call of the C function.\<close>

definition trap_words :: "addr \<Rightarrow> u32 \<Rightarrow> kcpu \<Rightarrow> u32 list" where
  "trap_words ks n u = [n, ks - 52, r_edi u, r_esi u, r_ebp u, ks - 20, r_ebx u, r_edx u, r_ecx u, r_eax u, r_eip u,
     r_cs u, r_eflags u, r_esp u, r_ss u]"

lemma interrupt_call_words:
  fixes ks entry :: addr and kss n :: u32 and u :: kcpu
  defines "x \<equiv> interrupt_call n (user_trap ks kss entry u)"
  assumes "60 \<le> unat ks"
  shows "r_esp x = ks - 60" and "i < 15 \<Longrightarrow> stk i x = trap_words ks n u ! i"
proof -
  let ?c = "u\<lparr>r_esp := ks, r_ss := kss\<rparr>"
  have m: "k_mem x = k_mem (fold kpush (rev (trap_words ks n u)) ?c)"
    by (simp add: x_def interrupt_call_def user_trap_def cli_def pushad_def trap_words_def Let_def)
  show e: "r_esp x = ks - 60"
    by (simp add: x_def interrupt_call_def user_trap_def cli_def pushad_def Let_def)
  have "stk i x = stk i (fold kpush (rev (trap_words ks n u)) ?c)"
    unfolding stk_def m e pushes_esp by (simp add: trap_words_def)
  moreover assume "i < 15"
  ultimately show "stk i x = trap_words ks n u ! i"
    using assms(2) pushes_stk [of "rev (trap_words ks n u)" ?c i] by (simp add: trap_words_def)
qed

lemma interrupt_call_frame:
  fixes ks entry :: addr and kss n :: u32 and u :: kcpu
  defines "x \<equiv> interrupt_call n (user_trap ks kss entry u)"
  assumes "60 \<le> unat ks"
  shows "stk 0 x = n" and "stk 1 x = ks - 52" and "frame_at (k_mem x) (ks - 52) = user_frame (ks - 20) u"
proof -
  note w = interrupt_call_words [OF assms(2), where n = n and kss = kss and entry = entry and u = u, folded x_def]
  show "stk 0 x = n" "stk 1 x = ks - 52" using w(2) [of 0] w(2) [of 1] by (simp_all add: trap_words_def)
  have f: "load32 (k_mem x) (ks - 52 + of_nat (4 * j)) = trap_words ks n u ! (j + 2)" if "j < 13" for j
    using w(2) [of "j + 2"] that by (simp add: stk_def w(1) algebra_simps)
  show "frame_at (k_mem x) (ks - 52) = user_frame (ks - 20) u"
    using f [of 0] f [of 1] f [of 2] f [of 3] f [of 4] f [of 5] f [of 6] f [of 7] f [of 8] f [of 9] f [of 10] f [of 11] f [of 12]
    by (simp add: frame_at_def user_frame_def trap_words_def)
qed

lemma int80h_call_eq: "int80h_call (user_trap ks kss entry u) = interrupt_call (r_eax u) (user_trap ks kss entry u)"
proof -
  have "unset_bit 9 (unset_bit 9 w) = unset_bit 9 w" for w :: u32 by (rule bit_word_eqI) (simp add: bit_unset_bit_iff)
  then have "cli (user_trap ks kss entry u) = user_trap ks kss entry u" "r_eax (user_trap ks kss entry u) = r_eax u"
    by (simp_all add: user_trap_def cli_def Let_def)
  moreover have "r_eax (pushad c) = r_eax c" for c by (simp add: pushad_def)
  ultimately show ?thesis by (simp add: int80h_call_def interrupt_call_def Let_def)
qed

lemma trap_return:
  "r_esp c = p - 8 \<Longrightarrow> registers.truncate (iretd (popad (c\<lparr>r_esp := r_esp c + 8\<rparr>))) = frame_registers (frame_at (k_mem c) p)"
  by (simp add: iretd_def popad_def stk_def frame_registers_def frame_at_def registers.truncate_def add.commute [of _ p])

lemma frame_at_store:
  assumes "unat p + 52 \<le> 2 ^ 32" and "unat a + 4 \<le> 2 ^ 32" and "unat a + 4 \<le> unat p \<or> unat p + 52 \<le> unat a"
  shows "frame_at (store32 m a v) p = frame_at m p"
proof -
  have "load32 (store32 m a v) (p + of_nat k) = load32 m (p + of_nat k)" if "k \<le> 48" for k
  proof (rule load32_kept [OF _ store32_range])
    have "unat (p + of_nat k) = unat p + k" using assms(1) that by (intro unat_offset) simp
    then show "unat (p + of_nat k) + 4 \<le> 2 ^ 32" "unat (p + of_nat k) + 4 \<le> unat a \<or> unat a + 4 \<le> unat (p + of_nat k)"
      using assms that by auto
  qed (use assms in auto)
  from this [of 0] this [of 4] this [of 8] this [of 12] this [of 16] this [of 20] this [of 24] this [of 28] this [of 32]
    this [of 36] this [of 40] this [of 44] this [of 48]
  show ?thesis by (simp add: frame_at_def)
qed

lemma int80h_return_registers:
  assumes "r_esp c = p - 8" and "unat p + 52 \<le> 2 ^ 32" and "unat tmp + 4 \<le> 2 ^ 32"
    and "unat tmp + 4 \<le> unat p \<or> unat p + 52 \<le> unat tmp"
  shows "registers.truncate (int80h_return tmp c) = (frame_registers (frame_at (k_mem c) p))\<lparr>r_eax := r_eax c\<rparr>"
proof -
  let ?c = "c\<lparr>k_mem := store32 (k_mem c) tmp (r_eax c)\<rparr>"
  have "registers.truncate (int80h_return tmp c) =
      (registers.truncate (iretd (popad (?c\<lparr>r_esp := r_esp ?c + 8\<rparr>))))\<lparr>r_eax := r_eax c\<rparr>"
    by (simp add: int80h_return_def iretd_def popad_def stk_def registers.truncate_def load32_store32_same Let_def)
  also have "\<dots> = (frame_registers (frame_at (k_mem ?c) p))\<lparr>r_eax := r_eax c\<rparr>"
    using trap_return [of ?c p] assms(1) by simp
  finally show ?thesis using frame_at_store [OF assms(2-4)] by simp
qed

text \<open>The stub of the other interrupts returns to the interrupted program with all registers as they were, when the handler
  leaves the frame alone.\<close>

lemma interrupt_asm_registers:
  fixes ks entry :: addr and kss n :: u32 and u :: kcpu
  defines "x \<equiv> interrupt_call n (user_trap ks kss entry u)"
  assumes "60 \<le> unat ks" and "r_esp (handler x) = r_esp x"
    and "frame_at (k_mem (handler x)) (ks - 52) = frame_at (k_mem x) (ks - 52)"
  shows "registers.truncate (interrupt_asm n handler (user_trap ks kss entry u)) = registers.truncate u"
proof -
  note w = interrupt_call_words(1) [OF assms(2), where n = n and kss = kss and entry = entry and u = u, folded x_def]
  note fr = interrupt_call_frame(3) [OF assms(2), where n = n and kss = kss and entry = entry and u = u, folded x_def]
  show ?thesis
    using trap_return [of "handler x" "ks - 52"] w fr assms(3,4) frame_registers_user
    by (simp add: interrupt_asm_def x_def [symmetric] Let_def)
qed

text \<open>C11: a system call at the level of instructions does what the operation on frames does. The handler is called with the
  number of the call and the address of a frame on the stack; if it does there what \<open>intr_80h_handler\<close> does with this
  number and the user's registers, then \<^verbatim>\<open>int80h\<close> returns to the user with exactly the registers of \<open>int80h\<close>.\<close>

theorem int80h_refines:
  fixes ks entry tmp :: addr and kss :: u32 and u :: kcpu
  defines "x \<equiv> int80h_call (user_trap ks kss entry u)"
  assumes "60 \<le> unat ks" and "unat tmp + 4 \<le> unat ks - 60 \<or> unat ks \<le> unat tmp" and "unat tmp + 4 \<le> 2 ^ 32"
    and "intr_80h_handler (sint (stk 0 x)) (frame_at (k_mem x) (stk 1 x)) s = Ret (res, f) s'"
    and "r_esp (handler x) = r_esp x" and "r_eax (handler x) = res" and "frame_at (k_mem (handler x)) (stk 1 x) = f"
  shows "int80h (user_frame (ks - 20) u) s =
    UserMode (s'\<lparr>cpu := registers.truncate (int80h_asm tmp handler (user_trap ks kss entry u))\<rparr>)"
proof -
  note x = x_def [unfolded int80h_call_eq]
  note w = interrupt_call_words(1) [OF assms(2), where n = "r_eax u" and kss = kss and entry = entry and u = u, folded x]
  note fr = interrupt_call_frame [OF assms(2), where n = "r_eax u" and kss = kss and entry = entry and u = u, folded x]
  have p: "unat (ks - 52) = unat ks - 52" using unat_minus [of 52 ks] assms(2) by simp
  have "unat ks - 52 + 52 \<le> 4294967296" using unat_u32_bound [of ks] assms(2) by linarith
  then have "registers.truncate (int80h_return tmp (handler x)) =
      (frame_registers (frame_at (k_mem (handler x)) (ks - 52)))\<lparr>r_eax := r_eax (handler x)\<rparr>"
    using assms(2-4,6) w by (intro int80h_return_registers) (auto simp: p)
  then have "registers.truncate (int80h_asm tmp handler (user_trap ks kss entry u)) = (frame_registers f)\<lparr>r_eax := res\<rparr>"
    using assms(7,8) fr(2) by (simp add: int80h_asm_def x_def)
  moreover have "intr_80h_handler (sint (r_eax u)) (user_frame (ks - 20) u) s = Ret (res, f) s'" using assms(5) fr by simp
  ultimately show ?thesis by (simp add: int80h_def user_frame_def)
qed

text \<open>A program with twelve different values in its registers makes the unknown system call 64.\<close>

definition demo_user :: kcpu where
  "demo_user = \<lparr>r_edi = 1, r_esi = 2, r_ebp = 3, r_ebx = 4, r_edx = 5, r_ecx = 6, r_eax = 64, r_eip = 8, r_cs = 9, r_eflags = 10,
     r_esp = 11, r_ss = 12, k_ds = 12, k_es = 12, k_fs = 12, k_gs = 12, k_mem = (\<lambda>_. 0)\<rparr>"

definition demo_handler :: "kcpu \<Rightarrow> kcpu" where
  "demo_handler x = x\<lparr>r_eax := - 13\<rparr>"

theorem int80h_refines_witness:
  "\<exists>t. int80h (user_frame 0x5FFFEC demo_user) (fresh_kernel\<lparr>curr_task := 0x500\<rparr>) = UserMode t \<and>
    cpu t = registers.truncate (int80h_asm 0x1000 demo_handler (user_trap 0x600000 0x10 0x100 demo_user))"
proof -
  let ?s = "fresh_kernel\<lparr>curr_task := 0x500\<rparr>" and ?f = "user_frame 0x5FFFEC demo_user"
  note w = interrupt_call_words(1) [of "0x600000" 64 "0x10" "0x100" demo_user]
  note fr = interrupt_call_frame [of "0x600000" 64 "0x10" "0x100" demo_user]
  have eax: "r_eax demo_user = 64" by (simp add: demo_user_def)
  obtain s' where h: "intr_80h_handler 64 ?f ?s = Ret (- 13, ?f) s'"
    by (simp add: intr_80h_handler_def task_save_current_state_def syscall_handle_command_def)
  show ?thesis
    using int80h_refines [of "0x600000" "0x1000" "0x10" "0x100" demo_user ?s "- 13" ?f s' demo_handler] h w fr
    by (simp add: int80h_call_eq eax demo_handler_def)
qed

section \<open>Returning to a task\<close>

text \<open>\<^verbatim>\<open>task_return\<close> loads the structure its argument points at, when the eight words it pushes do not overlap it.\<close>

lemma k_ds_kept: "k_ds (iretd c) = k_ds c" "k_ds (restore_general_purpose_registers c) = k_ds c"
  by (simp_all add: iretd_def restore_general_purpose_registers_def Let_def)

lemma task_return_registers:
  fixes c :: kcpu
  defines "e \<equiv> unat (r_esp c)" and "p \<equiv> load32 (k_mem c) (r_esp c + 4)"
  assumes "32 \<le> e" and "e + 8 \<le> 2 ^ 32" and "unat p + 48 \<le> 2 ^ 32" and "unat p + 48 \<le> e - 32 \<or> e \<le> unat p"
  shows "registers.truncate (task_return_asm after c) = regs_at (k_mem c) p"
    and "k_ds (task_return_asm after c) = load16 (k_mem c) (p + 44)"
proof -
  have keep: "load32 (k_mem (fold kpush ws c)) (p + of_nat k) = load32 (k_mem c) (p + of_nat k)"
    if "length ws \<le> 8" "k \<le> 44" for ws k
  proof (rule pushes_load [where n = 32])
    have "unat (p + of_nat k) = unat p + k" using assms(5) that by (intro unat_offset) simp
    then show "unat (p + of_nat k) + 4 \<le> 2 ^ 32" "unat (p + of_nat k) + 4 \<le> unat (r_esp c) - 32 \<or> unat (r_esp c) \<le> unat (p + of_nat k)"
      using assms that by auto
  qed (use that assms in auto)
  have "unat (r_esp c + of_nat 4) = unat (r_esp c) + 4" using assms(4) by (intro unat_offset) (simp add: e_def)
  then have arg: "load32 (k_mem (fold kpush ws c)) (r_esp c + 4) = p" if "length ws \<le> 8" for ws
    unfolding p_def using that assms(3,4) by (intro pushes_load [where n = 32]) (auto simp: e_def)
  have ax: "load16 (k_mem (fold kpush ws c)) (p + 44) = load16 (k_mem c) (p + 44)" if "length ws \<le> 8" for ws
  proof -
    have "k_mem (fold kpush ws c) a = k_mem c a" if "unat a + 4 \<le> unat (r_esp c) - 32 + 2 \<or> unat (r_esp c) \<le> unat a" for a
      using that \<open>length ws \<le> 8\<close> assms(3) by (intro pushes_outside) (auto simp: in_range_def e_def)
    moreover have "unat (p + of_nat 44) = unat p + 44" "unat (p + of_nat 45) = unat p + 45"
      using assms(5) by (intro unat_offset; simp)+
    ultimately show ?thesis using assms(6) by (auto simp: load16_def e_def add.assoc)
  qed
  have words: "load32 (k_mem (fold kpush [v1, v2, v3, v4, v5, v6, v7, v8] c)) (r_esp c - 32 + of_nat (4 * i)) =
      [v8, v7, v6, v5, v4, v3, v2, v1] ! i" if "i < 8" for v1 v2 v3 v4 v5 v6 v7 v8 i
    using pushes_stk [of "[v1, v2, v3, v4, v5, v6, v7, v8]" c i] that assms(3) by (simp add: stk_def e_def)
  note pushed = keep [of "[_]" 40, simplified] keep [of "[_, _]" 36, simplified] keep [of "[_, _, _]" 32, simplified]
    keep [of "[_, _, _, _]" 28, simplified] arg [of "[]", simplified] arg [of "[_, _, _, _, _]", simplified] ax [of "[_, _, _, _, _]", simplified]
  note loaded = keep [of "[_, _, _, _, _, _, _, _]" 0, simplified] keep [of "[_, _, _, _, _, _, _, _]" 4, simplified]
    keep [of "[_, _, _, _, _, _, _, _]" 8, simplified] keep [of "[_, _, _, _, _, _, _, _]" 12, simplified]
    keep [of "[_, _, _, _, _, _, _, _]" 16, simplified] keep [of "[_, _, _, _, _, _, _, _]" 20, simplified]
    keep [of "[_, _, _, _, _, _, _, _]" 24, simplified]
  note popped = words [of 2, simplified] words [of 3, simplified] words [of 4, simplified] words [of 5, simplified]
    words [of 6, simplified] words [of 7, simplified]
  show "registers.truncate (task_return_asm after c) = regs_at (k_mem c) p"
    by (simp add: task_return_asm_def restore_general_purpose_registers_def iretd_def stk_def Let_def pushed loaded popped
        registers.truncate_def regs_at_def)
  show "k_ds (task_return_asm after c) = load16 (k_mem c) (p + 44)"
    by (simp add: task_return_asm_def k_ds_kept Let_def pushed)
qed

lemma load16_load32: "load16 m a = ucast (load32 m a)"
  by (rule bit_word_eqI) (auto simp: load16_def load32_def bit_simps)

text \<open>C2: the registers of an interrupted program survive the switch to other tasks. The frame that the entry stub leaves on the
  kernel stack is saved by \<open>task_save_current_state\<close>; when later \<^verbatim>\<open>task_return\<close> is called with the address of the saved
  structure, wherever it lies outside the words the routine pushes, all twelve registers are those of the interrupted
  program, and the data segment register is loaded with its stack selector.\<close>

theorem context_restored:
  fixes ks entry :: addr and kss n :: u32 and u c :: kcpu
  defines "x \<equiv> interrupt_call n (user_trap ks kss entry u)" and "p \<equiv> stk 1 c" and "e \<equiv> unat (r_esp c)"
  assumes "60 \<le> unat ks" and "task_save_current_state (frame_at (k_mem x) (stk 1 x)) s = Ret () s'"
    and "regs_at (k_mem c) p = regs (tasks s' (curr_task s))"
    and "32 \<le> e" and "e + 8 \<le> 2 ^ 32" and "unat p + 48 \<le> 2 ^ 32" and "unat p + 48 \<le> e - 32 \<or> e \<le> unat p"
  shows "registers.truncate (task_return_asm after c) = registers.truncate u \<and> k_ds (task_return_asm after c) = ucast (r_ss u)"
proof -
  note fr = interrupt_call_frame [OF assms(4), where n = n and kss = kss and entry = entry and u = u, folded x_def]
  have p: "p = load32 (k_mem c) (r_esp c + 4)" by (simp add: p_def stk_def)
  note ret = task_return_registers [of c after, folded p e_def, OF assms(7-10)]
  have "regs (tasks s' (curr_task s)) = frame_registers (user_frame (ks - 20) u)"
    using assms(5) fr
    by (auto simp: task_save_current_state_def upd_task_def frame_registers_def panic_def split: if_splits)
  then have "regs_at (k_mem c) p = registers.truncate u" using assms(6) by (simp add: frame_registers_user)
  moreover from this have "load32 (k_mem c) (p + 44) = r_ss u" by (simp add: regs_at_def registers.truncate_def)
  then have "load16 (k_mem c) (p + 44) = ucast (r_ss u)" by (simp add: load16_load32)
  ultimately show ?thesis using ret by simp
qed

text \<open>The same program interrupted and later resumed from the structure at \<open>0x2000\<close>.\<close>

definition demo_saved :: memory where
  "demo_saved a = (if a = 0x5005 then 0x20 else if unat (a - 0x2000) < 48
     then [1, 0, 0, 0, 2, 0, 0, 0, 3, 0, 0, 0, 4, 0, 0, 0, 5, 0, 0, 0, 6, 0, 0, 0, 64, 0, 0, 0, 8, 0, 0, 0, 9, 0, 0, 0, 10, 0, 0, 0,
       11, 0, 0, 0, 12, 0, 0, 0] ! unat (a - 0x2000) else 0)"

theorem context_restored_witness:
  "registers.truncate (task_return_asm 0x300 (demo_user\<lparr>r_esp := 0x5000, k_mem := demo_saved\<rparr>)) = registers.truncate demo_user"
proof -
  let ?s = "fresh_kernel\<lparr>curr_task := 0x500\<rparr>" and ?c = "demo_user\<lparr>r_esp := 0x5000, k_mem := demo_saved\<rparr>"
  note fr = interrupt_call_frame [of "0x600000" "0x20" "0x10" "0x100" demo_user]
  obtain s' where s': "task_save_current_state (user_frame 0x5FFFEC demo_user) ?s = Ret () s'"
    by (simp add: task_save_current_state_def)
  then have r: "regs (tasks s' 0x500) = registers.truncate demo_user"
    by (auto simp: task_save_current_state_def upd_task_def user_frame_def registers.truncate_def)
  have p: "stk 1 ?c = 0x2000" by (simp add: stk_def load32_def demo_saved_def demo_user_def)
  have "regs_at demo_saved 0x2000 = registers.truncate demo_user"
    by (simp add: regs_at_def load32_def demo_saved_def demo_user_def registers.truncate_def)
  then show ?thesis
    using context_restored [of "0x600000" "0x20" "0x10" "0x100" demo_user ?s s' ?c "0x300"] p r s' fr by simp
qed

end
