(* ===== verification/Ports.thy ===== *)
theory Ports
  imports Trap
begin

text \<open>
  The assembly routines around port input and output (\<^verbatim>\<open>src/src/io/io.asm\<close>), the entry of the kernel (\<^verbatim>\<open>src/src/kernel.asm\<close>)
  and the loading of segment registers, on the processor state of \<open>Trap\<close>. What an input port delivers is an argument; what
  is written to ports is returned in order.
\<close>

section \<open>Port routines\<close>

type_synonym port_writes = "(u16 \<times> u32) list"

definition enter :: "kcpu \<Rightarrow> kcpu" where
  "enter c = (let c = kpush (r_ebp c) c in c\<lparr>r_ebp := r_esp c\<rparr>)"

definition leave_ret :: "kcpu \<Rightarrow> kcpu" where
  "leave_ret c =
     (let c = c\<lparr>r_ebp := stk 0 c, r_esp := r_esp c + 4\<rparr> in c\<lparr>r_eip := stk 0 c, r_esp := r_esp c + 4\<rparr>)"

text \<open>\<^verbatim>\<open>al\<close> and \<^verbatim>\<open>ax\<close> are the low bits of \<^verbatim>\<open>eax\<close>.\<close>

definition set_al :: "u8 \<Rightarrow> kcpu \<Rightarrow> kcpu" where
  "set_al v c = c\<lparr>r_eax := push_bit 8 (drop_bit 8 (r_eax c)) OR ucast v\<rparr>"

definition set_ax :: "u16 \<Rightarrow> kcpu \<Rightarrow> kcpu" where
  "set_ax v c = c\<lparr>r_eax := push_bit 16 (drop_bit 16 (r_eax c)) OR ucast v\<rparr>"

definition port_io_input_byte :: "(u16 \<Rightarrow> u8) \<Rightarrow> kcpu \<Rightarrow> kcpu" where
  "port_io_input_byte inb c =
     (let c = enter c; c = c\<lparr>r_edx := load32 (k_mem c) (r_ebp c + 8), r_eax := 0\<rparr>
      in leave_ret (set_al (inb (ucast (r_edx c))) c))"

definition port_io_input_word :: "(u16 \<Rightarrow> u16) \<Rightarrow> kcpu \<Rightarrow> kcpu" where
  "port_io_input_word inw c =
     (let c = enter c; c = c\<lparr>r_edx := load32 (k_mem c) (r_ebp c + 8), r_eax := 0\<rparr>
      in leave_ret (set_ax (inw (ucast (r_edx c))) c))"

definition port_io_out_byte :: "kcpu \<Rightarrow> port_writes \<times> kcpu" where
  "port_io_out_byte c =
     (let c = enter c; c = c\<lparr>r_edx := load32 (k_mem c) (r_ebp c + 8), r_eax := load32 (k_mem c) (r_ebp c + 12)\<rparr>
      in ([(ucast (r_edx c), take_bit 8 (r_eax c))], leave_ret c))"

definition port_io_out_word :: "kcpu \<Rightarrow> port_writes \<times> kcpu" where
  "port_io_out_word c =
     (let c = enter c; c = c\<lparr>r_edx := load32 (k_mem c) (r_ebp c + 8), r_eax := load32 (k_mem c) (r_ebp c + 12)\<rparr>
      in ([(ucast (r_edx c), take_bit 16 (r_eax c))], leave_ret c))"

section \<open>Segment registers and kernel entry\<close>

definition data_segments :: "u16 \<Rightarrow> kcpu \<Rightarrow> kcpu" where
  "data_segments g c = (set_ax g c)\<lparr>k_ds := g, k_es := g, k_fs := g, k_gs := g\<rparr>"

definition ret_near :: "kcpu \<Rightarrow> kcpu" where
  "ret_near c = c\<lparr>r_eip := stk 0 c, r_esp := r_esp c + 4\<rparr>"

definition user_registers :: "kcpu \<Rightarrow> kcpu" where
  "user_registers c = ret_near (data_segments 0x23 c)"

definition kernel_registers :: "kcpu \<Rightarrow> kcpu" where
  "kernel_registers c = ret_near (data_segments 0x10 c)"

text \<open>\<^verbatim>\<open>_start\<close> up to the call of \<^verbatim>\<open>kernel_main\<close>: segments and stack, the A20 line, the interrupt controller. The writes are of
  \<^verbatim>\<open>al\<close>.\<close>

definition kernel_start :: "(u16 \<Rightarrow> u8) \<Rightarrow> kcpu \<Rightarrow> port_writes \<times> kcpu" where
  "kernel_start inb c =
     (let c = (data_segments 0x10 c)\<lparr>r_ss := 0x10, r_ebp := 0x00200000\<rparr>; c = c\<lparr>r_esp := r_ebp c\<rparr>;
          c = set_al (inb 0x92 OR 2) c; w1 = (0x92, take_bit 8 (r_eax c));
          c = set_al 0x11 c; w2 = (0x20, take_bit 8 (r_eax c));
          c = set_al 0x20 c; w3 = (0x21, take_bit 8 (r_eax c));
          c = set_al 0x01 c; w4 = (0x21, take_bit 8 (r_eax c))
      in ([w1, w2, w3, w4], c))"

section \<open>Behaviour\<close>

lemma take_bit_set_al: "take_bit 8 (r_eax (set_al v c)) = ucast v"
  by (rule bit_word_eqI) (auto simp: set_al_def bit_simps dest: bit_imp_le_length)

text \<open>A routine finds its arguments above the return address, and returns with \<^verbatim>\<open>ebp\<close> and the stack pointer restored.\<close>

lemma enter_frame:
  assumes "4 \<le> unat (r_esp c)" and "unat (r_esp c) + 12 \<le> 2 ^ 32"
  shows "r_esp (enter c) = r_esp c - 4" and "r_ebp (enter c) = r_esp c - 4"
    and "load32 (k_mem (enter c)) (r_esp c - 4) = r_ebp c"
    and "k \<le> 8 \<Longrightarrow> load32 (k_mem (enter c)) (r_esp c + of_nat k) = load32 (k_mem c) (r_esp c + of_nat k)"
proof -
  show "r_esp (enter c) = r_esp c - 4" "r_ebp (enter c) = r_esp c - 4" "load32 (k_mem (enter c)) (r_esp c - 4) = r_ebp c"
    by (simp_all add: enter_def load32_store32_same Let_def)
  assume k: "k \<le> 8"
  have "unat (r_esp c + of_nat k) = unat (r_esp c) + k" using k assms(2) by (intro unat_offset) simp
  then have "load32 (k_mem (fold kpush [r_ebp c] c)) (r_esp c + of_nat k) = load32 (k_mem c) (r_esp c + of_nat k)"
    using k assms by (intro pushes_load [where n = 4]) auto
  then show "load32 (k_mem (enter c)) (r_esp c + of_nat k) = load32 (k_mem c) (r_esp c + of_nat k)"
    by (simp add: enter_def Let_def)
qed

lemma input_byte_result:
  fixes inb :: "u16 \<Rightarrow> u8"
  assumes "4 \<le> unat (r_esp c)" and "unat (r_esp c) + 12 \<le> 2 ^ 32"
  defines "t \<equiv> port_io_input_byte inb c"
  shows "r_eax t = ucast (inb (ucast (stk 1 c)))" and "r_ebp t = r_ebp c" and "r_esp t = r_esp c + 4" and "r_eip t = stk 0 c"
  using enter_frame(1-3) [OF assms(1,2)] enter_frame(4) [OF assms(1,2), of 0] enter_frame(4) [OF assms(1,2), of 4]
  by (simp_all add: t_def port_io_input_byte_def leave_ret_def set_al_def stk_def add.commute [of _ "r_esp c"] Let_def)

lemma out_byte_result:
  assumes "4 \<le> unat (r_esp c)" and "unat (r_esp c) + 12 \<le> 2 ^ 32"
  shows "fst (port_io_out_byte c) = [(ucast (stk 1 c), take_bit 8 (stk 2 c))]" and "r_ebp (snd (port_io_out_byte c)) = r_ebp c"
    and "r_esp (snd (port_io_out_byte c)) = r_esp c + 4" and "r_eip (snd (port_io_out_byte c)) = stk 0 c"
  using enter_frame(1-3) [OF assms(1,2)] enter_frame(4) [OF assms(1,2), of 0] enter_frame(4) [OF assms(1,2), of 4]
    enter_frame(4) [OF assms(1,2), of 8]
  by (simp_all add: port_io_out_byte_def leave_ret_def stk_def add.commute [of _ "r_esp c"] Let_def)

text \<open>The controller is told to raise IRQ 0 as interrupt 0x20, where \<open>idt_init\<close> registers the clock.\<close>

lemma kernel_start_ports:
  "fst (kernel_start inb c) = [(0x92, ucast (inb 0x92 OR 2)), (0x20, 0x11), (0x21, 0x20), (0x21, 0x01)]"
  "r_esp (snd (kernel_start inb c)) = 0x200000" "k_ds (snd (kernel_start inb c)) = 0x10"
  by (simp_all add: kernel_start_def Let_def take_bit_set_al) (simp_all add: set_al_def data_segments_def)

end
