(* ===== verification/Elf_Props.thy ===== *)
theory Elf_Props
  imports Elf
begin

text \<open>
  The scan of the program headers of an ELF file against a description by least and greatest addresses.
\<close>

definition load_headers :: "memory \<Rightarrow> addr \<Rightarrow> addr list" where
  "load_headers m img =
     filter (\<lambda>ph. p_type m ph = PT_LOAD) (map (elf_program_header m img) [0..<unat (e_phnum m img)])"

definition seg_end :: "memory \<Rightarrow> addr \<Rightarrow> addr" where
  "seg_end m ph = p_vaddr m ph + p_filesz m ph"

text \<open>The extent of the loadable segments: the lowest start and the highest end, with the place in the file of the
  last segment that has them.\<close>

definition elf_extent :: "memory \<Rightarrow> addr \<Rightarrow> addr list \<Rightarrow> elf_file" where
  "elf_extent m img phs =
     (if phs = [] then null_elf\<lparr>elf_memory_ptr := img\<rparr>
      else let lo = Min (p_vaddr m ` set phs); hi = Max (seg_end m ` set phs);
               first = last (filter (\<lambda>ph. p_vaddr m ph = lo) phs); final = last (filter (\<lambda>ph. seg_end m ph = hi) phs)
           in \<lparr>elf_memory_ptr = img, virtual_base_address = lo, virtual_end_address = hi,
               physical_base_address = img + p_offset m first,
               physical_end_address = img + p_offset m final + p_filesz m final\<rparr>)"

lemma extent_snoc:
  assumes "\<forall>ph \<in> set (phs @ [ph]). p_vaddr m ph \<noteq> 0 \<and> seg_end m ph \<noteq> 0"
  shows "elf_process_phdr_pt_load m ph (elf_extent m img phs) = (0, elf_extent m img (phs @ [ph]))"
proof (cases "phs = []")
  case True
  then show ?thesis by (simp add: elf_process_phdr_pt_load_def elf_extent_def null_elf_def elf_memory_def seg_end_def Let_def)
next
  case False
  let ?lo = "Min (p_vaddr m ` set phs)" and ?hi = "Max (seg_end m ` set phs)"
  have ne: "p_vaddr m ` set phs \<noteq> {}" "seg_end m ` set phs \<noteq> {}" using False by simp_all
  have "?lo \<in> p_vaddr m ` set phs" "?hi \<in> seg_end m ` set phs" using ne by (intro Min_in Max_in; simp)+
  then have nz: "?lo \<noteq> 0" "?hi \<noteq> 0" using assms by auto
  have lo: "Min (p_vaddr m ` set (phs @ [ph])) = (if p_vaddr m ph \<le> ?lo then p_vaddr m ph else ?lo)"
    using ne(1) by (simp add: min_def)
  have "Max (seg_end m ` set (phs @ [ph])) = max ?hi (seg_end m ph)" using ne(2) by (simp add: max.commute)
  then have hi: "Max (seg_end m ` set (phs @ [ph])) = (if ?hi \<le> seg_end m ph then seg_end m ph else ?hi)"
    by (simp only: max_def)
  show ?thesis
    using False nz unfolding elf_process_phdr_pt_load_def elf_extent_def Let_def lo hi
    by (simp add: elf_memory_def seg_end_def)
qed

lemma fold_extent:
  assumes "\<forall>ph \<in> set phs. p_vaddr m ph \<noteq> 0 \<and> seg_end m ph \<noteq> 0"
  shows "fold (\<lambda>ph f. snd (elf_process_phdr_pt_load m ph f)) phs (null_elf\<lparr>elf_memory_ptr := img\<rparr>) = elf_extent m img phs"
  using assms
proof (induction phs rule: rev_induct)
  case Nil
  then show ?case by (simp add: elf_extent_def)
next
  case (snoc ph phs)
  then show ?case by (simp add: extent_snoc)
qed

lemma pheaders_loop_fold:
  assumes "i \<le> unat (e_phnum m h)"
  shows "elf_pheaders_loop m h i 0 f =
    (0, fold (\<lambda>ph f. snd (elf_process_phdr_pt_load m ph f))
          (filter (\<lambda>ph. p_type m ph = PT_LOAD) (map (elf_program_header m h) [i..<unat (e_phnum m h)])) f)"
  using assms
proof (induction "unat (e_phnum m h) - i" arbitrary: i f)
  case 0
  then show ?case by (subst elf_pheaders_loop.simps) simp
next
  case (Suc d)
  let ?ph = "elf_program_header m h i"
  have i: "i < unat (e_phnum m h)" using Suc.hyps(2) by simp
  have "fst (elf_process_pheader m ?ph f) = 0" for f by (simp add: elf_process_pheader_def elf_process_phdr_pt_load_def Let_def)
  then have "elf_pheaders_loop m h i 0 f = elf_pheaders_loop m h (Suc i) 0 (snd (elf_process_pheader m ?ph f))"
    using i by (subst elf_pheaders_loop.simps) (simp add: case_prod_beta)
  then show ?case
    using Suc.hyps(1) [of "Suc i"] Suc.hyps(2) i by (simp add: upt_conv_Cons elf_process_pheader_def)
qed

lemma valid_signature_bytes: "elf_valid_signature m h \<longleftrightarrow> read_bytes m h 4 = [0x7f, 69, 76, 70]"
  by (simp add: elf_valid_signature_def elf_signature_def numeral_eq_Suc)

text \<open>C17: processing a loaded file accepts exactly the files with the right signature, class, encoding and a program header
  table; the extent it records for an accepted one is that of the reference definition, provided no loadable segment
  starts or ends at address 0, which the scan takes for not yet set.\<close>

theorem elf_scan_extent:
  assumes "\<forall>ph \<in> set (load_headers m img). p_vaddr m ph \<noteq> 0 \<and> seg_end m ph \<noteq> 0"
  shows "elf_process_loaded m (null_elf\<lparr>elf_memory_ptr := img\<rparr>) =
    (if read_bytes m img 4 = [0x7f, 69, 76, 70] \<and> e_ident m img 4 \<in> {0, 1} \<and> e_ident m img 5 \<in> {0, 1} \<and> e_phoff m img \<noteq> 0
     then (STATUS_OK, elf_extent m img (load_headers m img))
     else (- STATUS_INVALID_EXEC_FORMAT, null_elf\<lparr>elf_memory_ptr := img\<rparr>))"
proof -
  have "elf_process_pheaders m (null_elf\<lparr>elf_memory_ptr := img\<rparr>) = (0, elf_extent m img (load_headers m img))"
    using pheaders_loop_fold [of 0 m img] fold_extent [OF assms]
    by (simp add: elf_process_pheaders_def elf_header_def load_headers_def)
  then show ?thesis
    by (auto simp: elf_process_loaded_def elf_validate_loaded_def elf_header_def valid_signature_bytes
        elf_valid_class_def elf_valid_encoding_def elf_has_program_header_def)
qed

text \<open>A file loaded at \<open>0x1000\<close> with two loadable segments, the higher one first.\<close>

definition demo_elf :: memory where
  "demo_elf a = (if unat (a - 0x1000) < 116 then
    [127, 69, 76, 70, 1, 1, 0, 0, 0, 0, 0, 0, 0, 0, 0, 0, 2, 0, 3, 0, 1, 0, 0, 0, 0, 0, 64, 8, 52, 0, 0, 0, 0,
     0, 0, 0, 0, 0, 0, 0, 52, 0, 32, 0, 2, 0, 0, 0, 0, 0, 0, 0, 1, 0, 0, 0, 0, 32, 0, 0, 0, 32, 64, 8, 0, 0,
     0, 0, 16, 0, 0, 0, 16, 0, 0, 0, 6, 0, 0, 0, 0, 0, 0, 0, 1, 0, 0, 0, 0, 16, 0, 0, 0, 0, 64, 8, 0, 0, 0, 0,
     32, 0, 0, 0, 32, 0, 0, 0, 5, 0, 0, 0, 0, 0, 0, 0] ! unat (a - 0x1000) else 0)"

lemma demo_header:
  "read_bytes demo_elf 0x1000 4 = [0x7f, 69, 76, 70]" "e_ident demo_elf 0x1000 4 = 1" "e_ident demo_elf 0x1000 5 = 1"
  "e_phoff demo_elf 0x1000 = 52" "e_phnum demo_elf 0x1000 = 2"
  by (simp_all add: demo_elf_def e_ident_def e_phoff_def e_phnum_def load32_def load16_def read_bytes_def upt_rec)

lemma demo_headers:
  "load_headers demo_elf 0x1000 = [0x1034, 0x1054]"
proof -
  have "[0..<2] = [0, Suc 0]" by (simp add: upt_rec)
  then show ?thesis
    by (simp add: load_headers_def demo_header elf_program_header_def elf_pheader_def p_type_def load32_def demo_elf_def)
qed

lemma demo_segments:
  "p_vaddr demo_elf 0x1034 = 0x8402000" "p_vaddr demo_elf 0x1054 = 0x8400000"
  "p_filesz demo_elf 0x1034 = 16" "p_filesz demo_elf 0x1054 = 32"
  "p_offset demo_elf 0x1034 = 0x2000" "p_offset demo_elf 0x1054 = 0x1000"
  by (simp_all add: p_vaddr_def p_filesz_def p_offset_def load32_def demo_elf_def)

theorem elf_scan_extent_witness:
  "elf_process_loaded demo_elf (null_elf\<lparr>elf_memory_ptr := 0x1000\<rparr>) =
     (STATUS_OK, \<lparr>elf_memory_ptr = 0x1000, virtual_base_address = 0x8400000, virtual_end_address = 0x8402010,
        physical_base_address = 0x2000, physical_end_address = 0x3010\<rparr>)"
  using elf_scan_extent [of demo_elf "0x1000"]
  by (simp add: demo_header demo_headers demo_segments elf_extent_def seg_end_def)

end
