(* ===== verification/Fat16_Props.thy ===== *)
theory Fat16_Props
  imports Arguments
begin

text \<open>
  Reading a file: the bytes that \<^verbatim>\<open>kfread\<close> delivers through the file layer, the FAT16 driver, the disk stream and the disk,
  for reads that stay inside the first cluster of the file (64 KB with the parameters of the boot sector).
\<close>

section \<open>Blocks of memory\<close>

text \<open>An address inside a live allocation.\<close>

definition live_byte :: "'a kheap_st_scheme \<Rightarrow> addr \<Rightarrow> bool" where
  "live_byte s a \<longleftrightarrow> (\<exists>(q, k) \<in> live s. in_block a q (4096 * k))"

section \<open>One cluster\<close>

text \<open>The whole effect of \<^verbatim>\<open>disk_stream_read\<close> on live memory.\<close>

definition delivers :: "nat \<Rightarrow> addr \<Rightarrow> nat \<Rightarrow> 'a disk_st_scheme \<Rightarrow> 'a disk_st_scheme \<Rightarrow> bool" where
  "delivers pos out n s t \<longleftrightarrow>
     kheap_ok t \<and> live t = live s \<and> kheap_num_free_blocks t = kheap_num_free_blocks s \<and> ata_data t = ata_data s \<and>
     disk_sector_size t = disk_sector_size s \<and> disk_fs_private t = disk_fs_private s \<and>
     (\<forall>st. stream_disk (streams t st) = stream_disk (streams s st)) \<and>
     (\<forall>a. live_byte s a \<longrightarrow> mem t a = (if in_block a out n then disk_byte (ata_data s) (pos + unat (a - out)) else mem s a))"

lemma delivers_stream_read:
  assumes "kheap_ok s" and "kheap_num_free_blocks s \<noteq> 0" and "stream_disk (streams s st) = TheDisk"
    and "disk_sector_size s = 512" and "unat (byte_offset (streams s st)) + unat n < 2 ^ 32"
    and "\<And>a. in_block a out (unat n) \<Longrightarrow> live_byte s a"
  shows "\<exists>t. disk_stream_read st out n s = (0, t) \<and> delivers (unat (byte_offset (streams s st))) out (unat n) s t"
proof -
  let ?off = "byte_offset (streams s st)"
  let ?bs = "disk_slice (ata_data s) (unat ?off) (unat n)"
  have "out_apart (At out) (unat n) (fst (kzalloc 512 s))"
    by (rule live_apart [OF assms(1,2)]) (use assms(6) in \<open>auto simp: live_byte_def\<close>)
  then obtain t where t: "disk_stream_read_to st (At out) n s = (0, At (out + of_nat (unat n)), t)" "kheap_ok t" "live t = live s"
    "ata_data t = ata_data s"
    "disk_sector_size t = 512" "streams t = (streams s)(st := (streams s st)\<lparr>byte_offset := ?off + n\<rparr>)"
    "kheap_num_free_blocks t = kheap_num_free_blocks s" "disk_fs_private t = disk_fs_private s"
    "\<And>a. \<not> in_block a (fst (kzalloc 512 s)) 512 \<Longrightarrow> mem t a = put_bytes (mem s) out ?bs a"
    using stream_read_to [OF assms(1-5), of "At out"] by auto
  have put: "put_bytes (mem s) out ?bs = (\<lambda>a. if in_block a out (unat n) then ?bs ! unat (a - out) else mem s a)"
    using put_bytes_eq [of ?bs "mem s" out] by simp
  have "mem t a =
      (if in_block a out (unat n) then disk_byte (ata_data s) (unat ?off + unat (a - out)) else mem s a)" if "live_byte s a" for a
  proof -
    have "\<not> in_block a (fst (kzalloc 512 s)) 512"
      using that live_outside_new [OF assms(1,2)] by (auto simp: live_byte_def)
    from t(9) [OF this] show ?thesis unfolding put by (auto simp: in_block_def disk_slice_def)
  qed
  then have "delivers (unat ?off) out (unat n) s t"
    unfolding delivers_def using t(2-8) assms(4) by simp
  then show ?thesis using t(1) by (simp add: disk_stream_read_def)
qed

text \<open>The first byte of a cluster on the disk.\<close>

definition cluster_pos :: "addr \<Rightarrow> nat \<Rightarrow> 'a kheap_st_scheme \<Rightarrow> nat" where
  "cluster_pos p c s = 512 * (unat (dir_end_sector_pos (root_dir p) s) + (c - 2) * unat (sectors_per_cluster p s))"

lemma cluster_at_small_offset:
  assumes "0 \<le> offset" and "offset < bytes_per_cluster s"
  shows "fat16_get_cluster_at_byte_offset_from_start c offset s = (c, s)"
proof -
  let ?b = "bytes_per_cluster s"
  have "?b \<noteq> 0" using assms by linarith
  then have "(offset + ?b) div ?b = 1" using assms by (simp add: div_add_self2 div_pos_pos_trivial)
  then have "c_div (offset + 1 + ?b - 1) ?b = 1" using assms by (simp add: c_div_def)
  then show ?thesis
    unfolding fat16_get_cluster_at_byte_offset_from_start_def Let_def by (subst fat16_cluster_loop.simps) simp
qed

lemma cluster_byte_pos:
  assumes "2 \<le> c"
  shows "fat16_cluster_to_sector p (of_nat c) s * 512 + of_nat off = of_nat (cluster_pos p c s + off)"
proof -
  obtain d where "c = d + 2" using assms le_Suc_ex [of 2 c] by (auto simp: add.commute)
  then show ?thesis by (simp add: fat16_cluster_to_sector_def cluster_pos_def algebra_simps)
qed

lemma read_in_cluster:
  assumes "kheap_ok s" and "kheap_num_free_blocks s \<noteq> 0" and "disk_sector_size s = 512"
    and "stream_disk (streams s (cluster_stream (disk_fs_private s) s)) = TheDisk" and "2 \<le> c"
    and "0 < n" and "off + n \<le> 512 * unat (sectors_per_cluster (disk_fs_private s) s)"
    and "cluster_pos (disk_fs_private s) c s + off + n < 2 ^ 32" and "\<And>a. in_block a out n \<Longrightarrow> live_byte s a"
  shows "\<exists>t. fat16_read_file_data_from_cluster (int c) (int off) (int n) out s = Some (0, t) \<and>
    delivers (cluster_pos (disk_fs_private s) c s + off) out n s t"
proof -
  let ?p = "disk_fs_private s" and ?b = "bytes_per_cluster s"
  let ?st = "cluster_stream ?p s" and ?pos = "cluster_pos ?p c s + off"
  have b: "?b = int (512 * unat (sectors_per_cluster ?p s))" using assms(3) by (simp add: bytes_per_cluster_def)
  then have lt: "int off < ?b" "int n \<le> ?b" "0 < ?b" using assms(6,7) by linarith+
  have rem: "c_rem (int off) ?b = int off"
    using lt by (simp add: c_rem_def c_div_def)
  define u where "u = snd (disk_stream_seek ?st (of_nat ?pos) s)"
  have pos: "fat16_cluster_to_sector ?p (of_nat c) s * 512 + of_nat off = of_nat ?pos" "unat (of_nat ?pos :: u32) = ?pos"
    using cluster_byte_pos [OF assms(5), of ?p s off] unat_of_nat32 [of ?pos] assms(8) by simp_all
  have u: "kheap_ok u" "live u = live s" "kheap_num_free_blocks u = kheap_num_free_blocks s" "disk_sector_size u = 512"
    "stream_disk (streams u x) = stream_disk (streams s x)" "byte_offset (streams u ?st) = of_nat ?pos"
    "ata_data u = ata_data s" "disk_fs_private u = ?p" "mem u = mem s" for x
    using assms(1,3) by (simp_all add: u_def disk_stream_seek_def kheap_num_free_blocks_def)
  have n: "unat (of_nat n :: u32) = n" using assms(8) by (intro unat_of_nat32) simp
  have "live_byte u a" if "in_block a out (unat (of_nat n :: u32))" for a
    using assms(9) that u(2) unfolding n by (simp add: live_byte_def)
  then obtain t where t: "disk_stream_read ?st out (of_nat n) u = (0, t)" "delivers ?pos out n u t"
    using delivers_stream_read [of u ?st "of_nat n" out] u assms(2,4,8) pos(2) n by auto
  have seek: "disk_stream_seek ?st (of_nat ?pos) s = (0, u)" by (simp add: u_def disk_stream_seek_def)
  have stop: "fat16_read_loop ?b ?st (int c) x 0 y t = Some (0, t)" for x y by (subst fat16_read_loop.simps) simp
  have "fat16_read_loop ?b ?st (int c) (int off) (int n) out s = Some (0, t)"
    using fat16_read_loop.simps [of ?b ?st "int c" "int off" "int n" out s] lt assms(3,6) t(1) pos(1) seek stop
    by (simp add: cluster_at_small_offset rem)
  moreover have "delivers ?pos out n s t" using t(2) u assms(3) by (simp add: delivers_def live_byte_def)
  ultimately show ?thesis by (simp add: fat16_read_file_data_from_cluster_def)
qed

section \<open>Several members\<close>

lemma delivers_trans:
  assumes "delivers pos out x s t" and "delivers (pos + x) (out + of_nat x) y t u" and "x + y \<le> 2 ^ 32"
  shows "delivers pos out (x + y) s u"
proof -
  have "mem u a = (if in_block a out (x + y) then disk_byte (ata_data s) (pos + unat (a - out)) else mem s a)"
    if "live_byte s a" for a
  proof -
    have "live_byte t a" using assms(1) that by (simp add: delivers_def live_byte_def)
    then have "mem u a = (if in_block a (out + of_nat x) y then disk_byte (ata_data s) (pos + x + unat (a - (out + of_nat x)))
        else mem t a)" and "mem t a = (if in_block a out x then disk_byte (ata_data s) (pos + unat (a - out)) else mem s a)"
      using assms(1,2) that by (simp_all add: delivers_def)
    then show ?thesis using in_block_split [OF assms(3), of a out] by (auto simp: add.assoc)
  qed
  then show ?thesis using assms(1,2) by (simp add: delivers_def)
qed

text \<open>The driver's state and a directory entry \<open>e\<close> are ready for reading: the streams and the disk are set up, the entry
  has a first cluster, and the high half of the cluster number, which FAT16 does not have, is 0.\<close>

definition file_ready :: "addr \<Rightarrow> 'a disk_st_scheme \<Rightarrow> bool" where
  "file_ready e s \<longleftrightarrow>
     kheap_ok s \<and> kheap_num_free_blocks s \<noteq> 0 \<and> disk_sector_size s = 512 \<and>
     stream_disk (streams s (cluster_stream (disk_fs_private s) s)) = TheDisk \<and>
     entry_high_cluster (mem s) e = 0 \<and> 2 \<le> unat (entry_low_cluster (mem s) e)"

text \<open>Where the contents of the file start on the disk, and that \<open>n\<close> bytes from \<open>off\<close> on lie in the first cluster.\<close>

definition file_pos :: "addr \<Rightarrow> 'a disk_st_scheme \<Rightarrow> nat" where
  "file_pos e s = cluster_pos (disk_fs_private s) (unat (entry_low_cluster (mem s) e)) s"

definition in_first_cluster :: "addr \<Rightarrow> nat \<Rightarrow> nat \<Rightarrow> 'a disk_st_scheme \<Rightarrow> bool" where
  "in_first_cluster e off n s \<longleftrightarrow>
     off + n \<le> 512 * unat (sectors_per_cluster (disk_fs_private s) s) \<and> file_pos e s + off + n < 2 ^ 32"

text \<open>The driver's private structure and the directory entry are allocated and outside the output buffer.\<close>

definition meta_safe :: "addr \<Rightarrow> addr \<Rightarrow> nat \<Rightarrow> 'a disk_st_scheme \<Rightarrow> bool" where
  "meta_safe e out n s \<longleftrightarrow>
     (\<forall>a. in_block a (disk_fs_private s) 92 \<or> in_block a e 32 \<longrightarrow> live_byte s a \<and> \<not> in_block a out n)"

lemma load_in_block:
  assumes "\<And>a. in_block a p n \<Longrightarrow> m' a = m a"
  shows "j + 4 \<le> n \<Longrightarrow> j + 4 \<le> 2 ^ 32 \<Longrightarrow> load32 m' (p + of_nat j) = load32 m (p + of_nat j)"
    and "j + 2 \<le> n \<Longrightarrow> j + 2 \<le> 2 ^ 32 \<Longrightarrow> load16 m' (p + of_nat j) = load16 m (p + of_nat j)"
    and "j < n \<Longrightarrow> j < 2 ^ 32 \<Longrightarrow> m' (p + of_nat j) = m (p + of_nat j)"
proof -
  have b: "m' (p + of_nat j + of_nat i) = m (p + of_nat j + of_nat i)" if "j + i < n" "j + i < 2 ^ 32" for i
    using assms [of "p + of_nat (j + i)"] in_block_offset [of "j + i" p n] that by (simp add: add.assoc)
  show "j + 4 \<le> n \<Longrightarrow> j + 4 \<le> 2 ^ 32 \<Longrightarrow> load32 m' (p + of_nat j) = load32 m (p + of_nat j)"
    by (rule load32_cong) (use b in simp)
  show "j + 2 \<le> n \<Longrightarrow> j + 2 \<le> 2 ^ 32 \<Longrightarrow> load16 m' (p + of_nat j) = load16 m (p + of_nat j)"
    using b [of 0] b [of 1] by (simp add: load16_def)
  show "j < n \<Longrightarrow> j < 2 ^ 32 \<Longrightarrow> m' (p + of_nat j) = m (p + of_nat j)" using b [of 0] by simp
qed

lemma delivers_meta:
  assumes "delivers pos out n s t" and "meta_safe e out n s"
  shows "sectors_per_cluster (disk_fs_private t) t = sectors_per_cluster (disk_fs_private s) s"
    and "cluster_stream (disk_fs_private t) t = cluster_stream (disk_fs_private s) s"
    and "dir_end_sector_pos (root_dir (disk_fs_private t)) t = dir_end_sector_pos (root_dir (disk_fs_private s)) s"
    and "entry_high_cluster (mem t) e = entry_high_cluster (mem s) e"
    and "entry_low_cluster (mem t) e = entry_low_cluster (mem s) e"
proof -
  have p: "disk_fs_private t = disk_fs_private s" using assms(1) by (simp add: delivers_def)
  have priv: "mem t a = mem s a" if "in_block a (disk_fs_private s) 92" for a
    using assms that by (simp add: delivers_def meta_safe_def)
  have entry: "mem t a = mem s a" if "in_block a e 32" for a
    using assms that by (simp add: delivers_def meta_safe_def)
  note l = load_in_block [where p = "disk_fs_private s" and n = 92 and m' = "mem t" and m = "mem s", OF priv]
  note k = load_in_block [where p = e and n = 32 and m' = "mem t" and m = "mem s", OF entry]
  show "sectors_per_cluster (disk_fs_private t) t = sectors_per_cluster (disk_fs_private s) s"
    using l(3) [of 13] by (simp add: sectors_per_cluster_def p)
  show "cluster_stream (disk_fs_private t) t = cluster_stream (disk_fs_private s) s"
    using l(1) [of 80] by (simp add: cluster_stream_def p pt_get_def pte_addr_def)
  show "dir_end_sector_pos (root_dir (disk_fs_private t)) t = dir_end_sector_pos (root_dir (disk_fs_private s)) s"
    using l(1) [of 76] by (simp add: add.commute dir_end_sector_pos_def root_dir_def p pt_get_def pte_addr_def)
  show "entry_high_cluster (mem t) e = entry_high_cluster (mem s) e" "entry_low_cluster (mem t) e = entry_low_cluster (mem s) e"
    using k(2) [of 20] k(2) [of 26] by (simp_all add: entry_high_cluster_def entry_low_cluster_def)
qed

lemma delivers_ready:
  assumes "delivers pos out n s t" and "meta_safe e out n s" and "file_ready e s"
  shows "file_ready e t" and "file_pos e t = file_pos e s" and "in_first_cluster e x y t = in_first_cluster e x y s"
proof -
  note m = delivers_meta [OF assms(1,2)]
  show "file_ready e t" using assms(1,3) m by (simp add: file_ready_def delivers_def)
  show "file_pos e t = file_pos e s" using m by (simp add: file_pos_def cluster_pos_def)
  then show "in_first_cluster e x y t = in_first_cluster e x y s" using m by (simp add: in_first_cluster_def)
qed

lemma sint_small:
  assumes "unat (w :: u32) < 2 ^ 31"
  shows "sint w = int (unat w)"
proof -
  have "int (unat w) < int (2 ^ 31)" using assms by (simp only: of_nat_less_iff)
  then have "uint w < 2 ^ 31" by simp
  moreover have "0 \<le> uint w" by simp
  then have "- 2147483648 \<le> uint w" by linarith
  ultimately show ?thesis using signed_take_bit_int_eq_self [of 31 "uint w"] by (simp add: sint_uint)
qed

lemma sint_ucast16: "sint (ucast (w :: u16) :: u32) = int (unat w)"
proof -
  have b: "unat w < 65536" using unsigned_less [of w, where 'a = nat] by simp
  have "unat w < 4294967296" using b by linarith
  then have u: "unat (ucast w :: u32) = unat w" by (simp add: unsigned_ucast_eq take_bit_nat_eq_self)
  have "unat w < 2147483648" using b by linarith
  then show ?thesis using sint_small [of "ucast w"] by (simp add: u)
qed

lemma first_cluster_ready:
  assumes "file_ready e s"
  shows "fat16_get_first_cluster e s = (ucast (entry_low_cluster (mem s) e), s)"
  using assms by (simp add: file_ready_def fat16_get_first_cluster_def)

lemma meta_safe_split:
  assumes "meta_safe e out (x + y) s" and "x + y \<le> 2 ^ 32"
  shows "meta_safe e out x s" and "delivers pos out x s t \<Longrightarrow> meta_safe e (out + of_nat x) y t"
  using assms(1) in_block_split(1) [OF assms(2)] by (auto simp: meta_safe_def delivers_def live_byte_def)

lemma read_members:
  assumes "file_ready e s" and "0 < unat sz" and "unat sz < 2 ^ 31" and "in_first_cluster e off (unat sz * m) s"
    and "meta_safe e out (unat sz * m) s" and "\<forall>a. in_block a out (unat sz * m) \<longrightarrow> live_byte s a"
  shows "\<exists>t. fat16_read_members e sz i (i + m) (int off) out s = Some (int (i + m), int (off + unat sz * m), t) \<and>
    delivers (file_pos e s + off) out (unat sz * m) s t"
  using assms
proof (induction m arbitrary: i off out s)
  case 0
  have "fat16_read_members e sz i (i + 0) (int off) out s = Some (int (i + 0), int off, s)"
    by (subst fat16_read_members.simps) simp
  then show ?case using 0(1) by (auto simp: delivers_def file_ready_def in_block_def)
next
  case (Suc m)
  let ?k = "unat sz" and ?c = "unat (entry_low_cluster (mem s) e)"
  have sum: "?k * Suc m = ?k + ?k * m" by simp
  have le: "?k + ?k * m \<le> 2 ^ 32" and fit: "in_first_cluster e off ?k s" "in_first_cluster e (off + ?k) (?k * m) s"
    using Suc.prems(4) by (auto simp: in_first_cluster_def)
  note safe = meta_safe_split [OF Suc.prems(5) [unfolded sum] le]
  have sz: "sint sz = int ?k" by (rule sint_small [OF Suc.prems(3)])
  have live: "in_block a out ?k \<Longrightarrow> live_byte s a" "in_block a (out + sz) (?k * m) \<Longrightarrow> live_byte s a" for a
    using Suc.prems(6) in_block_split(1) [OF le, of a out] unfolding sum by auto
  obtain t where t: "fat16_read_file_data_from_cluster (int ?c) (int off) (int ?k) out s = Some (0, t)"
      "delivers (file_pos e s + off) out ?k s t"
    using read_in_cluster [of s ?c ?k off out] Suc.prems(1,2) fit(1) live(1)
    by (auto simp: file_ready_def in_first_cluster_def file_pos_def)
  note r = delivers_ready [OF t(2) safe(1) Suc.prems(1)]
  have "\<forall>a. in_block a (out + sz) (?k * m) \<longrightarrow> live_byte t a"
    using live(2) t(2) by (simp add: live_byte_def delivers_def)
  then obtain u where u: "fat16_read_members e sz (Suc i) (Suc i + m) (int (off + ?k)) (out + sz) t =
      Some (int (Suc i + m), int (off + ?k + ?k * m), u)" "delivers (file_pos e s + (off + ?k)) (out + sz) (?k * m) t u"
    using Suc.IH [of t "off + ?k" "out + sz" "Suc i"] r Suc.prems(2,3) fit(2) safe(2) [OF t(2)] by auto
  have "fat16_read_members e sz i (i + Suc m) (int off) out s = Some (int (i + Suc m), int (off + ?k * Suc m), u)"
    using t(1) u(1) first_cluster_ready [OF Suc.prems(1)] sz sint_ucast16
    by (subst fat16_read_members.simps) (simp add: add.assoc)
  moreover have "delivers (file_pos e s + off) out (?k * Suc m) s u"
    using delivers_trans [OF t(2) _ le] u(2) by (simp add: add.assoc)
  ultimately show ?case by blast
qed

text \<open>C12: \<^verbatim>\<open>kfread\<close> of members that lie in the first cluster of a FAT16 file returns their number, fills the buffer with the
  bytes of the disk from the position of the file on, advances the position, and changes no other allocated memory but
  the open file's own structure; nothing stays allocated.\<close>

theorem kfread_first_cluster:
  fixes s :: "'a fs_st_scheme" and sz nmembs :: u32 and out :: addr and fd :: int
  defines "f \<equiv> fd_heap s (get_file_descriptor fd s)"
  defines "file \<equiv> fd_private_data f" and "n \<equiv> unat sz * unat nmembs"
  defines "e \<equiv> get_field (get_field file 0 s) 0 s" and "off \<equiv> unat (get_field file 1 s)"
  assumes "get_file_descriptor fd s \<noteq> 0" and "fd_fs f = Fat16_fs" and "file_ready e s" and "in_first_cluster e off n s"
    and "0 < unat sz" and "unat sz < 2 ^ 31" and "0 < unat nmembs" and "off < 2 ^ 31"
    and "meta_safe e out n s" and "\<forall>a. in_block a out n \<longrightarrow> live_byte s a \<and> \<not> in_block a (file + 4) 4"
  shows "\<exists>t. kfread out sz nmembs fd s = Some (int (unat nmembs), t) \<and>
    (\<forall>i < n. mem t (out + of_nat i) = disk_byte (ata_data s) (file_pos e s + off + i)) \<and>
    unat (get_field file 1 t) = off + n \<and> kheap_ok t \<and> live t = live s \<and>
    (\<forall>a. live_byte s a \<longrightarrow> \<not> in_block a out n \<longrightarrow> \<not> in_block a (file + 4) 4 \<longrightarrow> mem t a = mem s a)"
proof -
  have o: "sint (get_field file 1 s) = int off" using assms(13) unfolding off_def by (rule sint_small)
  obtain t where t: "fat16_read_members e sz 0 (unat nmembs) (int off) out s = Some (int (unat nmembs), int (off + n), t)"
      "delivers (file_pos e s + off) out n s t"
    using read_members [of e s sz off "unat nmembs" out 0] assms(8-11,14,15) by (auto simp: n_def)
  let ?t = "set_field file 1 (of_nat (off + n)) t"
  have fd: "\<not> fd < 1" using assms(6) by (auto simp: get_file_descriptor_def split: if_splits)
  have nz: "sz \<noteq> 0" "nmembs \<noteq> 0" using assms(10,12) by auto
  have "kfread out sz nmembs fd s = fat16_read file sz nmembs out s"
    using assms(6,7) fd nz by (simp add: kfread_def fs_call_read_def f_def file_def Let_def)
  also have "\<dots> = Some (int (unat nmembs), ?t)"
    using t(1) by (simp add: fat16_read_def e_def [symmetric] o Let_def)
  finally have "kfread out sz nmembs fd s = Some (int (unat nmembs), ?t)" .
  moreover have other: "mem ?t a = mem t a" if "\<not> in_block a (file + 4) 4" for a
    using that by (simp add: pt_set_def pte_addr_def store32_outside)
  moreover have "unat (of_nat (off + n) :: u32) = off + n"
    by (rule unat_of_nat32) (use assms(9) in \<open>simp add: in_first_cluster_def\<close>)
  then have "unat (get_field file 1 ?t) = off + n" by (simp only: pt_get_def pt_set_def) (simp add: load32_store32_same)
  moreover have "mem ?t (out + of_nat i) = disk_byte (ata_data s) (file_pos e s + off + i)" if "i < n" for i
  proof -
    have "n < 2 ^ 32" using assms(9) by (simp add: in_first_cluster_def)
    then have i: "unat (of_nat i :: u32) = i" "in_block (out + of_nat i) out n"
      using that unat_of_nat32 [of i] by (simp_all add: in_block_def)
    then show ?thesis using other assms(15) t(2) by (simp add: delivers_def)
  qed
  moreover have "kheap_ok ?t" "live ?t = live s" using t(2) by (simp_all add: delivers_def)
  moreover have "mem ?t a = mem s a" if "live_byte s a" "\<not> in_block a out n" "\<not> in_block a (file + 4) 4" for a
    using that other t(2) by (simp add: delivers_def)
  ultimately show ?thesis by (intro exI [of _ ?t] conjI) auto
qed

section \<open>A file of four bytes at position 4\<close>

definition demo_fat :: memory where
  "demo_fat a = (if a = 0x100000D then 1 else if a = 0x100004C then 3 else if a = 0x1000050 then 0x40
     else if a = 0x100011A then 2 else if a = 0x1001 then 0x20 else if a = 0x1004 then 4
     else if a = 0x2001 then 1 else if a = 0x2003 then 1 else 0)"

definition demo_fs :: kernel_st where
  "demo_fs = (snd (kmalloc 4096 fresh_kernel))\<lparr>mem := demo_fat, ata_data := (\<lambda>l i. of_nat i),
     streams := (\<lambda>_. \<lparr>stream_disk = TheDisk, byte_offset = 0\<rparr>), disk_fs_private := 0x1000000, file_descriptors := (\<lambda>_. 0x3000),
     fd_heap := (\<lambda>_. \<lparr>fd_fs = Fat16_fs, fd_private_data = 0x1000, fd_index = 1, fd_disk = TheDisk\<rparr>)\<rparr>"

lemma demo_alloc:
  "kmalloc 4096 fresh_kernel = (0x1000000, fresh_kernel\<lparr>entries := mark_region (entries fresh_kernel) 0 1\<rparr>)"
proof -
  have "kmalloc_search (entries fresh_kernel) 2000 1 0 = Some 0"
    by (simp add: kmalloc_search_Some free_run_def fresh_kernel_def kheap_st.extend_def big_heap_def get_kheap_entry_type_def)
  moreover have "blocks_of 4096 = 1" "pages_of 4096 = 1" by (simp_all add: blocks_of_alt pages_of_def)
  moreover have "unat (num_entries fresh_kernel) = 2000" "kheap_block_to_addr fresh_kernel 0 = 0x1000000"
    by (simp_all add: fresh_kernel_def kheap_st.extend_def big_heap_def kheap_block_to_addr_def)
  ultimately show ?thesis by (simp add: kmalloc_pages)
qed

lemma demo_fs_heap: "kheap_ok demo_fs" "kheap_num_free_blocks demo_fs \<noteq> 0" "(0x1000000, 1) \<in> live demo_fs"
proof -
  let ?t = "snd (kmalloc 4096 fresh_kernel)"
  have m: "kmalloc 4096 fresh_kernel = (0x1000000, ?t)" by (simp add: demo_alloc)
  have pages: "pages_of 4096 = 1" by (simp add: blocks_of_alt pages_of_def)
  have "kheap_ok ?t" by (rule kmalloc_ok [OF fresh_kernel_heap(2) m])
  moreover have "kheap_num_free_blocks ?t + 1 = 2000" using kmalloc_counts [OF fresh_kernel_heap(2) m] pages by simp
  moreover have "region (entries ?t) 0 1" by (simp add: demo_alloc region_mark)
  moreover have "unat (num_entries fresh_kernel) = 2000" "kheap_physical_start_addr fresh_kernel = 0x1000000"
    by (simp_all add: fresh_kernel_def kheap_st.extend_def big_heap_def)
  moreover from calculation have "(0, 1) \<in> live_blocks demo_fs" "kheap_block_to_addr demo_fs 0 = 0x1000000"
    by (simp_all add: live_blocks_def kheap_block_to_addr_def demo_fs_def demo_alloc)
  ultimately show "kheap_ok demo_fs" "kheap_num_free_blocks demo_fs \<noteq> 0" "(0x1000000, 1) \<in> live demo_fs"
    by (simp_all add: demo_fs_def kheap_ok_def heap_geometry_def table_guard_def free_count_eq)
      (force simp: live_def)
qed

lemma demo_fs_fields:
  "mem demo_fs = demo_fat" "disk_fs_private demo_fs = 0x1000000" "disk_sector_size demo_fs = 512" "ata_data demo_fs = (\<lambda>l i. of_nat i)"
  "streams demo_fs = (\<lambda>_. \<lparr>stream_disk = TheDisk, byte_offset = 0\<rparr>)" "get_file_descriptor 1 demo_fs = 0x3000"
  "fd_heap demo_fs = (\<lambda>_. \<lparr>fd_fs = Fat16_fs, fd_private_data = 0x1000, fd_index = 1, fd_disk = TheDisk\<rparr>)"
  by (simp_all add: demo_fs_def demo_alloc get_file_descriptor_def)

lemma demo_fs_words:
  "get_field 0x1000 0 demo_fs = 0x2000" "get_field 0x1000 1 demo_fs = 4" "get_field 0x2000 0 demo_fs = 0x1000100"
  "entry_high_cluster demo_fat 0x1000100 = 0" "entry_low_cluster demo_fat 0x1000100 = 2"
  "sectors_per_cluster 0x1000000 demo_fs = 1" "dir_end_sector_pos (root_dir 0x1000000) demo_fs = 3"
  by (simp_all add: pt_get_def pte_addr_def demo_fs_fields load32_def load16_def demo_fat_def entry_high_cluster_def
      entry_low_cluster_def sectors_per_cluster_def dir_end_sector_pos_def root_dir_def)

theorem kfread_first_cluster_witness:
  "\<exists>t. kfread 0x1000200 2 2 1 demo_fs = Some (2, t) \<and> mem t 0x1000200 = 2 \<and> mem t 0x1000202 = 3"
proof -
  have rng: "in_block a p n \<longleftrightarrow> unat p \<le> unat a \<and> unat a < unat p + n" if "unat p + n \<le> 2 ^ 32" for a p n
    by (rule in_block_range [OF that])
  have live: "live_byte demo_fs a" if "unat a \<in> {0x1000000..<0x1001000}" for a
    using demo_fs_heap(3) that unfolding live_byte_def by (intro bexI [of _ "(0x1000000, 1)"]) (auto simp: rng)
  have pos: "file_pos 0x1000100 demo_fs = 1536"
    by (simp add: file_pos_def cluster_pos_def demo_fs_fields demo_fs_words)
  have ready: "file_ready 0x1000100 demo_fs" using demo_fs_heap by (simp add: file_ready_def demo_fs_fields demo_fs_words)
  have fits: "in_first_cluster 0x1000100 4 4 demo_fs"
    by (simp add: in_first_cluster_def pos) (simp add: demo_fs_fields demo_fs_words)
  have safe: "meta_safe 0x1000100 0x1000200 4 demo_fs"
    unfolding meta_safe_def demo_fs_fields by (auto simp: rng intro: live)
  have buf: "\<forall>a. in_block a 0x1000200 4 \<longrightarrow> live_byte demo_fs a \<and> \<not> in_block a 0x1004 4" by (auto simp: rng intro: live)
  have "disk_byte (\<lambda>l i. of_nat i) 1540 = 2" "disk_byte (\<lambda>l i. of_nat i) 1542 = 3" by (simp_all add: disk_byte_def)
  moreover obtain t where t: "kfread 0x1000200 2 2 1 demo_fs = Some (2, t)"
      "\<forall>i < 4. mem t (0x1000200 + of_nat i) = disk_byte (\<lambda>l i. of_nat i) (1540 + i)"
    using kfread_first_cluster [of 1 demo_fs 2 2 "0x1000200"] ready fits safe buf
    by (auto simp: demo_fs_fields demo_fs_words pos)
  moreover have "mem t 0x1000200 = disk_byte (\<lambda>l i. of_nat i) 1540" "mem t 0x1000202 = disk_byte (\<lambda>l i. of_nat i) 1542"
    using t(2) [rule_format, of 0] t(2) [rule_format, of 2] by simp_all
  ultimately show ?thesis by simp
qed

section \<open>The file allocation table\<close>

text \<open>The 16-bit entry of a cluster in the first copy of the table.\<close>

definition fat_word :: "'a disk_st_scheme \<Rightarrow> nat \<Rightarrow> u16" where
  "fat_word s c =
     (let k = 512 * unat (reserved_sectors (disk_fs_private s) s) + 2 * c
      in ucast (disk_byte (ata_data s) k) OR push_bit 8 (ucast (disk_byte (ata_data s) (k + 1))))"

lemma ucast_pair: "(ucast (ucast (a :: u8) OR push_bit 8 (ucast b) :: u16) :: u32) = ucast a OR push_bit 8 (ucast (b :: u8))"
proof (rule bit_word_eqI)
  fix n
  have "\<not> bit a n \<or> n < 8" "\<not> bit b (n - 8) \<or> n < 16" using bit_imp_le_length [of a n] bit_imp_le_length [of b "n - 8"] by auto
  then show "bit (ucast (ucast a OR push_bit 8 (ucast b) :: u16) :: u32) n = bit (ucast a OR push_bit 8 (ucast b) :: u32) n"
    by (auto simp: bit_simps)
qed

lemma join_eq: "(ucast (a :: u16) OR push_bit 16 (ucast b) :: u32) = ucast a \<longleftrightarrow> (b :: u16) = 0"
proof
  assume h: "(ucast a OR push_bit 16 (ucast b) :: u32) = ucast a"
  show "b = 0"
  proof (rule bit_word_eqI)
    fix n assume "n < LENGTH(16)"
    then have n: "n < 16" by simp
    have "\<not> bit a (16 + n)" using bit_imp_le_length [of a "16 + n"] by auto
    then show "bit b n = bit 0 n" using arg_cong [OF h, of "\<lambda>w. bit w (16 + n)"] n by (auto simp: bit_simps)
  qed
qed simp

lemma word_of_slice:
  "word_of_bytes (disk_slice d k 4) =
     ucast (ucast (disk_byte d k) OR push_bit 8 (ucast (disk_byte d (k + 1))) :: u16) OR
     push_bit 16 (ucast (ucast (disk_byte d (k + 2)) OR push_bit 8 (ucast (disk_byte d (k + 3))) :: u16))"
proof -
  have "[0..<4] = [0, 1, 2, 3]" by (simp add: upt_rec)
  then have "disk_slice d k 4 = [disk_byte d k, disk_byte d (k + 1), disk_byte d (k + 2), disk_byte d (k + 3)]"
    by (simp add: disk_slice_def)
  then show ?thesis unfolding ucast_pair by (simp add: word_of_bytes_def load32_def push_bit_or or.assoc)
qed

text \<open>C35: a look-up in the table reads four bytes where an entry has two. Its result is the entry of the cluster only when the
  entry of the next cluster is 0; otherwise that one is in the upper half, and the result is not the number of a cluster.\<close>

theorem fat_entry_two_words:
  fixes s :: "'a disk_st_scheme"
  assumes "kheap_ok s" and "kheap_num_free_blocks s \<noteq> 0" and "disk_sector_size s = 512"
    and "fat16_read_stream (disk_fs_private s) s \<noteq> 0"
    and "stream_disk (streams s (fat16_read_stream (disk_fs_private s) s)) = TheDisk" and "c < 65536"
  shows "fst (fat16_get_fat_entry (int c) s) = sint (ucast (fat_word s c) OR push_bit 16 (ucast (fat_word s (Suc c))) :: u32) \<and>
    (fst (fat16_get_fat_entry (int c) s) = int (unat (fat_word s c)) \<longleftrightarrow> fat_word s (Suc c) = 0)"
proof -
  let ?p = "disk_fs_private s" and ?W = "ucast (fat_word s c) OR push_bit 16 (ucast (fat_word s (Suc c))) :: u32"
  let ?st = "fat16_read_stream ?p s" and ?k = "512 * unat (reserved_sectors ?p s) + 2 * c"
  have "unat (reserved_sectors ?p s) < 65536" using unsigned_less [of "reserved_sectors ?p s", where 'a = nat] by simp
  then have k4: "?k + 4 < 4294967296" using assms(6) by linarith
  then have k: "unat (of_nat ?k :: u32) = ?k" by (intro unat_of_nat32) simp
  define u where "u = snd (disk_stream_seek ?st (of_nat ?k) s)"
  have u: "kheap_ok u" "kheap_num_free_blocks u = kheap_num_free_blocks s" "disk_sector_size u = 512"
    "stream_disk (streams u ?st) = TheDisk" "byte_offset (streams u ?st) = of_nat ?k" "ata_data u = ata_data s"
    using assms(1,3,5) by (simp_all add: u_def disk_stream_seek_def kheap_num_free_blocks_def)
  obtain t where "disk_stream_read_bytes ?st 4 u = (0, disk_slice (ata_data s) ?k 4, t)"
    using stream_read_bytes [of u ?st 4] u assms(2) k k4 by auto
  moreover have "disk_stream_seek ?st (of_nat ?k) s = (0, u)" by (simp add: u_def disk_stream_seek_def)
  moreover have "ucast (reserved_sectors ?p s) * 512 + word_of_int (int c * 2) = (of_nat ?k :: u32)" by (simp add: algebra_simps)
  ultimately have "fst (fat16_get_fat_entry (int c) s) = sint (word_of_bytes (disk_slice (ata_data s) ?k 4))"
    using assms(3,4) by (simp add: fat16_get_fat_entry_def read_local_def Let_def mult.commute)
  moreover have "word_of_bytes (disk_slice (ata_data s) ?k 4) = ?W"
    unfolding word_of_slice fat_word_def Let_def by (simp add: algebra_simps numeral_3_eq_3)
  moreover have "sint x = sint y \<longleftrightarrow> x = y" for x y :: u32 by (auto intro: signed_word_eqI)
  then have "sint ?W = int (unat (fat_word s c)) \<longleftrightarrow> fat_word s (Suc c) = 0"
    unfolding sint_ucast16 [symmetric] by (simp add: join_eq)
  ultimately show ?thesis by simp
qed

theorem fat_entry_two_words_witness:
  "fst (fat16_get_fat_entry 5 (demo_fs\<lparr>mem := demo_fat(0x1000054 := 0x41)\<rparr>)) = 0x60005"
proof -
  let ?s = "demo_fs\<lparr>mem := demo_fat(0x1000054 := 0x41)\<rparr>"
  have f: "disk_fs_private ?s = 0x1000000" "disk_sector_size ?s = 512" "kheap_ok ?s" "kheap_num_free_blocks ?s \<noteq> 0"
    "streams ?s = (\<lambda>_. \<lparr>stream_disk = TheDisk, byte_offset = 0\<rparr>)" "ata_data ?s = (\<lambda>l i. of_nat i)"
    using demo_fs_heap by (simp_all add: demo_fs_fields)
  have "fat16_read_stream 0x1000000 ?s \<noteq> 0" "reserved_sectors 0x1000000 ?s = 0"
    by (simp_all add: fat16_read_stream_def pt_get_def pte_addr_def load32_def load16_def reserved_sectors_def demo_fat_def)
  moreover from this have "fat_word ?s 5 = 5" "fat_word ?s (Suc 5) = 6"
    by (simp_all add: fat_word_def f disk_byte_def)
  ultimately show ?thesis using fat_entry_two_words [of ?s 5] f by simp
qed

end
