(* ===== verification/Descriptors.thy ===== *)
theory Descriptors
  imports Demo Disk_Props
begin

text \<open>
  The table of file descriptors (\<^verbatim>\<open>src/src/fs/file.c\<close>): which tables are well formed, and that the operations on it keep it so.
\<close>

text \<open>Every slot is empty or holds the address of an allocated descriptor with the number of the slot, counted from 1.\<close>

definition fds_ok :: "'a fs_st_scheme \<Rightarrow> bool" where
  "fds_ok s \<longleftrightarrow> kheap_ok s \<and> (\<forall>i < MAX_FILE_DESCRIPTORS. file_descriptors s i = 0 \<or>
     (file_descriptors s i, 1) \<in> live s \<and> fd_index (fd_heap s (file_descriptors s i)) = int i + 1)"

lemma heap_fd_update [simp]:
  "kheap_ok (s\<lparr>file_descriptors := x\<rparr>) = kheap_ok s" "live (s\<lparr>file_descriptors := x\<rparr>) = live s"
  "kheap_ok (s\<lparr>fd_heap := y\<rparr>) = kheap_ok s" "live (s\<lparr>fd_heap := y\<rparr>) = live s"
  by (simp_all add: kheap_ok_def heap_geometry_def table_guard_def live_def live_blocks_def kheap_block_to_addr_def)

lemma fds_slot_unique:
  assumes "fds_ok s" and "i < MAX_FILE_DESCRIPTORS" and "j < MAX_FILE_DESCRIPTORS"
    and "file_descriptors s i = file_descriptors s j" and "file_descriptors s i \<noteq> 0"
  shows "i = j"
  using assms unfolding fds_ok_def by (metis of_nat_eq_iff add_right_cancel)

lemma new_descriptor:
  assumes "fds_ok s" and "new_file_descriptor s = ((res, fd), t)"
  shows "fds_ok t \<and> (if res = 0 then \<exists>i < MAX_FILE_DESCRIPTORS. file_descriptors s i = 0 \<and> fd \<noteq> 0 \<and>
      file_descriptors t = (file_descriptors s)(i := fd) \<and> fd_index (fd_heap t fd) = int i + 1 \<and> live t = insert (fd, 1) (live s)
    else res = - STATUS_NOT_ENOUGH_MEM \<and> file_descriptors t = file_descriptors s \<and> live t = live s)"
proof (cases "first_index (\<lambda>i. file_descriptors s i = 0) MAX_FILE_DESCRIPTORS 0")
  case None
  then show ?thesis using assms by (auto simp: new_file_descriptor_def)
next
  case (Some i)
  then have i: "i < MAX_FILE_DESCRIPTORS" "file_descriptors s i = 0" using first_index_Some by auto
  obtain q u where z: "kzalloc 16 s = (q, u)" by fastforce
  have ok: "kheap_ok s" using assms(1) by (simp add: fds_ok_def)
  have b: "blocks_of 16 = 1" "unat (16 :: u32) \<le> 4096" by (simp_all add: blocks_of_alt)
  note a = small_alloc [OF ok z b]
  have fr: "file_descriptors u = file_descriptors s" "fd_heap u = fd_heap s" using kzalloc_frame [OF z] by (auto simp: heap_frame_def)
  show ?thesis
  proof (cases "q = 0")
    case True
    then have "live u = live s" using kh.alloc_null [OF ok] z by simp
    moreover have "(file_descriptors s)(i := 0) = file_descriptors s" using i by auto
    ultimately show ?thesis using True assms Some z a(1) fr by (auto simp: new_file_descriptor_def fds_ok_def)
  next
    case False
    let ?t = "u\<lparr>file_descriptors := (file_descriptors s)(i := q), fd_heap := (fd_heap s)(q := null_fd\<lparr>fd_index := int i + 1\<rparr>)\<rparr>"
    have t: "res = 0" "fd = q" "t = ?t" using assms(2) Some z False fr by (auto simp: new_file_descriptor_def)
    have new: "(q, 1) \<notin> live s" "live u = insert (q, 1) (live s)" using a(3,4) False by auto
    have "file_descriptors s j \<noteq> q" if "j < MAX_FILE_DESCRIPTORS" for j
      using assms(1) new(1) False that by (auto simp: fds_ok_def)
    then have "fds_ok ?t" using assms(1) a(1) new(2) by (auto simp: fds_ok_def)
    then show ?thesis using t False i new(2) by auto
  qed
qed

lemma free_descriptor:
  assumes "fds_ok s" and "get_file_descriptor n s \<noteq> 0" and "n < int MAX_FILE_DESCRIPTORS"
  defines "t \<equiv> free_file_descriptor n s"
  shows "fds_ok t" and "get_file_descriptor n t = 0" and "live t = live s - {(get_file_descriptor n s, 1)}"
    and "m \<noteq> n \<Longrightarrow> get_file_descriptor m t = get_file_descriptor m s"
proof -
  let ?i = "nat (n - 1)" and ?q = "get_file_descriptor n s"
  have n: "0 < n" "?q = file_descriptors s ?i" using assms(2) by (auto simp: get_file_descriptor_def split: if_splits)
  then have i: "?i < MAX_FILE_DESCRIPTORS" using assms(3) by simp
  let ?u = "snd (kfree ?q s)"
  have t: "t = ?u\<lparr>file_descriptors := (file_descriptors s)(?i := 0)\<rparr>" and h: "fd_heap ?u = fd_heap s"
    using n assms(3) by (simp_all add: t_def free_file_descriptor_def kfree_def Let_def)
  have q: "(?q, 1) \<in> live s" using assms(1,2) i n(2) by (auto simp: fds_ok_def)
  note f = kfree_live [OF _ q]
  have ok: "kheap_ok s" using assms(1) by (simp add: fds_ok_def)
  have "file_descriptors s j \<noteq> ?q" if "j < MAX_FILE_DESCRIPTORS" "j \<noteq> ?i" for j
    using fds_slot_unique [OF assms(1) that(1) i] that n(2) assms(2) by auto
  then show "fds_ok t" using assms(1) f [OF ok] h by (auto simp: fds_ok_def t)
  show "get_file_descriptor n t = 0" by (simp add: get_file_descriptor_def t)
  show "live t = live s - {(?q, 1)}" using f(2) [OF ok] by (simp add: t)
  show "get_file_descriptor m t = get_file_descriptor m s" if "m \<noteq> n"
    using that n(1) by (auto simp: get_file_descriptor_def t)
qed

text \<open>C34: a new descriptor takes an empty slot, is allocated, and is found under the number it carries; the attempt fails only by
  reporting lack of memory, with the table as it was. Freeing an open descriptor empties its slot and gives back its block,
  except for the number 1024, for which nothing happens. The table stays well formed throughout.\<close>

theorem descriptors_well_formed:
  assumes "fds_ok s"
  shows "(case new_file_descriptor s of ((res, fd), t) \<Rightarrow> fds_ok t \<and>
      (if res = 0 then fd \<noteq> 0 \<and> get_file_descriptor (fd_index (fd_heap t fd)) s = 0 \<and>
         get_file_descriptor (fd_index (fd_heap t fd)) t = fd \<and> live t = insert (fd, 1) (live s)
       else res = - STATUS_NOT_ENOUGH_MEM \<and> file_descriptors t = file_descriptors s \<and> live t = live s)) \<and>
    (get_file_descriptor n s \<noteq> 0 \<longrightarrow> fds_ok (free_file_descriptor n s) \<and>
      (if n = 1024 then free_file_descriptor n s = s
       else (\<forall>m. get_file_descriptor m (free_file_descriptor n s) = (if m = n then 0 else get_file_descriptor m s)) \<and>
         live (free_file_descriptor n s) = live s - {(get_file_descriptor n s, 1)}))"
proof (rule conjI; (intro impI)?)
  obtain res fd t where t: "new_file_descriptor s = ((res, fd), t)" by (metis surj_pair)
  from new_descriptor [OF assms t]
  show "case new_file_descriptor s of ((res, fd), t) \<Rightarrow> fds_ok t \<and>
      (if res = 0 then fd \<noteq> 0 \<and> get_file_descriptor (fd_index (fd_heap t fd)) s = 0 \<and>
         get_file_descriptor (fd_index (fd_heap t fd)) t = fd \<and> live t = insert (fd, 1) (live s)
       else res = - STATUS_NOT_ENOUGH_MEM \<and> file_descriptors t = file_descriptors s \<and> live t = live s)"
    by (auto simp: t get_file_descriptor_def split: if_splits)
  assume n: "get_file_descriptor n s \<noteq> 0"
  then have "n = 1024 \<or> n < int MAX_FILE_DESCRIPTORS" by (auto simp: get_file_descriptor_def split: if_splits)
  moreover have "free_file_descriptor 1024 s = s" by (simp add: free_file_descriptor_def)
  ultimately show "fds_ok (free_file_descriptor n s) \<and>
      (if n = 1024 then free_file_descriptor n s = s
       else (\<forall>m. get_file_descriptor m (free_file_descriptor n s) = (if m = n then 0 else get_file_descriptor m s)) \<and>
         live (free_file_descriptor n s) = live s - {(get_file_descriptor n s, 1)})"
    using free_descriptor [OF assms n] assms by auto
qed

definition demo_open :: kernel_st where
  "demo_open = snd (new_file_descriptor fresh_kernel)"

lemma demo_open_slot: "get_file_descriptor 1 demo_open \<noteq> 0"
proof -
  obtain q u where z: "kzalloc 16 fresh_kernel = (q, u)" by fastforce
  have "q \<noteq> 0" using small_alloc(2) [OF fresh_kernel_heap(2) z] by (simp add: blocks_of_alt)
  moreover have "first_index (\<lambda>i. True) 1024 0 = Some 0" by (subst first_index.simps) simp
  ultimately show ?thesis by (simp add: demo_open_def new_file_descriptor_def get_file_descriptor_def z)
qed

theorem descriptors_well_formed_witness:
  "fds_ok demo_open \<and> get_file_descriptor 1 demo_open \<noteq> 0 \<and> get_file_descriptor 1 (free_file_descriptor 1 demo_open) = 0"
proof -
  have "fds_ok fresh_kernel" by (simp add: fds_ok_def)
  then have ok: "fds_ok demo_open"
    using descriptors_well_formed [of fresh_kernel 0] by (auto simp: demo_open_def split: prod.splits)
  then show ?thesis using descriptors_well_formed [OF ok, of 1] demo_open_slot by simp
qed

end
