(* ===== verification/Printf.thy ===== *)
theory Printf
  imports Stdlib_Props
begin

text \<open>
  \<^verbatim>\<open>printf\<close> of the user library against a reference: a format with its arguments is a list of pieces, and each piece has a text.
\<close>

section \<open>Pieces of a format\<close>

datatype piece = Lit u8 | Dec u32 | Str addr "u8 list" | Chr u32 | Hex u32

primrec piece_fmt :: "piece \<Rightarrow> u8 list" where
  "piece_fmt (Lit c) = [c]"
| "piece_fmt (Dec v) = [37, 100]"
| "piece_fmt (Str a xs) = [37, 115]"
| "piece_fmt (Chr v) = [37, 99]"
| "piece_fmt (Hex v) = [37, 112]"

primrec piece_args :: "piece \<Rightarrow> u32 list" where
  "piece_args (Lit c) = []"
| "piece_args (Dec v) = [v]"
| "piece_args (Str a xs) = [a]"
| "piece_args (Chr v) = [v]"
| "piece_args (Hex v) = [v]"

definition hex_digit :: "nat \<Rightarrow> u8" where
  "hex_digit d = (if d < 10 then 48 + of_nat d else 55 + of_nat d)"

fun hex_text :: "nat \<Rightarrow> u8 list" where
  "hex_text n = (if n < 16 then [hex_digit n] else hex_text (n div 16) @ [hex_digit (n mod 16)])"

declare hex_text.simps [simp del]

primrec piece_out :: "piece \<Rightarrow> u8 list" where
  "piece_out (Lit c) = [c]"
| "piece_out (Dec v) = int_text (sint v)"
| "piece_out (Str a xs) = xs"
| "piece_out (Chr v) = [ucast v]"
| "piece_out (Hex v) = [48, 120] @ hex_text (unat v)"

text \<open>A string outside the 25 bytes of the buffer.\<close>

definition text_at :: "addr \<Rightarrow> memory \<Rightarrow> addr \<Rightarrow> u8 list \<Rightarrow> bool" where
  "text_at buf m a xs \<longleftrightarrow> cstr_at m a xs \<and> (\<forall>i \<le> length xs. \<not> in_block (a + of_nat i) buf printf_bufsz)"

primrec piece_ok :: "addr \<Rightarrow> memory \<Rightarrow> piece \<Rightarrow> bool" where
  "piece_ok buf m (Lit c) = (c \<noteq> 0 \<and> c \<noteq> 37)"
| "piece_ok buf m (Dec v) = (v \<noteq> 0x80000000)"
| "piece_ok buf m (Str a xs) = text_at buf m a xs"
| "piece_ok buf m (Chr v) = True"
| "piece_ok buf m (Hex v) = True"

section \<open>Texts of numbers\<close>

lemma nibble: "d < 16 \<Longrightarrow> d \<in> {0, 1, 2, 3, 4, 5, 6, 7, 8, 9, 10, 11, 12, 13, 14, 15}" for d :: nat
  by simp arith

lemma hex_buf_text: "0 < n \<Longrightarrow> rev (hex_buf n) = hex_text n"
proof (induction n rule: hex_buf.induct)
  case (1 n)
  let ?d = "n mod 16"
  have "?d \<in> {0, 1, 2, 3, 4, 5, 6, 7, 8, 9, 10, 11, 12, 13, 14, 15}" by (rule nibble) simp
  then have d: "(let c = of_nat ?d + 48 in (if sint c > 57 then c + 7 else c) :: u8) = hex_digit ?d"
    by (elim insertE) (simp_all add: hex_digit_def)
  show ?case
  proof (cases "n < 16")
    case True
    then have "hex_buf n = [hex_digit n]" using 1(2) d hex_buf.simps [of n] hex_buf.simps [of 0] by (simp add: Let_def)
    then show ?thesis using True by (simp add: hex_text.simps)
  next
    case False
    then have "hex_buf n = hex_digit ?d # hex_buf (n div 16)" using 1(2) d hex_buf.simps [of n] by (simp add: Let_def)
    then show ?thesis using False 1 by (simp add: hex_text.simps [of n])
  qed
qed

lemma ptr_text: "ptr_to_str_chars v = [48, 120] @ hex_text (unat v)"
proof (cases "v = 0")
  case True
  then show ?thesis by (simp add: ptr_to_str_chars_def hex_buf.simps hex_text.simps hex_digit_def)
next
  case False
  then have n: "0 < unat v" by (simp add: unat_gt_0)
  then have "hex_buf (unat v) \<noteq> []" by (subst hex_buf.simps) (simp add: Let_def)
  then show ?thesis using hex_buf_text [OF n] by (simp add: ptr_to_str_chars_def)
qed

lemma hex_text_length: "n < 16 ^ k \<Longrightarrow> 0 < k \<Longrightarrow> length (hex_text n) \<le> k"
proof (induction n arbitrary: k rule: hex_text.induct)
  case (1 n)
  show ?case
  proof (cases "n < 16")
    case True
    then show ?thesis using 1(3) by (simp add: hex_text.simps)
  next
    case False
    then obtain j where j: "k = Suc j" "0 < j" using 1(2,3) by (cases k; cases "k - 1") auto
    have "n div 16 < 16 ^ j" using 1(2) j by (simp add: less_mult_imp_div_less mult.commute)
    then show ?thesis using 1(1) [OF False, of j] False j by (simp add: hex_text.simps [of n])
  qed
qed

lemma hex_text_nonzero: "0 \<notin> set (hex_text n)"
proof (induction n rule: hex_text.induct)
  case (1 n)
  have "hex_digit d \<noteq> 0" if "d < 16" for d
  proof -
    from nibble [OF that] show ?thesis by (elim insertE) (simp_all add: hex_digit_def)
  qed
  then show ?case using 1 by (cases "n < 16") (auto simp: hex_text.simps [of n])
qed

section \<open>Printing\<close>

lemma print_str_cstr: "cstr_at (umem s) p xs \<Longrightarrow> length xs < n \<Longrightarrow> print_str p n s = s\<lparr>out := out s @ xs\<rparr>"
proof -
  assume c: "cstr_at (umem s) p xs" and n: "length xs < n"
  have "map (chars (umem s) p) [0..<n] = xs @ 0 # map (chars (umem s) p) [Suc (length xs)..<n]"
  proof -
    have "[0..<n] = [0..<length xs] @ length xs # [Suc (length xs)..<n]"
      using n upt_add_eq_append [of 0 "length xs" "n - length xs"] by (simp add: upt_conv_Cons)
    moreover have "map (chars (umem s) p) [0..<length xs] = xs"
      using c by (intro nth_equalityI) (simp_all add: chars_def cstr_at_def)
    ultimately show ?thesis using c by (simp add: chars_def cstr_at_def)
  qed
  moreover have "\<forall>x \<in> set xs. x \<noteq> 0" using cstr_at_nonzero [OF c] by auto
  ultimately show ?thesis by (simp add: print_str_def takeWhile_append2)
qed

lemma text_at_cong:
  assumes "text_at buf m a xs" and "\<And>b. \<not> in_block b buf printf_bufsz \<Longrightarrow> m' b = m b"
  shows "text_at buf m' a xs"
  using assms by (auto simp: text_at_def cstr_at_def)

lemma piece_ok_cong:
  assumes "piece_ok buf m p" and "\<And>b. \<not> in_block b buf printf_bufsz \<Longrightarrow> m' b = m b"
  shows "piece_ok buf m' p"
  using assms text_at_cong [OF _ assms(2)] by (cases p) auto

lemma text_at_append:
  assumes "text_at buf m a (xs @ ys)"
  shows "text_at buf m (a + of_nat (length xs)) ys"
proof -
  have "\<not> in_block (a + of_nat (length xs) + of_nat i) buf printf_bufsz" if "i \<le> length ys" for i
    using assms [unfolded text_at_def, THEN conjunct2, rule_format, of "length xs + i"] that by (simp add: add.assoc)
  then show ?thesis using cstr_at_drop [of m a "xs @ ys" "length xs"] assms by (simp add: text_at_def)
qed

lemma put_text_outside:
  assumes "length xs < printf_bufsz" and "\<not> in_block b buf printf_bufsz"
  shows "put_bytes m buf (xs @ [0]) b = m b"
  using assms put_bytes_eq [of "xs @ [0]" m buf] by (auto simp: in_block_def)

text \<open>The effect of one conversion through the buffer.\<close>

lemma print_number:
  assumes "0 \<notin> set xs" and "length xs < printf_bufsz"
  shows "print_str buf printf_bufsz (s\<lparr>umem := put_bytes (umem s) buf (xs @ [0])\<rparr>) =
    s\<lparr>umem := put_bytes (umem s) buf (xs @ [0]), out := out s @ xs\<rparr>"
  using print_str_cstr [of "s\<lparr>umem := put_bytes (umem s) buf (xs @ [0])\<rparr>" buf xs printf_bufsz]
    put_bytes_cstr [OF assms(1), of "umem s" buf] assms(2) by simp

lemma dec_chars: "v \<noteq> 0x80000000 \<Longrightarrow> itoa_chars (sint v) = int_text (sint v) \<and> 0 \<notin> set (int_text (sint v)) \<and>
    length (int_text (sint v)) < printf_bufsz" for v :: u32
proof -
  assume v: "v \<noteq> 0x80000000"
  have "int32 (sint v)" using sint_range_size [of v] by (simp add: int32_def word_size)
  moreover have "sint v \<noteq> - (2 ^ 31)"
  proof
    assume "sint v = - (2 ^ 31)"
    then have "sint v = sint (0x80000000 :: u32)" by simp
    then show False using v signed_word_eqI by blast
  qed
  ultimately show ?thesis using itoa_chars_text itoa_text(1,2) by fastforce
qed

lemma hex_chars: "0 \<notin> set (ptr_to_str_chars v) \<and> length (ptr_to_str_chars v) < printf_bufsz"
  using hex_text_nonzero [of "unat v"] hex_text_length [of "unat v" 8] unat_u32_bound [of v] by (simp add: ptr_text)

lemma piece_step:
  assumes "text_at buf (umem s) (fmt + of_nat idx) (piece_fmt p @ rest)" and "piece_ok buf (umem s) p"
  shows "\<exists>m. printf_loop junk buf fmt idx (piece_args p @ args) s =
      printf_loop junk buf fmt (idx + length (piece_fmt p)) args (s\<lparr>umem := m, out := out s @ piece_out p\<rparr>) \<and>
    (\<forall>a. \<not> in_block a buf printf_bufsz \<longrightarrow> m a = umem s a)"
proof -
  let ?goal = "\<lambda>m. printf_loop junk buf fmt idx (piece_args p @ args) s =
      printf_loop junk buf fmt (idx + length (piece_fmt p)) args (s\<lparr>umem := m, out := out s @ piece_out p\<rparr>)"
  have c: "cstr_at (umem s) (fmt + of_nat idx) (piece_fmt p @ rest)" using assms(1) by (simp add: text_at_def)
  have two: "umem s (fmt + of_nat idx) = 37 \<and> umem s (fmt + of_nat (Suc idx)) = k" if "piece_fmt p = [37, k]" for k
    using c that by (simp add: cstr_at_Cons algebra_simps)
  note unf = printf_loop.simps [of junk buf fmt idx "piece_args p @ args" s]
  have same: "s\<lparr>umem := umem s, out := x\<rparr> = s\<lparr>out := x\<rparr>" for x by simp
  show ?thesis
  proof (cases p)
    case (Lit k)
    then have "umem s (fmt + of_nat idx) = k" using c by (simp add: cstr_at_Cons)
    then have "?goal (umem s)" using Lit assms(2) unf by (simp add: put_char_def)
    then show ?thesis by blast
  next
    case (Dec v)
    then have d: "itoa_chars (sint v) = int_text (sint v)" "0 \<notin> set (int_text (sint v))" "length (int_text (sint v)) < printf_bufsz"
      using dec_chars [of v] assms(2) by auto
    have "?goal (put_bytes (umem s) buf (int_text (sint v) @ [0]))"
      using Dec two [of 100] unf print_number [OF d(2,3), of buf s] by (simp add: itoa_def d(1) Let_def)
    then show ?thesis using put_text_outside [OF d(3)] by blast
  next
    case (Str a xs)
    then have t: "cstr_at (umem s) a xs" using assms(2) by (simp add: text_at_def)
    have "?goal (umem s)"
      using Str two [of 115] unf strlen_cstr [OF t] print_str_cstr [OF t, of "length xs + 1"] by (simp add: stdlib_strlen_def Let_def)
    then show ?thesis by blast
  next
    case (Chr v)
    then have "?goal (umem s)" using two [of 99] unf by (simp add: put_char_def Let_def)
    then show ?thesis by blast
  next
    case (Hex v)
    note h = hex_chars [of v, THEN conjunct1] hex_chars [of v, THEN conjunct2]
    have "?goal (put_bytes (umem s) buf (ptr_to_str_chars v @ [0]))"
      using Hex two [of 112] unf print_number [OF h, of buf s] by (simp add: ptr_to_str_def ptr_text Let_def)
    then show ?thesis using put_text_outside [OF h(2)] by blast
  qed
qed

lemma printf_pieces:
  assumes "text_at buf (umem s) (fmt + of_nat idx) (concat (map piece_fmt ps))" and "\<forall>p \<in> set ps. piece_ok buf (umem s) p"
  shows "\<exists>m. printf_loop junk buf fmt idx (concat (map piece_args ps)) s =
      Some (s\<lparr>umem := m, out := out s @ concat (map piece_out ps)\<rparr>) \<and> (\<forall>a. \<not> in_block a buf printf_bufsz \<longrightarrow> m a = umem s a)"
  using assms
proof (induction ps arbitrary: idx s)
  case Nil
  then have "umem s (fmt + of_nat idx) = 0" by (simp add: text_at_def cstr_at_Nil)
  then show ?case using printf_loop.simps [of junk buf fmt idx "[]" s] by (intro exI [of _ "umem s"]) simp
next
  case (Cons p ps)
  obtain m where m: "printf_loop junk buf fmt idx (piece_args p @ concat (map piece_args ps)) s =
      printf_loop junk buf fmt (idx + length (piece_fmt p)) (concat (map piece_args ps)) (s\<lparr>umem := m, out := out s @ piece_out p\<rparr>)"
      "\<And>a. \<not> in_block a buf printf_bufsz \<Longrightarrow> m a = umem s a"
    using piece_step [of buf s fmt idx p "concat (map piece_fmt ps)" junk "concat (map piece_args ps)"] Cons.prems by auto
  let ?s = "s\<lparr>umem := m, out := out s @ piece_out p\<rparr>" and ?n = "length (piece_fmt p)"
  have tx: "text_at buf (umem s) (fmt + of_nat (idx + ?n)) (concat (map piece_fmt ps))"
    using text_at_append [of buf "umem s" "fmt + of_nat idx" "piece_fmt p"] Cons.prems(1) by (simp add: add.assoc)
  have "\<forall>p \<in> set ps. piece_ok buf m p" using Cons.prems(2) piece_ok_cong [OF _ m(2)] by simp
  then obtain m' where "printf_loop junk buf fmt (idx + ?n) (concat (map piece_args ps)) ?s =
      Some (?s\<lparr>umem := m', out := out ?s @ concat (map piece_out ps)\<rparr>)" "\<forall>a. \<not> in_block a buf printf_bufsz \<longrightarrow> m' a = m a"
    using Cons.IH [of ?s "idx + ?n"] text_at_cong [OF tx m(2)] by auto
  then show ?case using m by (intro exI [of _ m']) simp
qed

text \<open>C19: \<^verbatim>\<open>printf\<close> returns and prints the texts of the pieces of its format in order: decimal notation for \<^verbatim>\<open>%d\<close> (but for the
  smallest number), the whole string for \<^verbatim>\<open>%s\<close>, one character for \<^verbatim>\<open>%c\<close>, hexadecimal notation for \<^verbatim>\<open>%p\<close>. It writes to
  memory only in its buffer. The format and the strings must not overlap that buffer.\<close>

theorem printf_renders:
  assumes "text_at buf (umem s) fmt (concat (map piece_fmt ps))" and "\<forall>p \<in> set ps. piece_ok buf (umem s) p"
  shows "\<exists>m. printf junk buf fmt (concat (map piece_args ps)) s =
      Some (s\<lparr>umem := m, out := out s @ concat (map piece_out ps)\<rparr>) \<and> (\<forall>a. \<not> in_block a buf 25 \<longrightarrow> m a = umem s a)"
  using printf_pieces [of buf s fmt 0 ps junk] assms by (simp add: printf_def)

text \<open>The format \<^verbatim>\<open>i=%d,%p\<close> with the arguments 2024 and 0x1F.\<close>

definition demo_printf :: user_prog where
  "demo_printf = \<lparr>umem = (\<lambda>a. if unat (a - 0x1000) < 7 then [105, 61, 37, 100, 44, 37, 112] ! unat (a - 0x1000) else 0),
     heap_end = 0, heap_curr = 0, tok_sp = 0, out = [], keys = []\<rparr>"

theorem printf_renders_witness:
  "\<exists>t. printf 0 0x2000 0x1000 [2024, 0x1F] demo_printf = Some t \<and> out t = [105, 61, 50, 48, 50, 52, 44, 48, 120, 49, 70]"
proof -
  let ?ps = "[Lit 105, Lit 61, Dec 2024, Lit 44, Hex 0x1F]"
  have out: "\<not> in_block (0x1000 + of_nat i) 0x2000 25" if "i \<le> 7" for i
    using that in_block_range [of "0x2000" 25] unat_offset [of "0x1000" i] by simp
  have "cstr_at (umem demo_printf) 0x1000 [105, 61, 37, 100, 44, 37, 112]"
    by (simp add: demo_printf_def cstr_at_Cons cstr_at_Nil)
  then have tx: "text_at 0x2000 (umem demo_printf) 0x1000 (concat (map piece_fmt ?ps))" using out by (simp add: text_at_def)
  have "int_text 2024 = [50, 48, 50, 52]" "hex_text 31 = [49, 70]"
    by code_simp+
  then show ?thesis using printf_renders [OF tx, of 0] by (auto simp: demo_printf_def)
qed

end
