(* ===== verification/Blank.thy ===== *)
theory Blank
  imports Shell Printf
begin

text \<open>
  The sample program \<^verbatim>\<open>src/programs/blank/blank.c\<close>: its \<^verbatim>\<open>main\<close>, with the placement of literals and variables in the argument
  \<open>env\<close> as for the shell. (Its function \<^verbatim>\<open>screen\<close> is never called.)
\<close>

definition show_every :: int where [simp]: "show_every = 30000000"

text \<open>The counting loop; \<^verbatim>\<open>i\<close> starts at 0 and stays below the range of an \<^verbatim>\<open>int\<close>.\<close>

function show_loop :: "shell_env \<Rightarrow> int \<Rightarrow> 'a user_prog_scheme \<Rightarrow> 'a user_prog_scheme option" where
  "show_loop env n s =
     (let i = n + 1
      in case (if i mod show_every = 0 then sh_printf env (''i=%d'' @ [CHR 0x0A]) [word_of_int i] s else Some s) of
           None \<Rightarrow> None
         | Some s \<Rightarrow> if i < 0 \<or> i > show_every * 8 then Some s else show_loop env i s)"
  by pat_completeness auto
termination
  by (relation "measure (\<lambda>(env, n, s). nat (show_every * 8 - n))") (auto simp: Let_def)

declare show_loop.simps [simp del]

definition blank_main :: "shell_env \<Rightarrow> 'a user_prog_scheme \<Rightarrow> 'a user_prog_scheme option" where
  "blank_main env s =
     (if sint (argc_val env) \<ge> 2 \<and> stdlib_strncmp (umem s) (load32 (umem s) (argv_val env + 4)) (rodata env ''showmt'') 5 = 0
      then show_loop env 0 s
      else info_args env (print_str (rodata env
             (''Greetings! you started blank.c and passed the args listed below'' @ [CHR 0x0A])) 100 s))"

section \<open>The counting loop ends\<close>

text \<open>The lines from the next multiple after \<open>n\<close> on.\<close>

definition count_line :: "nat \<Rightarrow> u8 list" where
  "count_line k = [105, 61] @ int_text (30000000 * int k) @ [10]"

definition count_lines :: "nat \<Rightarrow> u8 list" where
  "count_lines n = concat (map count_line [Suc (n div 30000000)..<9])"

lemma show_printf:
  fixes env :: shell_env
  defines "buf \<equiv> printf_buf_at env" and "fmt \<equiv> rodata env (''i=%d'' @ [CHR 0x0A])"
  assumes "text_at buf (umem s) fmt [105, 61, 37, 100, 10]" and "k \<le> 8"
  shows "\<exists>m. sh_printf env (''i=%d'' @ [CHR 0x0A]) [word_of_int (30000000 * int k)] s =
      Some (s\<lparr>umem := m, out := out s @ count_line k\<rparr>) \<and> text_at buf m fmt [105, 61, 37, 100, 10]"
proof -
  let ?v = "word_of_int (30000000 * int k) :: u32" and ?ps = "\<lambda>v. [Lit 105, Lit 61, Dec v, Lit 10]"
  have v: "sint ?v = 30000000 * int k"
    using assms(4) by (subst signed_of_int) (simp add: signed_take_bit_int_eq_self)
  then have "?v \<noteq> 0x80000000" by auto
  then obtain m where m: "printf_loop (printf_junk env) buf fmt 0 [?v] s = Some (s\<lparr>umem := m, out := out s @ count_line k\<rparr>)"
      "\<forall>a. \<not> in_block a buf printf_bufsz \<longrightarrow> m a = umem s a"
    using printf_pieces [of buf s fmt 0 "?ps ?v" "printf_junk env"] assms(3) v by (auto simp: count_line_def)
  then show ?thesis
    using text_at_cong [OF assms(3), of m] by (auto simp: sh_printf_def printf_def buf_def fmt_def)
qed

lemma show_loop_ends:
  fixes env :: shell_env
  defines "buf \<equiv> printf_buf_at env" and "fmt \<equiv> rodata env (''i=%d'' @ [CHR 0x0A])"
  assumes "text_at buf (umem s) fmt [105, 61, 37, 100, 10]" and "n \<le> 240000000"
  shows "\<exists>m. show_loop env (int n) s = Some (s\<lparr>umem := m, out := out s @ count_lines n\<rparr>)"
  using assms(3,4)
proof (induction "240000000 - n" arbitrary: n s)
  case 0
  then have n: "n = 240000000" by simp
  have "show_loop env (int n) s = Some s" unfolding n by (subst show_loop.simps) simp
  then show ?case by (intro exI [of _ "umem s"]) (simp add: n count_lines_def)
next
  case (Suc d)
  have n: "n < 240000000" using Suc.hyps(2) by simp
  have go: "int n + 1 = int (Suc n)" "\<not> (int (Suc n) < 0 \<or> int (Suc n) > show_every * 8)" using n by simp_all
  have zm: "int (Suc n) mod show_every = int (Suc n mod 30000000)" by (simp only: zmod_int show_every_def of_nat_numeral)
  have step: "show_loop env (int n) s = (case (if Suc n mod 30000000 = 0
      then sh_printf env (''i=%d'' @ [CHR 0x0A]) [word_of_int (int (Suc n))] s else Some s) of
        None \<Rightarrow> None | Some t \<Rightarrow> show_loop env (int (Suc n)) t)"
    by (subst show_loop.simps) (use go(2) in \<open>simp only: Let_def go(1) zm of_nat_eq_0_iff if_False\<close>)
  show ?case
  proof (cases "Suc n mod 30000000 = 0")
    case True
    define k where "k = Suc n div 30000000"
    have k: "Suc n = 30000000 * k" 
      using True mult_div_mod_eq [of 30000000 "Suc n"] unfolding k_def by linarith
    then have k8: "k \<le> 8" "n div 30000000 = k - 1" "0 < k" using n by (simp_all add: div_nat_eqI)
    obtain m where m: "sh_printf env (''i=%d'' @ [CHR 0x0A]) [word_of_int (30000000 * int k)] s =
        Some (s\<lparr>umem := m, out := out s @ count_line k\<rparr>)" "text_at buf m fmt [105, 61, 37, 100, 10]"
      using show_printf [of env s k] Suc.prems(1) k8(1) by (auto simp: buf_def fmt_def)
    let ?s = "s\<lparr>umem := m, out := out s @ count_line k\<rparr>"
    have "show_loop env (int n) s = show_loop env (int (Suc n)) ?s"
      using m(1) step True k by simp
    moreover have "count_lines n = count_line k @ count_lines (Suc n)"
      using k8 k by (simp add: count_lines_def upt_conv_Cons)
    ultimately show ?thesis using Suc.hyps(1) [of "Suc n" ?s] Suc.hyps(2) m(2) n by auto
  next
    case False
    then have "show_loop env (int n) s = show_loop env (int (Suc n)) s"
      using step by simp
    moreover have "count_lines n = count_lines (Suc n)" using False by (simp add: count_lines_def div_Suc)
    ultimately show ?thesis using Suc.hyps(1) [of "Suc n" s] Suc.hyps(2) Suc.prems n by auto
  qed
qed

text \<open>Started with \<^verbatim>\<open>showmt\<close> the program prints eight lines and returns.\<close>

lemma blank_counts:
  fixes env :: shell_env
  defines "buf \<equiv> printf_buf_at env" and "fmt \<equiv> rodata env (''i=%d'' @ [CHR 0x0A])"
  assumes "text_at buf (umem s) fmt [105, 61, 37, 100, 10]" and "2 \<le> sint (argc_val env)"
    and "cstr_at (umem s) (load32 (umem s) (argv_val env + 4)) (lit ''showmt'')" and "cstr_at (umem s) (rodata env ''showmt'') (lit ''showmt'')"
  shows "\<exists>m. blank_main env s = Some (s\<lparr>umem := m, out := out s @ concat (map count_line [1..<9])\<rparr>)"
proof -
  have "stdlib_strncmp (umem s) (load32 (umem s) (argv_val env + 4)) (rodata env ''showmt'') 5 = 0"
    unfolding stdlib_strncmp_def using strncmp_cstr [OF assms(5,6), of 5] by simp
  then have "blank_main env s = show_loop env (int 0) s" using assms(4) by (simp add: blank_main_def)
  then show ?thesis
    using show_loop_ends [of env s 0] assms(3) by (simp add: buf_def fmt_def count_lines_def)
qed

end
