(* ===== verification/Keyboard_Props.thy ===== *)
theory Keyboard_Props
  imports Keyboard Demo
begin

text \<open>
  The keyboard buffer of a process as a bounded queue. Pushes and pops come in any order, the
  interrupt handler pushing and the reader of the process popping, and both indices of the ring wrap
  around. The contract is the locale \<open>bounded_queue\<close>, interpreted on \<open>keyboard_push\<close> and
  \<open>keyboard_pop\<close>; its limits, and what the buffer does beyond them, follow.
\<close>

section \<open>Bounded queues\<close>

datatype 'e queue_op = Enq 'e | Deq

text \<open>Carrying out a sequence of operations; the results of the pops are collected.\<close>

fun run_ops :: "('e \<Rightarrow> 'q \<Rightarrow> 'q) \<Rightarrow> ('q \<Rightarrow> 'e \<times> 'q) \<Rightarrow> 'e queue_op list \<Rightarrow> 'q \<Rightarrow> 'e list \<times> 'q" where
  "run_ops push pop [] q = ([], q)"
| "run_ops push pop (Enq c # ops) q = run_ops push pop ops (push c q)"
| "run_ops push pop (Deq # ops) q =
     (let (x, q) = pop q; (xs, q) = run_ops push pop ops q in (x # xs, q))"

text \<open>
  What the pops of a bounded queue of non-null elements return, the elements waiting being \<open>xs\<close>
  and \<open>n\<close> having been accepted so far. Null elements are ignored. The result is \<open>None\<close> when the
  contract is left: an element arrives while \<open>cap\<close> elements are waiting, or the queue is read while
  it is empty and has accepted \<open>cap\<close> elements already.
\<close>

fun queue_spec :: "'e \<Rightarrow> nat \<Rightarrow> nat \<Rightarrow> 'e list \<Rightarrow> 'e queue_op list \<Rightarrow> 'e list option" where
  "queue_spec null cap n xs [] = Some []"
| "queue_spec null cap n xs (Enq c # ops) =
     (if c = null then queue_spec null cap n xs ops
      else if length xs < cap then queue_spec null cap (Suc n) (xs @ [c]) ops else None)"
| "queue_spec null cap n [] (Deq # ops) =
     (if n < cap then map_option (Cons null) (queue_spec null cap n [] ops) else None)"
| "queue_spec null cap n (x # xs) (Deq # ops) = map_option (Cons x) (queue_spec null cap n xs ops)"

text \<open>\<open>holds n xs q\<close>: the queue \<open>q\<close> has accepted \<open>n\<close> elements, of which \<open>xs\<close> are waiting.\<close>

locale bounded_queue =
  fixes push :: "'e \<Rightarrow> 'q \<Rightarrow> 'q"
    and pop :: "'q \<Rightarrow> 'e \<times> 'q"
    and null :: 'e
    and cap :: nat
    and holds :: "nat \<Rightarrow> 'e list \<Rightarrow> 'q \<Rightarrow> bool"
  assumes push_null: "push null q = q"
    and push_holds: "holds n xs q \<Longrightarrow> length xs < cap \<Longrightarrow> c \<noteq> null \<Longrightarrow> holds (Suc n) (xs @ [c]) (push c q)"
    and pop_holds: "holds n (x # xs) q \<Longrightarrow> fst (pop q) = x \<and> holds n xs (snd (pop q))"
    and pop_empty: "holds n [] q \<Longrightarrow> n < cap \<Longrightarrow> pop q = (null, q)"
begin

lemma run_refines:
  "holds n xs q \<Longrightarrow> queue_spec null cap n xs ops = Some rs \<Longrightarrow>
     fst (run_ops push pop ops q) = rs \<and> (\<exists>n xs. holds n xs (snd (run_ops push pop ops q)))"
proof (induction ops arbitrary: n xs q rs)
  case (Cons a ops)
  show ?case
  proof (cases a)
    case (Enq c)
    then show ?thesis
      using Cons.IH [of n xs q rs] Cons.IH [of "Suc n" "xs @ [c]" "push c q" rs] Cons.prems push_holds [of n xs q c]
      by (auto simp: push_null split: if_splits)
  next
    case Deq
    show ?thesis
    proof (cases xs)
      case Nil
      then show ?thesis using Cons Deq by (auto simp: pop_empty split_def Let_def split: if_splits)
    next
      case (Cons x ys)
      with Cons.IH [of n ys "snd (pop q)"] Cons.prems Deq pop_holds [of n x ys q] show ?thesis
        by (auto simp: split_def Let_def)
    qed
  qed
qed auto

end

section \<open>The keyboard buffer\<close>

text \<open>
  After \<open>h\<close> pops with \<open>xs\<close> waiting: the indices are the numbers of pops and of pushes modulo the
  size of the ring, the cells from head to tail hold \<open>xs\<close>, and cells no push has reached are zero.
\<close>

definition kb_ring :: "nat \<Rightarrow> u8 list \<Rightarrow> keyboard_buffer \<Rightarrow> bool" where
  "kb_ring h xs b \<longleftrightarrow> length xs \<le> 1024 \<and> 0 \<notin> set xs \<and>
     kb_head b = h mod 1024 \<and> kb_tail b = (h + length xs) mod 1024 \<and>
     (\<forall>i < length xs. kb_buf b ((h + i) mod 1024) = xs ! i) \<and>
     (\<forall>i. h + length xs \<le> i \<longrightarrow> i < 1024 \<longrightarrow> kb_buf b i = 0)"

lemma kb_ringD:
  assumes "kb_ring h xs b"
  shows "length xs \<le> 1024" and "0 \<notin> set xs" and "kb_head b = h mod 1024" and "kb_tail b = (h + length xs) mod 1024"
    and "i < length xs \<Longrightarrow> kb_buf b ((h + i) mod 1024) = xs ! i"
    and "h + length xs \<le> i \<Longrightarrow> i < 1024 \<Longrightarrow> kb_buf b i = 0"
  using assms by (auto simp: kb_ring_def)

lemma ring_cells_differ:
  fixes h :: nat
  assumes "i < k" and "k < 1024"
  shows "(h + i) mod 1024 \<noteq> (h + k) mod 1024"
proof
  assume "(h + i) mod 1024 = (h + k) mod 1024"
  then have "(1024 :: nat) dvd (h + k) - (h + i)" using mod_eq_dvd_iff_nat [of "h + i" "h + k" 1024] assms(1) by simp
  then show False using assms by (auto dest: dvd_imp_le)
qed

lemma kb_push_ring:
  assumes "kb_ring h xs b" and "length xs < 1024" and "c \<noteq> 0"
  shows "kb_ring h (xs @ [c]) (kb_push c b)"
proof -
  note D = kb_ringD [OF assms(1)]
  have "kb_buf (kb_push c b) ((h + i) mod 1024) = (xs @ [c]) ! i" if "i < Suc (length xs)" for i
  proof (cases "i = length xs")
    case False
    with that have "i < length xs" by simp
    then show ?thesis
      using ring_cells_differ [OF \<open>i < length xs\<close> assms(2), of h] D(5) by (simp add: kb_push_def D(4) nth_append)
  qed (simp add: kb_push_def D(4))
  moreover have "kb_buf (kb_push c b) i = 0" if "Suc (h + length xs) \<le> i" "i < 1024" for i
    using that D(6) [of i] by (simp add: kb_push_def D(4))
  moreover have "kb_tail (kb_push c b) = Suc (h + length xs) mod 1024" "kb_head (kb_push c b) = h mod 1024"
    by (simp_all add: kb_push_def D(3,4) mod_simps)
  ultimately show ?thesis using D(2) assms(2,3) unfolding kb_ring_def by simp
qed

lemma kb_pop_ring:
  assumes "kb_ring h (x # xs) b"
  shows "fst (kb_pop b) = x" and "kb_ring (Suc h) xs (snd (kb_pop b))"
proof -
  note D = kb_ringD [OF assms]
  have x: "kb_buf b (kb_head b) = x" "x \<noteq> 0" using D(2,3) D(5) [of 0] by auto
  then have pop: "kb_pop b = (x, b\<lparr>kb_head := (kb_head b + 1) mod 1024\<rparr>)" by (simp add: kb_pop_def)
  then show "fst (kb_pop b) = x" by simp
  have "kb_buf b ((Suc h + i) mod 1024) = xs ! i" if "i < length xs" for i
    using D(5) [of "Suc i"] that by simp
  then show "kb_ring (Suc h) xs (snd (kb_pop b))"
    using D(1,2,4,6) unfolding pop kb_ring_def by (simp add: D(3) mod_simps)
qed

lemma kb_pop_ring_empty: "kb_ring h [] b \<Longrightarrow> h < 1024 \<Longrightarrow> kb_pop b = (0, b)"
  using kb_ringD(3) [of h "[]" b] kb_ringD(6) [of h "[]" b h] by (simp add: kb_pop_def)

text \<open>The buffer of process \<open>i\<close>, filled by the interrupt handler and read by its task \<open>t\<close>.\<close>

definition keyboard_holds :: "addr \<Rightarrow> nat \<Rightarrow> nat \<Rightarrow> u8 list \<Rightarrow> 'a proc_st_scheme \<Rightarrow> bool" where
  "keyboard_holds t i n xs s \<longleftrightarrow> t_proc (tasks s t) = Some i \<and>
     length xs \<le> n \<and> kb_ring (n - length xs) xs (keyboard (procs s i))"

interpretation kb: bounded_queue "\<lambda>c. keyboard_push c (Some i)" "keyboard_pop t" 0 1024 "keyboard_holds t i"
  for t i
proof unfold_locales
  fix s :: "'a proc_st_scheme" and n x xs and c :: u8
  show "keyboard_push 0 (Some i) s = s" by (simp add: keyboard_push_def)
  show "keyboard_holds t i (Suc n) (xs @ [c]) (keyboard_push c (Some i) s)"
    if "keyboard_holds t i n xs s" "length xs < 1024" "c \<noteq> 0"
    using that kb_push_ring [of "n - length xs" xs _ c] by (simp add: keyboard_holds_def keyboard_push_def upd_proc_def)
  show "fst (keyboard_pop t s) = x \<and> keyboard_holds t i n xs (snd (keyboard_pop t s))"
    if "keyboard_holds t i n (x # xs) s"
  proof -
    have "n - length xs = Suc (n - length (x # xs))" using that unfolding keyboard_holds_def by auto
    then show ?thesis using that kb_pop_ring [of "n - length (x # xs)" x xs]
      by (simp add: keyboard_holds_def keyboard_pop_def upd_proc_def split_def Let_def)
  qed
  show "keyboard_pop t s = (0, s)" if "keyboard_holds t i n [] s" "n < 1024"
    using that kb_pop_ring_empty [of n] by (simp add: keyboard_holds_def keyboard_pop_def upd_proc_def)
qed

lemma run_ops_frame:
  "t_proc (tasks s t) = Some i \<Longrightarrow> j \<noteq> i \<Longrightarrow>
     procs (snd (run_ops (\<lambda>c. keyboard_push c (Some i)) (keyboard_pop t) ops s)) j = procs s j"
proof (induction ops arbitrary: s)
  case (Cons a ops)
  show ?case
  proof (cases a)
    case (Enq c)
    have "procs (keyboard_push c (Some i) s) j = procs s j" "tasks (keyboard_push c (Some i) s) = tasks s"
      using Cons.prems by (simp_all add: keyboard_push_def upd_proc_def)
    then show ?thesis using Cons Enq by simp
  next
    case Deq
    have "procs (snd (keyboard_pop t s)) j = procs s j" "tasks (snd (keyboard_pop t s)) = tasks s"
      using Cons.prems by (simp_all add: keyboard_pop_def upd_proc_def split_def Let_def)
    then show ?thesis using Cons Deq by (simp add: split_def Let_def)
  qed
qed simp

section \<open>Properties\<close>

definition empty_keyboard :: keyboard_buffer where
  "empty_keyboard = \<lparr>kb_buf = (\<lambda>_. 0), kb_head = 0, kb_tail = 0\<rparr>"


lemma queue_spec_alternate:
  "null \<notin> set cs \<Longrightarrow> 0 < cap \<Longrightarrow>
     queue_spec null cap n [] (concat (map (\<lambda>c. [Enq c, Deq]) cs)) = Some cs"
  by (induction cs arbitrary: n) auto


section \<open>Beyond the limits\<close>

fun pop_many :: "nat \<Rightarrow> keyboard_buffer \<Rightarrow> u8 list \<times> keyboard_buffer" where
  "pop_many 0 b = ([], b)"
| "pop_many (Suc n) b = (let (c, b) = kb_pop b; (cs, b) = pop_many n b in (c # cs, b))"

text \<open>A buffer in which every cell is used.\<close>

lemma full_buffer:
  "length cs \<le> 1024 \<Longrightarrow> fold kb_push cs empty_keyboard =
     \<lparr>kb_buf = (\<lambda>i. if i < length cs then cs ! i else 0), kb_head = 0, kb_tail = length cs mod 1024\<rparr>"
proof (induction cs rule: rev_induct)
  case Nil
  then show ?case by (simp add: empty_keyboard_def)
next
  case (snoc c cs)
  then have "length cs mod 1024 = length cs" by simp
  with snoc show ?case by (auto simp: kb_push_def nth_append fun_eq_iff mod_Suc)
qed

text \<open>With 1024 characters waiting the next one takes the place of the oldest and is read first.\<close>

lemma keyboard_overrun:
  "length cs = 1024 \<Longrightarrow> fst (kb_pop (kb_push c (fold kb_push cs empty_keyboard))) = c"
  using full_buffer [of cs] by (simp add: kb_push_def kb_pop_def)

lemma pop_full:
  assumes "\<forall>i < 1024. kb_buf b i \<noteq> 0" and "kb_head b < 1024"
  shows "fst (pop_many n b) = map (\<lambda>i. kb_buf b ((kb_head b + i) mod 1024)) [0..<n]"
  using assms
proof (induction n arbitrary: b)
  case (Suc n)
  let ?b = "b\<lparr>kb_head := (kb_head b + 1) mod 1024\<rparr>"
  have pop: "kb_pop b = (kb_buf b (kb_head b), ?b)" using Suc.prems by (simp add: kb_pop_def Let_def)
  have IH: "fst (pop_many n ?b) = map (\<lambda>i. kb_buf b (((kb_head b + 1) mod 1024 + i) mod 1024)) [0..<n]"
    using Suc.IH [of ?b] Suc.prems by simp
  have "map (\<lambda>i. kb_buf b ((kb_head b + i) mod 1024)) [0..<Suc n] =
      kb_buf b (kb_head b mod 1024) # map (\<lambda>i. kb_buf b ((kb_head b + Suc i) mod 1024)) [0..<n]"
    by (simp add: upt_conv_Cons map_Suc_upt [symmetric] del: upt_Suc)
  moreover have "((kb_head b + 1) mod 1024 + i) mod 1024 = (kb_head b + Suc i) mod 1024" for i
    by (simp add: mod_simps)
  ultimately show ?case using pop IH Suc.prems(2) by (simp add: split_def Let_def)
qed simp

text \<open>Once the process has received 1024 characters an empty buffer is not seen as empty: because popping leaves the cell as it is, a process that
  received 1024 characters and read them all is handed the same characters again, for ever.\<close>

lemma keyboard_replay:
  assumes "length cs = 1024" and "0 \<notin> set cs"
  shows "fst (pop_many n (fold kb_push cs empty_keyboard)) = map (\<lambda>i. cs ! (i mod 1024)) [0..<n]"
proof -
  let ?b = "fold kb_push cs empty_keyboard"
  have b: "?b = \<lparr>kb_buf = (\<lambda>i. if i < 1024 then cs ! i else 0), kb_head = 0, kb_tail = 0\<rparr>"
    using full_buffer [of cs] assms(1) by simp
  have "cs ! i \<noteq> 0" if "i < 1024" for i using assms that nth_mem by metis
  then have "\<forall>i < 1024. kb_buf ?b i \<noteq> 0" unfolding b by simp
  from pop_full [OF this, of n] show ?thesis unfolding b by simp
qed

lemma keyboard_replay_witness:
  "fst (pop_many 1025 (fold kb_push (replicate 1024 65) empty_keyboard)) = replicate 1025 65"
  using keyboard_replay [of "replicate 1024 65" 1025] by (simp add: map_replicate_const del: upt_rec_numeral)

end
