(* ===== verification/Spec2Isabelle.thy ===== *)
theory Spec2Isabelle
  imports Dispatch User_Heap Shell_Props Gdt Ports Elf_Props Fat16_Props Descriptors Blank Keyboard_Props
begin

text \<open>
  A verification of AmogOS, a 32-bit x86 kernel in C with a user-mode library. Paths below are relative to \<^verbatim>\<open>src/\<close>;
  the kernel is under \<^verbatim>\<open>src/src\<close>, the user programs under \<^verbatim>\<open>src/programs\<close>.

  \<^bold>\<open>The program.\<close> \<^verbatim>\<open>kernel_main\<close> sets up segments, heap, paging, disk, interrupts, processes, keyboard and system
  calls and starts the first process. The heap hands out 4 KB blocks; page tables, tasks, file
  structures and the pages of user programs are all taken from it. A process is loaded from a FAT16
  disk through the file layer and the ELF loader and gets a task with a page table of its own. The clock
  interrupt saves the registers of the running task and switches to the next one; \<^verbatim>\<open>int 0x80\<close> enters the
  system calls. The user library builds \<^verbatim>\<open>malloc\<close>, strings and terminal input on the system calls.

  \<^bold>\<open>State.\<close> One chain of records, extended component by component, each with the global variables of its C files:
  \<open>machine\<close> (byte memory), \<open>console_st\<close>, \<open>kheap_st\<close>, \<open>paging_st\<close> (\<^verbatim>\<open>cr3\<close>, TLB), \<open>disk_st\<close>, \<open>fs_st\<close>, \<open>elf_st\<close>, \<open>proc_st\<close> (tasks and
  processes), \<open>kbd_st\<close>, \<open>intr_st\<close>, \<open>kernel_st\<close>. Operations are polymorphic in the extensions, so what a component proves
  holds for the whole kernel state. Integers are machine words where their width matters.

  \<^bold>\<open>Memory.\<close> \<open>mem\<close> maps every address to a byte. Page tables, buffers, parsed paths and FAT16 structures live in it
  with the layout of the C structs. Streams, file descriptors, ELF descriptors and tasks are kept in maps
  from their address, whose allocation on the heap is still performed; the block table of the heap and
  the video memory are fields of their own, so stray stores into them are not seen.

  \<^bold>\<open>Control.\<close> A call either returns, panics, enters user mode, never returns, or faults: the type \<open>outcome\<close> of \<open>Prelude\<close> has
  one constructor for each. The file layer uses \<open>option\<close>, with \<open>None\<close> for a call that does not come back. Loops with a
  bound in the code are functions with a measure, loops without one are partial functions, and no
  definition uses fuel.

  \<^bold>\<open>Theories of the kernel\<close>, in the order of their imports, with the files they model.
  \<^item> \<open>Prelude\<close>: words, bytes, 32-bit loads and stores, outcomes. \<open>KMemory\<close>: \<^verbatim>\<open>memory/memory.c\<close>, with \<^verbatim>\<open>memset\<close>, \<^verbatim>\<open>memcpy\<close> and
    \<^verbatim>\<open>memcmp\<close> proved against byte-wise descriptions. \<open>CString\<close>: \<^verbatim>\<open>lib/string/string.c\<close>. \<open>Decimal\<close>: digits of a number.
  \<^item> \<open>Console\<close>: \<^verbatim>\<open>console/console.c\<close>; what \<^verbatim>\<open>print_int\<close> shows.
  \<^item> \<open>Kheap\<close>, \<open>Kheap_Props\<close>: \<^verbatim>\<open>memory/heap/kheap.c\<close>. The invariant \<open>kheap_ok\<close> says that the heap lies in the address
    space, that the table is a sequence of complete runs, and (\<open>table_guard\<close>) that the byte behind the table does not
    look free. Every operation keeps the last condition, but no code establishes it: it is a condition on
    the memory the kernel starts with, and without it the search of \<^verbatim>\<open>kmalloc\<close> runs over the end of the table. What is
    proved under \<open>kheap_ok\<close> rests on it. \<open>live\<close> is the set of allocations the table stands for. The locale \<open>block_allocator\<close> is the contract the rest of the
    kernel uses, interpreted on \<open>kzalloc\<close> and \<open>kfree\<close>. \<open>HeapStructs\<close>: structures in a block.
  \<^item> \<open>Paging\<close>, \<open>Paging_Props\<close>, \<open>Paging_Tables\<close>: \<^verbatim>\<open>memory/paging/paging.c\<close> and \<^verbatim>\<open>paging.asm\<close>. \<open>walk\<close> and \<open>translate\<close> read a page table the way the
    processor does; the invariant \<open>pt_wf\<close> says that its pages are live and distinct. Creation, mapping,
    unmapping and release are proved against the translation.
  \<^item> \<open>Disk\<close>, \<open>Disk_Props\<close>: \<^verbatim>\<open>disk/disk.c\<close>, \<^verbatim>\<open>disk/streamer.c\<close>; a stream is read sector by sector into the memory of the caller, or
    into a local variable, which is a list of bytes. \<open>FsUtils\<close>: \<^verbatim>\<open>fs/utils.c\<close>. \<open>Fat16\<close>: \<^verbatim>\<open>fs/fat/fat16.c\<close>. \<open>File\<close>: \<^verbatim>\<open>fs/file.c\<close>. \<open>Elf\<close>: \<^verbatim>\<open>loader/\<close>.
    \<open>Fat16_Props\<close>: the bytes \<^verbatim>\<open>kfread\<close> delivers inside the first cluster of a file, through driver, stream and disk, and what a
    look-up in the allocation table returns. \<open>Descriptors\<close>: the table of file descriptors stays well formed.
    \<open>Elf_Props\<close>: the scan of the program headers against least and greatest addresses.
  \<^item> \<open>Task\<close>: \<^verbatim>\<open>task/task.c\<close>, \<^verbatim>\<open>task.h\<close>, \<^verbatim>\<open>task.asm\<close>. \<open>Process\<close>: \<^verbatim>\<open>task/process.c\<close>. \<open>Keyboard\<close>: \<^verbatim>\<open>dev/\<close>. \<open>Keyboard_Props\<close>: the ring buffer of a
    process as a bounded queue (locale \<open>bounded_queue\<close>) through any sequence of pushes and pops, and the limits of that. \<open>Syscall\<close>: \<^verbatim>\<open>syscall/\<close>. \<open>Idt\<close>: \<^verbatim>\<open>idt/\<close>. \<open>Gdt\<close>: \<^verbatim>\<open>gdt/gdt.c\<close>. \<open>Kernel\<close>: \<^verbatim>\<open>kernel.c\<close>.
  \<^item> \<open>Task_Props\<close>: the doubly linked list of tasks as a list (locale \<open>task_register\<close>), and what creating and freeing
    a task takes from and gives back to the heap. \<open>Demo\<close>: a small initial state for the examples.
  \<^item> \<open>Scheduler\<close>: searching a ready task ends; clock interrupts, as the inductive relation \<open>clock_run\<close>, let ready
    tasks take turns and give each its registers back; when the handler hangs.
  \<^item> \<open>User_Memory\<close>: \<^verbatim>\<open>mmap\<close> and \<^verbatim>\<open>munmap\<close> against the translation of the caller. \<open>Dispatch\<close>: the tables after start-up and the
    path of a system call from the gate back to the program. \<open>Arguments\<close>: the stack of a new process as \<^verbatim>\<open>main\<close> reads it.
  \<^item> \<open>Trap\<close>: the entry stubs of \<^verbatim>\<open>idt/idt.asm\<close> and \<^verbatim>\<open>task_return\<close> of \<^verbatim>\<open>task/task.asm\<close> by their instructions, with the kernel stack
    in memory. They implement the operations on whole interrupt frames that \<open>Idt\<close> and \<open>Task\<close> use, and together
    they give an interrupted program its registers back. \<open>Ports\<close>: \<^verbatim>\<open>io/io.asm\<close>, \<^verbatim>\<open>kernel.asm\<close> and the segment registers.

  \<^bold>\<open>Theories of the user programs.\<close> \<open>Stdlib\<close>: \<^verbatim>\<open>programs/stdlib/src/stdlib.c\<close>, on the address space of a program, with system
  calls by their effect: what a program prints is the field \<open>out\<close>, not the console of the kernel. \<open>Stdlib_Props\<close>: \<^verbatim>\<open>itoa\<close> and \<^verbatim>\<open>atoi\<close>, line editing, tokens. \<open>User_Heap\<close>: \<^verbatim>\<open>malloc\<close> over the kernel's
  \<^verbatim>\<open>mmap\<close>, through the locale \<open>page_provider\<close> that \<open>mmap_checked\<close>, with its effect on the memory the program sees, is proved to
  satisfy. \<open>Printf\<close>: \<^verbatim>\<open>printf\<close> against the texts of the
  pieces of a format. \<open>Os_Stubs\<close>: the system call stubs \<^verbatim>\<open>os.asm\<close> and \<^verbatim>\<open>start.asm\<close> by their instructions. \<open>Shell\<close>, \<open>Shell_Props\<close>:
  \<^verbatim>\<open>programs/shell/shell.c\<close>, from the typed line to the request for a process. \<open>Blank\<close>: \<^verbatim>\<open>programs/blank/blank.c\<close>.

  \<^bold>\<open>Hardware.\<close> The disk is an array of sectors and is always ready, so polling is left out. The scan code of a key and the
  interrupt frame are arguments. Copies between kernel and user memory go through the page tables in
  memory, not through stale TLB entries; the TLB is a field that flushing clears. A null pointer that is
  dereferenced is the outcome \<open>NullDeref\<close>.

  \<^bold>\<open>Not modelled.\<close> The boot sector, which runs in real mode before the kernel is in memory; the waiting for disk and
  keyboard ports, whose answers are arguments; the self tests at the end of some C files; the function
  \<^verbatim>\<open>screen\<close> of the sample program, which nothing calls; compile-time checks and link layout, which have no state.
\<close>

end
